(* ===== verification/Prelude.thy ===== *)
theory Prelude
  imports Main "HOL-Library.Word"
begin

unbundle bit_operations_syntax

text \<open>
  What every component theory shares: the widths of the Go integer types, Go's ways
  to end a call (a value, a non-nil error, a run-time panic, waiting) as one datatype, sequencing
  of state-passing code over it, the errors of the packages, the values of Go's \<open>any\<close>, and
  the interface of a step relation with an invariant. The collection \<open>go_simps\<close> holds the
  evaluation rules of sequencing.
\<close>

named_theorems go_simps \<open>evaluation of sequenced state-passing code\<close>

section \<open>Types\<close>

text \<open>
  Go's \<open>byte\<close>, \<open>int32\<close>, \<open>uint32\<close>, \<open>int64\<close> and \<open>uint64\<close> at their widths. A signed type is a
  word that is read with \<^const>\<open>sint\<close>. Go strings are byte sequences.
\<close>

type_synonym byte = "8 word"
type_synonym bytes = "byte list"
type_synonym i32 = "32 word"
type_synonym u32 = "32 word"
type_synonym i64 = "64 word"
type_synonym u64 = "64 word"

text \<open>The bytes of an ASCII literal.\<close>

definition str :: "string \<Rightarrow> bytes" where
  "str s = map of_char s"

lemma length_str [simp]: "length (str s) = length s"
  by (simp add: str_def)

lemma str_Nil [simp]: "str [] = []"
  by (simp add: str_def)

lemma str_Cons [simp]: "str (c # s) = of_char c # str s"
  by (simp add: str_def)

lemma str_append: "str (s @ t) = str s @ str t"
  by (simp add: str_def)

section \<open>Errors, panics and sequencing\<close>

text \<open>
  The error values the packages return. \<open>ErrNew\<close> is \<open>errors.New\<close> or \<open>fmt.Errorf\<close> of a text;
  \<open>ErrText\<close> formats an inner error with \<open>%v\<close>, which hides it from \<open>errors.Is\<close>; \<open>ErrWrap\<close>
  wraps it with \<open>%w\<close>, which does not; \<open>ErrLib\<close> is an error of a library call, known only by
  a number.
\<close>

datatype err =
    ErrMsgHeadIllegal
  | ErrMsgDataSizeTooLong
  | ErrMsgHeadNotSetTransform
  | ErrEOF
  | ErrUnexpectedEOF
  | ErrShortBuffer
  | ErrNetClosed
  | ErrNoBinder
  | ErrNew string
  | ErrText string err
  | ErrWrap string err
  | ErrLib nat

text \<open>\<open>errors.Is(err, target)\<close> for the sentinel errors: it looks through \<open>%w\<close> only.\<close>

fun errors_is :: "err \<Rightarrow> err \<Rightarrow> bool" where
  "errors_is (ErrWrap s e) t = (ErrWrap s e = t \<or> errors_is e t)"
| "errors_is e t = (e = t)"

text \<open>
  How a call ends: with a value, with a non-nil error, with a run-time panic, or not at all
  from the state it was made in (it waits for a channel or a lock).
\<close>

datatype 'a outcome = Ok 'a | Err err | Panic | Blocked

type_synonym ('a, 's) run = "'a outcome \<times> 's"

text \<open>Run \<open>k\<close> on the value and the state a call left; an error or a panic ends the sequence.\<close>

definition and_then :: "('a, 's) run \<Rightarrow> ('a \<Rightarrow> 's \<Rightarrow> ('b, 's) run) \<Rightarrow> ('b, 's) run" where
  "and_then r k = (case r of (Ok a, s) \<Rightarrow> k a s | (Err e, s) \<Rightarrow> (Err e, s) | (Panic, s) \<Rightarrow> (Panic, s)
     | (Blocked, s) \<Rightarrow> (Blocked, s))"

lemma and_then_simps [simp, go_simps]:
  "and_then (Ok a, s) k = k a s"
  "and_then (Err e, s) k = (Err e, s)"
  "and_then (Panic, s) k = (Panic, s)"
  "and_then (Blocked, s) k = (Blocked, s)"
  by (simp_all add: and_then_def)

lemma and_then_Ok_iff:
  "and_then r k = (Ok b, t) \<longleftrightarrow> (\<exists>a s. r = (Ok a, s) \<and> k a s = (Ok b, t))"
  by (cases r; cases "fst r") (auto simp: and_then_def)

lemma and_then_assoc:
  "and_then (and_then r f) g = and_then r (\<lambda>a s. and_then (f a s) g)"
  by (cases r; cases "fst r") (auto simp: and_then_def)

text \<open>A library call that returns a value or an error, as an outcome.\<close>

definition lift_sum :: "err + 'a \<Rightarrow> 'a outcome" where
  "lift_sum r = (case r of Inl e \<Rightarrow> Err e | Inr a \<Rightarrow> Ok a)"

lemma lift_sum_simps [simp, go_simps]:
  "lift_sum (Inl e) = Err e" "lift_sum (Inr a) = Ok a"
  by (simp_all add: lift_sum_def)

text \<open>A caller that keeps only the error, or that formats it into a text of its own.\<close>

abbreviation done_with :: "'a outcome \<Rightarrow> unit outcome" where
  "done_with x \<equiv> map_outcome (\<lambda>_. ()) x"

definition as_text :: "string \<Rightarrow> 'a outcome \<Rightarrow> 'a outcome" where
  "as_text s x = (case x of Err e \<Rightarrow> Err (ErrText s e) | _ \<Rightarrow> x)"

lemma as_text_simps [simp, go_simps]:
  "as_text s (Ok a) = Ok a" "as_text s (Err e) = Err (ErrText s e)"
  "as_text s Panic = Panic" "as_text s Blocked = Blocked"
  by (simp_all add: as_text_def)

section \<open>Values of type any\<close>

text \<open>
  The dynamic values the code inspects by a type switch: byte slices, pointers to them,
  which may be nil, and everything else, which only a serialisation looks into and which is known
  here by a number.
\<close>

datatype any = VBytes bytes | VBytesPtr bytes | VNilBytesPtr | VObj nat | VNil

section \<open>Lists\<close>

text \<open>Copying \<open>v\<close> into an array at position \<open>i\<close>, as \<open>copy(a[i:], v)\<close> does when it fits.\<close>

definition overwrite :: "nat \<Rightarrow> 'a list \<Rightarrow> 'a list \<Rightarrow> 'a list" where
  "overwrite i v a = take i a @ v @ drop (i + length v) a"

lemma length_overwrite [simp]:
  "i + length v \<le> length a \<Longrightarrow> length (overwrite i v a) = length a"
  by (simp add: overwrite_def)

lemma take_overwrite_before [simp]:
  "i \<le> length a \<Longrightarrow> take i (overwrite i v a) = take i a"
  by (simp add: overwrite_def)

lemma take_overwrite_end [simp]:
  "i \<le> length a \<Longrightarrow> take (i + length v) (overwrite i v a) = take i a @ v"
  by (simp add: overwrite_def)

lemma overwrite_0 [simp]: "overwrite 0 v a = v @ drop (length v) a"
  by (simp add: overwrite_def)

text \<open>\<open>strings.IndexByte\<close>: the first position of a byte; \<open>None\<close> stands for -1.\<close>

fun index_byte :: "'a list \<Rightarrow> 'a \<Rightarrow> nat option" where
  "index_byte [] c = None"
| "index_byte (x # xs) c = (if x = c then Some 0 else map_option Suc (index_byte xs c))"

lemma index_byte_None_iff [simp]: "index_byte xs c = None \<longleftrightarrow> c \<notin> set xs"
  by (induction xs) auto

lemma index_byte_append:
  "c \<notin> set xs \<Longrightarrow> index_byte (xs @ ys) c = map_option ((+) (length xs)) (index_byte ys c)"
  by (cases "index_byte ys c"; induction xs) (auto simp del: index_byte_None_iff)

lemma index_byte_first [simp]: "c \<notin> set xs \<Longrightarrow> index_byte (xs @ c # ys) c = Some (length xs)"
  by (simp add: index_byte_append)

lemma index_byte_SomeD:
  "index_byte xs c = Some i \<Longrightarrow> i < length xs \<and> xs ! i = c \<and> c \<notin> set (take i xs)"
  by (induction xs arbitrary: i) (auto split: if_splits)

section \<open>Signed values\<close>

lemma sint_word_of_nat: "n < 2 ^ 31 \<Longrightarrow> sint (word_of_nat n :: i32) = int n"
  by (simp add: signed_of_nat signed_take_bit_int_eq_self)

lemma sint_word_of_nat64: "n < 2 ^ 63 \<Longrightarrow> sint (word_of_nat n :: i64) = int n"
  by (simp add: signed_of_nat signed_take_bit_int_eq_self)

lemma word_of_nat_eq_0_iff: "n < 2 ^ 31 \<Longrightarrow> (word_of_nat n :: i32) = 0 \<longleftrightarrow> n = 0"
  using sint_word_of_nat [of n] by (auto simp del: of_nat_eq_0_iff)

section \<open>Step relations with an invariant\<close>

text \<open>
  The interface of a state machine: a step relation and a predicate every step keeps. The
  client lemma lifts the predicate to everything a run can reach.
\<close>

locale step_invariant =
  fixes step :: "'s \<Rightarrow> 's \<Rightarrow> bool" and inv :: "'s \<Rightarrow> bool"
  assumes step_keeps: "step s t \<Longrightarrow> inv s \<Longrightarrow> inv t"
begin

lemma run_keeps: "step\<^sup>*\<^sup>* s t \<Longrightarrow> inv s \<Longrightarrow> inv t"
  by (induction rule: rtranclp_induct) (auto intro: step_keeps)

end

end
