(* ===== verification/Slices.thy ===== *)
theory Slices
  imports Prelude
begin

text \<open>
  Go's byte slices with their backing array, and \<open>bytes.Buffer\<close> over such a slice. A message
  reslices its slice up to the capacity, so the bytes past the length are part of the model.
\<close>

section \<open>Slices\<close>

text \<open>
  \<open>arr\<close> is the backing array from the first element of the slice to the end of its capacity,
  \<open>slen\<close> the length of the slice.
\<close>

record slice =
  arr :: bytes
  slen :: nat

definition wf_slice :: "slice \<Rightarrow> bool" where
  "wf_slice s \<longleftrightarrow> slen s \<le> length (arr s)"

definition view :: "slice \<Rightarrow> bytes" where
  "view s = take (slen s) (arr s)"

definition scap :: "slice \<Rightarrow> nat" where
  "scap s = length (arr s)"

definition nil_slice :: slice where
  "nil_slice = \<lparr>arr = [], slen = 0\<rparr>"

text \<open>\<open>make([]byte, n, c)\<close> panics unless \<open>0 \<le> n \<le> c\<close>.\<close>

definition make_slice :: "int \<Rightarrow> int \<Rightarrow> slice outcome" where
  "make_slice n c =
     (if 0 \<le> n \<and> n \<le> c then Ok \<lparr>arr = replicate (nat c) 0, slen = nat n\<rparr> else Panic)"

text \<open>\<open>s[0:n]\<close> may extend the slice up to its capacity; it panics beyond it.\<close>

definition reslice :: "slice \<Rightarrow> int \<Rightarrow> slice outcome" where
  "reslice s n = (if 0 \<le> n \<and> n \<le> int (scap s) then Ok (s\<lparr>slen := nat n\<rparr>) else Panic)"

text \<open>A slice over a fresh array that holds \<open>d\<close>, with room up to the size the allocator picks.\<close>

definition alloc_slice :: "(nat \<Rightarrow> nat) \<Rightarrow> bytes \<Rightarrow> slice" where
  "alloc_slice grow d =
     \<lparr>arr = d @ replicate (grow (length d) - length d) 0, slen = length d\<rparr>"

lemma length_view [simp]: "wf_slice s \<Longrightarrow> length (view s) = slen s"
  by (simp add: view_def wf_slice_def)

lemma view_alloc_slice [simp]: "view (alloc_slice grow d) = d"
  by (simp add: view_def alloc_slice_def)

lemma slen_alloc_slice [simp]: "slen (alloc_slice grow d) = length d"
  by (simp add: alloc_slice_def)

lemma wf_alloc_slice [simp]: "wf_slice (alloc_slice grow d)"
  by (simp add: wf_slice_def alloc_slice_def)

lemma wf_nil_slice [simp]: "wf_slice nil_slice"
  by (simp add: wf_slice_def nil_slice_def)

lemma wf_make_slice: "make_slice n c = Ok s \<Longrightarrow> wf_slice s"
  by (auto simp: make_slice_def wf_slice_def split: if_splits)

lemma wf_reslice: "reslice s n = Ok t \<Longrightarrow> wf_slice t"
  by (auto simp: reslice_def wf_slice_def scap_def split: if_splits)

section \<open>bytes.Buffer over a slice\<close>

text \<open>
  \<open>bytes.NewBuffer(b)\<close> appends in place while the capacity of \<open>b\<close> lasts, so it writes into the
  array it shares with the owner of \<open>b\<close>; when the capacity is exhausted it moves to a new array
  of at least twice the capacity, rounded up by the allocator (\<open>grow\<close>), and no longer shares.
\<close>

record gobuf =
  buf :: slice
  shared :: bool

definition new_buffer :: "slice \<Rightarrow> gobuf" where
  "new_buffer s = \<lparr>buf = s, shared = True\<rparr>"

definition buf_write :: "(nat \<Rightarrow> nat) \<Rightarrow> bytes \<Rightarrow> gobuf \<Rightarrow> gobuf" where
  "buf_write grow p b =
     (let s = buf b; n = slen s + length p in
      if n \<le> scap s then b\<lparr>buf := \<lparr>arr = overwrite (slen s) p (arr s), slen = n\<rparr>\<rparr>
      else let c = max n (2 * scap s); c' = max c (grow c) in
        \<lparr>buf = \<lparr>arr = view s @ p @ replicate (c' - n) 0, slen = n\<rparr>, shared = False\<rparr>)"

text \<open>The array the owner sees afterwards: its own, with the writes made while it was shared.\<close>

definition owner_arr :: "bytes \<Rightarrow> gobuf \<Rightarrow> bytes" where
  "owner_arr old b = (if shared b then arr (buf b) else old)"

lemma slen_buf_write [simp]: "slen (buf (buf_write grow p b)) = slen (buf b) + length p"
  by (simp add: buf_write_def Let_def)

lemma wf_buf_write [simp]: "wf_slice (buf b) \<Longrightarrow> wf_slice (buf (buf_write grow p b))"
  by (auto simp: buf_write_def Let_def wf_slice_def scap_def view_def)

lemma view_buf_write [simp]:
  "wf_slice (buf b) \<Longrightarrow> view (buf (buf_write grow p b)) = view (buf b) @ p"
  by (auto simp: buf_write_def Let_def wf_slice_def scap_def view_def)

lemma buf_new_buffer [simp]: "buf (new_buffer s) = s"
  by (simp add: new_buffer_def)

end
