(* ===== verification/ByteOrder.thy ===== *)
theory ByteOrder
  imports Prelude
begin

text \<open>
  The \<open>encoding/binary\<close> byte orders the message head is written in: \<open>PutUint32\<close> and
  \<open>Uint32\<close> of the big-endian and the little-endian order, behind the interface
  \<open>uint32_order\<close> that the message code relies on.
\<close>

section \<open>The interface\<close>

text \<open>
  What the code uses of a \<open>binary.ByteOrder\<close>: four bytes per value, and reading back what was
  written.
\<close>

locale uint32_order =
  fixes put :: "u32 \<Rightarrow> bytes" and get :: "bytes \<Rightarrow> u32"
  assumes put_length: "length (put x) = 4"
    and get_put: "get (put x) = x"
begin

lemma put_inj: "put x = put y \<longleftrightarrow> x = y"
  by (metis get_put)

lemma get_take_put: "get (take 4 (put x @ rest)) = x"
  by (simp add: put_length get_put)

lemma get_two_fields:
  "get (take 4 (put x @ put y @ rest)) = x \<and> get (take 4 (drop 4 (put x @ put y @ rest))) = y"
  by (simp add: put_length get_put)

end

section \<open>The two orders\<close>

datatype byte_order = BigEndian | LittleEndian

definition be_put :: "u32 \<Rightarrow> bytes" where
  "be_put x = [ucast (drop_bit 24 x), ucast (drop_bit 16 x), ucast (drop_bit 8 x), ucast x]"

definition be_join :: "byte \<Rightarrow> byte \<Rightarrow> byte \<Rightarrow> byte \<Rightarrow> u32" where
  "be_join a b c d =
     push_bit 24 (ucast a) OR push_bit 16 (ucast b) OR push_bit 8 (ucast c) OR ucast d"

text \<open>The callers slice four bytes first; a shorter slice panics there, so it is not read here.\<close>

definition be_get :: "bytes \<Rightarrow> u32" where
  "be_get bs = be_join (bs ! 0) (bs ! 1) (bs ! 2) (bs ! 3)"

definition le_put :: "u32 \<Rightarrow> bytes" where
  "le_put x = rev (be_put x)"

definition le_get :: "bytes \<Rightarrow> u32" where
  "le_get bs = be_join (bs ! 3) (bs ! 2) (bs ! 1) (bs ! 0)"

definition PutUint32 :: "byte_order \<Rightarrow> u32 \<Rightarrow> bytes" where
  "PutUint32 bo = (case bo of BigEndian \<Rightarrow> be_put | LittleEndian \<Rightarrow> le_put)"

definition Uint32 :: "byte_order \<Rightarrow> bytes \<Rightarrow> u32" where
  "Uint32 bo = (case bo of BigEndian \<Rightarrow> be_get | LittleEndian \<Rightarrow> le_get)"

lemma be_join_parts:
  "be_join (ucast (drop_bit 24 x)) (ucast (drop_bit 16 x)) (ucast (drop_bit 8 x)) (ucast x) = x"
  unfolding be_join_def
proof (rule bit_word_eqI)
  fix n :: nat
  assume "n < LENGTH(32)"
  then consider "n < 8" | "8 \<le> n" "n < 16" | "16 \<le> n" "n < 24" | "24 \<le> n" "n < 32"
    by fastforce
  then show "bit (push_bit 24 (ucast (ucast (drop_bit 24 x) :: byte) :: u32)
      OR push_bit 16 (ucast (ucast (drop_bit 16 x) :: byte))
      OR push_bit 8 (ucast (ucast (drop_bit 8 x) :: byte)) OR ucast (ucast x :: byte)) n = bit x n"
    by cases (auto simp: bit_simps)
qed

lemma length_be_put [simp]: "length (be_put x) = 4"
  by (simp add: be_put_def)

lemma length_le_put [simp]: "length (le_put x) = 4"
  by (simp add: le_put_def)

lemma be_get_put [simp]: "be_get (be_put x) = x"
  by (simp add: be_get_def be_put_def be_join_parts)

lemma le_get_put [simp]: "le_get (le_put x) = x"
  by (simp add: le_get_def le_put_def be_put_def be_join_parts)

interpretation be: uint32_order be_put be_get
  by unfold_locales simp_all

interpretation le: uint32_order le_put le_get
  by unfold_locales simp_all

interpretation bo: uint32_order "PutUint32 b" "Uint32 b" for b
  by unfold_locales (simp_all add: PutUint32_def Uint32_def split: byte_order.split)

lemmas byte_order_simps [simp] = bo.put_length bo.get_put bo.put_inj

lemma PutUint32_inj: "PutUint32 b x = PutUint32 b y \<Longrightarrow> x = y"
  by simp

end
