(* ===== verification/Flags.thy ===== *)
theory Flags
  imports Prelude
begin

text \<open>
  \<open>message/flag.go\<close>: the flag byte of a message head. \<open>Set\<close> and \<open>Delete\<close> return the byte the
  code stores through the pointer.
\<close>

type_synonym flag = byte

definition FlagConfirm :: flag where "FlagConfirm = push_bit 0 1"
definition FlagNoreply :: flag where "FlagNoreply = push_bit 1 1"
definition FlagHeartbeat :: flag where "FlagHeartbeat = push_bit 2 1"
definition FlagBroadcast :: flag where "FlagBroadcast = push_bit 3 1"
definition FlagCompressed :: flag where "FlagCompressed = push_bit 4 1"
definition FlagEncrypted :: flag where "FlagEncrypted = push_bit 5 1"
definition FlagFragmented :: flag where "FlagFragmented = push_bit 6 1"

lemmas flag_defs =
  FlagConfirm_def FlagNoreply_def FlagHeartbeat_def FlagBroadcast_def FlagCompressed_def
  FlagEncrypted_def FlagFragmented_def

definition Has :: "flag \<Rightarrow> flag \<Rightarrow> bool" where
  "Has f t \<longleftrightarrow> f AND t > 0"

definition Set :: "flag \<Rightarrow> flag \<Rightarrow> flag" where
  "Set f t = f OR t"

definition Delete :: "flag \<Rightarrow> flag \<Rightarrow> flag" where
  "Delete f t = f AND NOT t"

section \<open>Reading a flag after writing one\<close>

lemma Has_iff_bit: "Has f (2 ^ n) \<longleftrightarrow> bit f n"
proof -
  have "f AND 2 ^ n = (if bit f n then 2 ^ n else 0)"
    by (rule bit_word_eqI) (auto simp: bit_simps)
  moreover have "2 ^ n \<noteq> (0 :: flag)" if "bit f n"
    using bit_imp_le_length [OF that] by simp
  ultimately show ?thesis
    by (auto simp: Has_def word_gt_0)
qed

lemma Has_Set_bit: "n < 8 \<Longrightarrow> Has (Set f (2 ^ m)) (2 ^ n) \<longleftrightarrow> n = m \<or> Has f (2 ^ n)"
  unfolding Has_iff_bit Set_def by (auto simp: bit_simps)

lemma Has_Delete_bit:
  "n < 8 \<Longrightarrow> Has (Delete f (2 ^ m)) (2 ^ n) \<longleftrightarrow> n \<noteq> m \<and> Has f (2 ^ n)"
  unfolding Has_iff_bit Delete_def by (auto simp: bit_simps)

lemma Delete_Set_bit: "\<not> Has f (2 ^ m) \<Longrightarrow> Delete (Set f (2 ^ m)) (2 ^ m) = f"
  unfolding Has_iff_bit Delete_def Set_def
  by (rule bit_word_eqI) (auto simp: bit_simps)

text \<open>The facts the message code uses, for the named flags.\<close>

lemma FlagCompressed_pow: "FlagCompressed = 2 ^ 4"
  by (simp add: FlagCompressed_def)

lemma Has_Set_Compressed [simp]: "Has (Set f FlagCompressed) FlagCompressed"
  unfolding FlagCompressed_pow by (subst Has_Set_bit) simp_all

lemma Has_Delete_Compressed [simp]: "\<not> Has (Delete f FlagCompressed) FlagCompressed"
  unfolding FlagCompressed_pow by (subst Has_Delete_bit) simp_all

lemma Delete_Set_Compressed [simp]:
  "\<not> Has f FlagCompressed \<Longrightarrow> Delete (Set f FlagCompressed) FlagCompressed = f"
  unfolding FlagCompressed_pow by (rule Delete_Set_bit)

lemma Has_0 [simp]: "\<not> Has 0 t"
  by (simp add: Has_def)

end
