(* ===== verification/Magic.thy ===== *)
theory Magic
  imports ByteOrder Flags
begin

text \<open>
  \<open>message/magic.go\<close>: the registry of magic numbers, each with its mode, its serialisation
  and its byte order.
\<close>

datatype magic_type = MagicTypePath | MagicTypeCode

text \<open>
  The interface \<open>Binder\<close> of another module is taken as the record of its operations. \<open>b_encode\<close> gives the chunks the encoder writes and the error it may end with.
\<close>

record codec =
  b_encode :: "any \<Rightarrow> bytes list \<times> err option"
  b_marshal :: "any \<Rightarrow> err + bytes"
  b_unmarshal :: "bytes \<Rightarrow> err + any"

text \<open>The Go type \<open>Magic\<close>; a nil \<open>Binder\<close> is \<open>None\<close>.\<close>

record magic =
  Key :: byte
  Type :: magic_type
  Binder :: "codec option"
  Binary :: byte_order

type_synonym magics = "byte \<rightharpoonup> magic"

definition MagicNumberPathJson :: byte where "MagicNumberPathJson = 0xf0"
definition MagicNumberCodeJson :: byte where "MagicNumberCodeJson = 0xf1"
definition MagicNumberCodeProto :: byte where "MagicNumberCodeProto = 0xf2"

lemmas magic_number_defs =
  MagicNumberPathJson_def MagicNumberCodeJson_def MagicNumberCodeProto_def

definition magics_Has :: "magics \<Rightarrow> byte \<Rightarrow> bool" where
  "magics_Has ms key \<longleftrightarrow> ms key \<noteq> None"

definition magics_Get :: "magics \<Rightarrow> byte \<Rightarrow> magic option" where
  "magics_Get ms key = ms key"

text \<open>A key that is taken is left alone (the code logs an alert and returns).\<close>

definition magics_Register ::
  "byte \<Rightarrow> magic_type \<Rightarrow> codec option \<Rightarrow> byte_order \<Rightarrow> magics \<Rightarrow> magics" where
  "magics_Register key mt bi b ms =
     (if ms key \<noteq> None then ms
      else ms(key \<mapsto> \<lparr>Key = key, Type = mt, Binder = bi, Binary = b\<rparr>))"

text \<open>The package's \<open>init\<close>, over the two serialisations of the other module.\<close>

definition Magics_init :: "codec \<Rightarrow> codec \<Rightarrow> magics" where
  "Magics_init json protobuf =
     magics_Register MagicNumberCodeProto MagicTypeCode (Some protobuf) BigEndian
      (magics_Register MagicNumberCodeJson MagicTypeCode (Some json) BigEndian
        (magics_Register MagicNumberPathJson MagicTypePath (Some json) BigEndian Map.empty))"

section \<open>The registry\<close>

text \<open>Every entry carries the key it is filed under.\<close>

definition keys_ok :: "magics \<Rightarrow> bool" where
  "keys_ok ms \<longleftrightarrow> (\<forall>k m. ms k = Some m \<longrightarrow> Key m = k)"

lemma keys_ok_Register: "keys_ok ms \<Longrightarrow> keys_ok (magics_Register k mt bi b ms)"
  by (auto simp: keys_ok_def magics_Register_def)

lemma keys_ok_init: "keys_ok (Magics_init j p)"
  unfolding Magics_init_def by (intro keys_ok_Register) (simp add: keys_ok_def)

lemma Register_other: "k' \<noteq> k \<Longrightarrow> magics_Register k mt bi b ms k' = ms k'"
  by (simp add: magics_Register_def)

lemma Register_extends: "ms \<subseteq>\<^sub>m magics_Register k mt bi b ms"
  by (auto simp: map_le_def magics_Register_def)

lemma Register_Has: "magics_Has (magics_Register k mt bi b ms) k"
  by (simp add: magics_Has_def magics_Register_def)

lemma Magics_init_entries [simp]:
  "Magics_init j p MagicNumberPathJson =
     Some \<lparr>Key = MagicNumberPathJson, Type = MagicTypePath, Binder = Some j, Binary = BigEndian\<rparr>"
  "Magics_init j p MagicNumberCodeJson =
     Some \<lparr>Key = MagicNumberCodeJson, Type = MagicTypeCode, Binder = Some j, Binary = BigEndian\<rparr>"
  "Magics_init j p MagicNumberCodeProto =
     Some \<lparr>Key = MagicNumberCodeProto, Type = MagicTypeCode, Binder = Some p, Binary = BigEndian\<rparr>"
  by (simp_all add: Magics_init_def magics_Register_def magic_number_defs)

lemma Magics_init_dom:
  "dom (Magics_init j p) = {MagicNumberPathJson, MagicNumberCodeJson, MagicNumberCodeProto}"
  by (auto simp: Magics_init_def magics_Register_def magic_number_defs split: if_splits)

end
