(* ===== verification/Head.thy ===== *)
theory Head
  imports Slices Magic
begin

text \<open>
  \<open>message/options.go\<close> and \<open>message/head.go\<close>: the options of the package, what it takes from
  elsewhere (the registry, the transform between codes and paths, gzip), and the ten-byte
  head with its parser and its printer.
\<close>

section \<open>Options and environment\<close>

text \<open>
  The fields of \<open>message.Options\<close> the code reads; \<open>HeadLen\<close> is the length of the buffer that
  \<open>Options.Head\<close> makes.
\<close>

record options =
  Pool :: bool
  DefaultMagic :: byte
  Capacity :: int
  MaxDataSize :: i32
  AutoCompressSize :: i32
  S2CConfirm :: bytes
  HeadLen :: nat

definition messageHeadSize :: nat where "messageHeadSize = 10"

definition Options_default :: options where
  "Options_default =
     \<lparr>Pool = True, DefaultMagic = MagicNumberPathJson, Capacity = 1024,
      MaxDataSize = 1024 * 1024, AutoCompressSize = 1024 * 100, S2CConfirm = [],
      HeadLen = messageHeadSize\<rparr>"

text \<open>
  \<open>TrPath\<close> and \<open>TrCode\<close> are the two operations of \<open>message.Transform\<close>, which an application
  replaces; \<open>gzip\<close> and \<open>gunzip\<close> are a whole write and a whole read of \<open>compress/gzip\<close>;
  \<open>grow\<close> is the size the allocator rounds a request up to.
\<close>

record env =
  opts :: options
  Magics :: magics
  TrPath :: "i32 \<Rightarrow> err + bytes"
  TrCode :: "bytes \<Rightarrow> err + i32"
  gzip :: "bytes \<Rightarrow> bytes"
  gunzip :: "bytes \<Rightarrow> err + bytes"
  grow :: "nat \<Rightarrow> nat"

definition transformDefault_Path :: "i32 \<Rightarrow> err + bytes" where
  "transformDefault_Path c = Inl ErrMsgHeadNotSetTransform"

definition transformDefault_Code :: "bytes \<Rightarrow> err + i32" where
  "transformDefault_Code p = Inl ErrMsgHeadNotSetTransform"

section \<open>The head\<close>

record head =
  h_magic :: byte
  h_flag :: flag
  h_size :: i32
  h_index :: i32

definition head_zero :: head where
  "head_zero = \<lparr>h_magic = 0, h_flag = 0, h_size = 0, h_index = 0\<rparr>"

text \<open>The getters; a magic number that is not registered has a nil \<open>Magic\<close>.\<close>

definition head_Flag :: "'a head_scheme \<Rightarrow> flag" where
  "head_Flag h = h_flag h"

definition head_Size :: "'a head_scheme \<Rightarrow> i32" where
  "head_Size h = h_size h"

definition head_Index :: "'a head_scheme \<Rightarrow> i32" where
  "head_Index h = h_index h"

definition head_Magic :: "env \<Rightarrow> 'a head_scheme \<Rightarrow> magic option" where
  "head_Magic e h = Magics e (h_magic h)"

lemma head_Magic_registered [simp]: "head_Magic e h = Magics e (h_magic h)"
  by (simp add: head_Magic_def)

text \<open>\<open>Parse\<close> has stored all four fields when it finds the size too large.\<close>

definition Parse :: "env \<Rightarrow> bytes \<Rightarrow> 'a head_scheme \<Rightarrow> (unit, 'a head_scheme) run" where
  "Parse e hb h =
     (if length hb \<noteq> messageHeadSize then (Err ErrMsgHeadIllegal, h)
      else case magics_Get (Magics e) (hb ! 0) of
        None \<Rightarrow> (Err ErrMsgHeadIllegal, h)
      | Some mg \<Rightarrow>
          let h' = h\<lparr>h_magic := hb ! 0, h_flag := hb ! 1,
                     h_size := Uint32 (Binary mg) (take 4 (drop 2 hb)),
                     h_index := Uint32 (Binary mg) (take 4 (drop 6 hb))\<rparr>
          in if sint (h_size h') > sint (MaxDataSize (opts e))
             then (Err ErrMsgDataSizeTooLong, h') else (Ok (), h'))"

text \<open>The condition under which a message is compressed on its way out.\<close>

definition auto_compress :: "env \<Rightarrow> 'a head_scheme \<Rightarrow> bool" where
  "auto_compress e h \<longleftrightarrow>
     sint (AutoCompressSize (opts e)) > 0 \<and> sint (h_size h) > sint (AutoCompressSize (opts e))
     \<and> \<not> Has (h_flag h) FlagCompressed"

text \<open>A head whose magic number is not registered has a nil \<open>Magic\<close>: writing it panics.\<close>

definition head_bytes :: "env \<Rightarrow> 'a head_scheme \<Rightarrow> (bytes \<times> bool) outcome" where
  "head_bytes e h =
     (case head_Magic e h of
        None \<Rightarrow> Panic
      | Some mg \<Rightarrow>
          let compressed = auto_compress e h;
              flag = (if compressed then Set (h_flag h) FlagCompressed else h_flag h)
          in Ok ([h_magic h, flag] @ PutUint32 (Binary mg) (h_size h)
                   @ PutUint32 (Binary mg) (h_index h), compressed))"

definition format ::
  "env \<Rightarrow> byte \<Rightarrow> flag \<Rightarrow> i32 \<Rightarrow> 'a head_scheme \<Rightarrow> (unit, 'a head_scheme) run" where
  "format e magic flag index h =
     (let h' = h\<lparr>h_magic := magic, h_flag := flag, h_index := index\<rparr> in
      if magics_Get (Magics e) magic = None
      then (Err (ErrNew ''message magic not exist''), h') else (Ok (), h'))"

definition head_Binder :: "env \<Rightarrow> 'a head_scheme \<Rightarrow> codec option" where
  "head_Binder e h = (case head_Magic e h of None \<Rightarrow> None | Some mg \<Rightarrow> Binder mg)"

definition head_Release :: "'a head_scheme \<Rightarrow> 'a head_scheme" where
  "head_Release h = h\<lparr>h_magic := 0, h_flag := 0, h_size := 0, h_index := 0\<rparr>"

section \<open>Reading a head back\<close>

text \<open>The flag the wire carries: the message's own, with the compression mark when it is due.\<close>

definition wire_flag :: "env \<Rightarrow> 'a head_scheme \<Rightarrow> flag" where
  "wire_flag e h = (if auto_compress e h then Set (h_flag h) FlagCompressed else h_flag h)"

lemma head_bytes_registered:
  "Magics e (h_magic h) = Some mg \<Longrightarrow>
   head_bytes e h = Ok ([h_magic h, wire_flag e h] @ PutUint32 (Binary mg) (h_size h)
                          @ PutUint32 (Binary mg) (h_index h), auto_compress e h)"
  by (simp add: head_bytes_def wire_flag_def Let_def)

lemma length_head_bytes: "head_bytes e h = Ok (b, c) \<Longrightarrow> length b = messageHeadSize"
  by (auto simp: head_bytes_def Let_def messageHeadSize_def split: option.splits)

lemma Parse_fields:
  assumes "Magics e mag = Some mg"
  shows "Parse e ([mag, fl] @ PutUint32 (Binary mg) sz @ PutUint32 (Binary mg) ix) h =
    (let h' = h\<lparr>h_magic := mag, h_flag := fl, h_size := sz, h_index := ix\<rparr> in
     if sint sz > sint (MaxDataSize (opts e)) then (Err ErrMsgDataSizeTooLong, h')
     else (Ok (), h'))"
  using assms by (simp add: Parse_def magics_Get_def messageHeadSize_def Let_def)

text \<open>
  The head on the wire parses back to the head, whatever the receiving object held, with the
  compression mark in the flag.
\<close>

lemma Parse_head_bytes:
  assumes "head_bytes e h = Ok (b, c)" and "sint (h_size h) \<le> sint (MaxDataSize (opts e))"
  shows "Parse e b h' = (Ok (), h'\<lparr>h_magic := h_magic h, h_flag := wire_flag e h,
                                   h_size := h_size h, h_index := h_index h\<rparr>)"
proof -
  from assms(1) obtain mg where mg: "Magics e (h_magic h) = Some mg"
    by (auto simp: head_bytes_def split: option.splits)
  with assms(1) have "b = [h_magic h, wire_flag e h] @ PutUint32 (Binary mg) (h_size h)
                            @ PutUint32 (Binary mg) (h_index h)"
    by (simp add: head_bytes_registered)
  then show ?thesis
    using assms(2) by (simp only: Parse_fields [OF mg]) (simp add: Let_def)
qed

text \<open>What a successful \<open>Parse\<close> guarantees, and that it depends on its ten bytes only.\<close>

lemma Parse_OkD:
  assumes "Parse e hb h = (Ok (), h')"
  shows "length hb = messageHeadSize" and "h_magic h' = hb ! 0" and "h_flag h' = hb ! 1"
    and "Magics e (h_magic h') \<noteq> None" and "sint (h_size h') \<le> sint (MaxDataSize (opts e))"
  using assms by (auto simp: Parse_def Let_def magics_Get_def split: if_splits option.splits)

lemma Parse_not_Panic: "fst (Parse e hb h) \<noteq> Panic"
  by (auto simp: Parse_def Let_def split: option.split)

end
