(* ===== verification/Message.thy ===== *)
theory Message
  imports Head
begin

text \<open>
  \<open>message/message.go\<close>: the message object, with every operation of the \<open>Message\<close> interface.
  An operation returns its outcome and the message afterwards; the bytes of the message are a
  slice with its backing array, since \<open>Code\<close> and \<open>Write\<close> reslice up to the capacity.
\<close>

section \<open>State\<close>

record message = head +
  code :: i32
  mbytes :: slice

definition new_message :: message where
  "new_message = \<lparr>h_magic = 0, h_flag = 0, h_size = 0, h_index = 0, code = 0, mbytes = nil_slice\<rparr>"

text \<open>
  A reader gives bytes until it fails with \<open>s_end\<close>; a writer takes bytes until its room is used
  up (a \<open>bytes.Buffer\<close> has no bound).
\<close>

record stream =
  s_bytes :: bytes
  s_end :: err

record writer =
  wrote :: bytes
  room :: "nat option"

definition buffer_writer :: writer where
  "buffer_writer = \<lparr>wrote = [], room = None\<rparr>"

definition w_write :: "bytes \<Rightarrow> writer \<Rightarrow> (nat, writer) run" where
  "w_write p w =
     (case room w of
        None \<Rightarrow> (Ok (length p), w\<lparr>wrote := wrote w @ p\<rparr>)
      | Some k \<Rightarrow>
          if length p \<le> k
          then (Ok (length p), w\<lparr>wrote := wrote w @ p, room := Some (k - length p)\<rparr>)
          else (Err (ErrLib 0), w\<lparr>wrote := wrote w @ take k p, room := Some 0\<rparr>))"

section \<open>Code, path and body\<close>

text \<open>
  The code is cached once it is not zero. Reading it slices the first four bytes of the
  capacity, not of the length, and needs a registered magic number.
\<close>

definition Code :: "env \<Rightarrow> message \<Rightarrow> (i32, message) run" where
  "Code e m =
     (if code m \<noteq> 0 then (Ok (code m), m)
      else case Magics e (h_magic m) of
        None \<Rightarrow> (Panic, m)
      | Some mg \<Rightarrow>
          (case reslice (mbytes m) 4 of
             Ok s \<Rightarrow> let c = Uint32 (Binary mg) (view s) in (Ok c, m\<lparr>code := c\<rparr>)
           | _ \<Rightarrow> (Panic, m)))"

text \<open>A path is cut at its first question mark.\<close>

definition split_query :: "bytes \<Rightarrow> bytes \<times> bytes" where
  "split_query p =
     (case index_byte p (of_char CHR ''?'') of
        Some i \<Rightarrow> (take i p, drop (Suc i) p)
      | None \<Rightarrow> (p, []))"

definition Path :: "env \<Rightarrow> message \<Rightarrow> (bytes \<times> bytes, message) run" where
  "Path e m = and_then (Code e m) (\<lambda>c m.
     case Magics e (h_magic m) of
       None \<Rightarrow> (Panic, m)
     | Some mg \<Rightarrow>
         if Type mg = MagicTypePath then
           (let pathLen = sint c in
            if pathLen \<le> 0 \<or> pathLen + 4 > int (slen (mbytes m)) then (Err ErrMsgHeadIllegal, m)
            else (Ok (split_query (take (nat pathLen) (drop 4 (view (mbytes m))))), m))
         else (case TrPath e c of Inl er \<Rightarrow> (Err er, m) | Inr p \<Rightarrow> (Ok (p, []), m)))"

definition Body :: "env \<Rightarrow> message \<Rightarrow> (bytes, message) run" where
  "Body e m =
     (case Magics e (h_magic m) of
        None \<Rightarrow> (Panic, m)
      | Some mg \<Rightarrow>
          and_then
            (if Type mg = MagicTypePath then
               and_then (Code e m) (\<lambda>c m.
                 let pathLen = sint c in
                 if pathLen > 0 \<and> pathLen + 4 \<le> int (slen (mbytes m))
                 then (Ok (4 + nat pathLen), m) else (Ok 4, m))
             else (Ok 4, m))
            (\<lambda>offset m. if offset > slen (mbytes m) then (Ok [], m)
                        else (Ok (drop offset (view (mbytes m))), m)))"

section \<open>Writing a message out\<close>

text \<open>The gzip stream is written as a whole; the length reported is that of the plain bytes.\<close>

definition compress :: "env \<Rightarrow> message \<Rightarrow> writer \<Rightarrow> (nat, writer) run" where
  "compress e m w =
     and_then (w_write (gzip e (view (mbytes m))) w) (\<lambda>_ w. (Ok (slen (mbytes m)), w))"

definition Bytes_body :: "env \<Rightarrow> message \<Rightarrow> bool \<Rightarrow> nat \<Rightarrow> writer \<Rightarrow> (nat, writer) run" where
  "Bytes_body e m compressed n w =
     (if h_size m = 0 then (Ok n, w)
      else and_then (if compressed then compress e m w else w_write (view (mbytes m)) w)
             (\<lambda>r w. (Ok (n + r), w)))"

definition Bytes :: "env \<Rightarrow> message \<Rightarrow> bool \<Rightarrow> writer \<Rightarrow> (nat, writer) run" where
  "Bytes e m includeHeader w =
     (if includeHeader then
        and_then (head_bytes e m, w) (\<lambda>(hb, compressed) w.
          and_then (w_write hb w) (\<lambda>n w. Bytes_body e m compressed n w))
      else Bytes_body e m (auto_compress e m) 0 w)"

section \<open>Reading a message in\<close>

definition decompress :: "env \<Rightarrow> message \<Rightarrow> (unit, message) run" where
  "decompress e m =
     (if \<not> Has (h_flag m) FlagCompressed then (Ok (), m)
      else case gunzip e (view (mbytes m)) of
        Inl er \<Rightarrow> (Err er, m)
      | Inr d \<Rightarrow> (Ok (), m\<lparr>mbytes := alloc_slice (grow e) d, h_size := word_of_nat (length d),
                            h_flag := Delete (h_flag m) FlagCompressed\<rparr>))"

text \<open>
  \<open>io.ReadFull\<close>: all \<open>n\<close> bytes, or what was there and an error. The bytes read before a failure
  are in the buffer all the same.
\<close>

definition read_full :: "nat \<Rightarrow> stream \<Rightarrow> bytes \<times> err option \<times> stream" where
  "read_full n r =
     (let got = take n (s_bytes r) in
      (got,
       if length got = n then None
       else if s_end r = ErrEOF \<and> got \<noteq> [] then Some ErrUnexpectedEOF else Some (s_end r),
       r\<lparr>s_bytes := drop n (s_bytes r)\<rparr>))"

text \<open>The slice \<open>Write\<close> reads into: the message's own array when it is large enough.\<close>

definition read_slice :: "env \<Rightarrow> int \<Rightarrow> slice \<Rightarrow> slice outcome" where
  "read_slice e n s =
     (if int (scap s) \<ge> n then reslice s n
      else if n > Capacity (opts e) then make_slice n n
      else make_slice n (Capacity (opts e)))"

definition Write :: "env \<Rightarrow> stream \<Rightarrow> message \<Rightarrow> (nat, message \<times> stream) run" where
  "Write e r m =
     (let n = sint (h_size m) in
      if n = 0 then (Ok 0, (m, r))
      else case read_slice e n (mbytes m) of
        Ok s \<Rightarrow>
          (case read_full (nat n) r of (got, _, r') \<Rightarrow>
            let m' = m\<lparr>mbytes := s\<lparr>arr := overwrite 0 got (arr s)\<rparr>\<rparr> in
            if length got \<noteq> nat n then (Err ErrShortBuffer, (m', r'))
            else (case decompress e m' of
                    (x, m'') \<Rightarrow> (map_outcome (\<lambda>_. length got) x, (m'', r'))))
      | _ \<Rightarrow> (Panic, (m, r)))"

text \<open>\<open>Reset\<close> keeps a slice into the datagram it is given.\<close>

definition Reset :: "env \<Rightarrow> slice \<Rightarrow> message \<Rightarrow> (unit, message) run" where
  "Reset e b m =
     (if slen b < messageHeadSize then (Err ErrUnexpectedEOF, m)
      else and_then (Parse e (take messageHeadSize (view b)) m) (\<lambda>_ m.
        decompress e (m\<lparr>mbytes := \<lparr>arr = drop messageHeadSize (arr b),
                                   slen = slen b - messageHeadSize\<rparr>\<rparr>)))"

section \<open>Filling a message from a path and a value\<close>

text \<open>The dynamic types \<open>Marshal\<close> accepts for its path; the integers are cut to 32 bits.\<close>

datatype path_arg =
    PathString bytes
  | PathInt32 i32
  | PathInt64 i64
  | PathInt i64
  | PathUint32 u32
  | PathUint64 u64
  | PathUint u64
  | PathOther

text \<open>\<open>PutUint32\<close> into the first four bytes, and a buffer over them.\<close>

definition put_prefix :: "magic \<Rightarrow> u32 \<Rightarrow> message \<Rightarrow> (gobuf, message) run" where
  "put_prefix mg x m =
     (case reslice (mbytes m) 4 of
        Ok s \<Rightarrow>
          let a = overwrite 0 (PutUint32 (Binary mg) x) (arr s) in
          (Ok (new_buffer (s\<lparr>arr := a\<rparr>)), m\<lparr>mbytes := (mbytes m)\<lparr>arr := a\<rparr>\<rparr>)
      | _ \<Rightarrow> (Panic, m))"

text \<open>A write to the buffer also writes into the message's array while the two are shared.\<close>

definition buffer_write :: "env \<Rightarrow> bytes \<Rightarrow> gobuf \<Rightarrow> message \<Rightarrow> (gobuf, message) run" where
  "buffer_write e p b m =
     (let b' = buf_write (grow e) p b in
      (Ok b', m\<lparr>mbytes := (mbytes m)\<lparr>arr := owner_arr (arr (mbytes m)) b'\<rparr>\<rparr>))"

fun buffer_writes :: "env \<Rightarrow> bytes list \<Rightarrow> gobuf \<Rightarrow> message \<Rightarrow> (gobuf, message) run" where
  "buffer_writes e [] b m = (Ok b, m)"
| "buffer_writes e (p # ps) b m = and_then (buffer_write e p b m) (buffer_writes e ps)"

definition MarshalPath :: "env \<Rightarrow> magic \<Rightarrow> bytes \<Rightarrow> message \<Rightarrow> (gobuf, message) run" where
  "MarshalPath e mg path m =
     (if Type mg = MagicTypePath
      then and_then (put_prefix mg (word_of_nat (length path)) m) (buffer_write e path)
      else case TrCode e path of
        Inl er \<Rightarrow> (Err er, m)
      | Inr c \<Rightarrow> put_prefix mg c m)"

definition MarshalCode :: "env \<Rightarrow> magic \<Rightarrow> i32 \<Rightarrow> message \<Rightarrow> (gobuf, message) run" where
  "MarshalCode e mg c m =
     (if Type mg = MagicTypePath
      then (case TrPath e c of
              Inl er \<Rightarrow> (Err er, m)
            | Inr path \<Rightarrow>
                and_then (put_prefix mg (word_of_nat (length path)) m) (buffer_write e path))
      else put_prefix mg c m)"

fun marshal_arg :: "env \<Rightarrow> magic \<Rightarrow> path_arg \<Rightarrow> message \<Rightarrow> (gobuf, message) run" where
  "marshal_arg e mg (PathString p) m = MarshalPath e mg p m"
| "marshal_arg e mg (PathInt32 v) m = MarshalCode e mg v m"
| "marshal_arg e mg (PathInt64 v) m = MarshalCode e mg (ucast v) m"
| "marshal_arg e mg (PathInt v) m = MarshalCode e mg (ucast v) m"
| "marshal_arg e mg (PathUint32 v) m = MarshalCode e mg v m"
| "marshal_arg e mg (PathUint64 v) m = MarshalCode e mg (ucast v) m"
| "marshal_arg e mg (PathUint v) m = MarshalCode e mg (ucast v) m"
| "marshal_arg e mg PathOther m =
     (Err (ErrNew ''message.Marshal: unsupported path type''), m)"

fun marshal_body :: "env \<Rightarrow> any \<Rightarrow> gobuf \<Rightarrow> message \<Rightarrow> (gobuf, message) run" where
  "marshal_body e (VBytes v) b m = (if v \<noteq> [] then buffer_write e v b m else (Ok b, m))"
| "marshal_body e v b m =
     (case head_Binder e m of
        None \<Rightarrow> (Err ErrNoBinder, m)
      | Some bi \<Rightarrow>
          (case b_encode bi v of (chunks, er) \<Rightarrow>
            and_then (buffer_writes e chunks b m) (\<lambda>b m.
              case er of None \<Rightarrow> (Ok b, m) | Some x \<Rightarrow> (Err x, m))))"

text \<open>\<open>Marshal\<close> makes a slice for the prefix when its own is shorter than four bytes.\<close>

definition prefix_room :: "env \<Rightarrow> message \<Rightarrow> (unit, message) run" where
  "prefix_room e m =
     (if slen (mbytes m) < 4
      then (case make_slice 4 (Capacity (opts e)) of
              Ok s \<Rightarrow> (Ok (), m\<lparr>mbytes := s\<rparr>) | _ \<Rightarrow> (Panic, m))
      else (Ok (), m))"

definition Marshal ::
  "env \<Rightarrow> byte \<Rightarrow> flag \<Rightarrow> i32 \<Rightarrow> path_arg \<Rightarrow> any \<Rightarrow> message \<Rightarrow> (unit, message) run" where
  "Marshal e magic flag index path body m =
     and_then (format e magic flag index m) (\<lambda>_ m.
       case Magics e (h_magic m) of
         None \<Rightarrow> (Panic, m)
       | Some mc \<Rightarrow>
           and_then (prefix_room e m) (\<lambda>_ m.
           and_then (marshal_arg e mc path m) (\<lambda>b m.
           and_then (marshal_body e body b m) (\<lambda>b m.
             (Ok (), m\<lparr>mbytes := buf b, h_size := word_of_nat (slen (buf b))\<rparr>)))))"

text \<open>The value that unmarshalling would store through the pointer it is given.\<close>

definition Unmarshal :: "env \<Rightarrow> message \<Rightarrow> (any, message) run" where
  "Unmarshal e m =
     (case head_Binder e m of
        None \<Rightarrow> (Err ErrNoBinder, m)
      | Some bi \<Rightarrow> and_then (Body e m) (\<lambda>b m. (lift_sum (b_unmarshal bi b), m)))"

section \<open>Confirmation path and recycling\<close>

definition Confirm :: "env \<Rightarrow> message \<Rightarrow> (bytes, message) run" where
  "Confirm e m =
     (if S2CConfirm (opts e) \<noteq> [] then (Ok (S2CConfirm (opts e)), m)
      else case Path e m of
        (Ok (p, _), m) \<Rightarrow> (Ok p, m)
      | (Err _, m) \<Rightarrow> (Ok [], m)
      | (x, m) \<Rightarrow> (map_outcome fst x, m))"

definition message_Release :: "env \<Rightarrow> message \<Rightarrow> (unit, message) run" where
  "message_Release e m =
     (let m' = (head_Release m)\<lparr>code := 0\<rparr> in
      if int (scap (mbytes m')) > Capacity (opts e)
      then (case make_slice 0 (Capacity (opts e)) of
              Ok s \<Rightarrow> (Ok (), m'\<lparr>mbytes := s\<rparr>) | _ \<Rightarrow> (Panic, m'))
      else (Ok (), m'\<lparr>mbytes := (mbytes m')\<lparr>slen := 0\<rparr>\<rparr>))"

end
