(* ===== verification/MessageLaws.thy ===== *)
theory MessageLaws
  imports Message
begin

text \<open>
  What the operations of a message guarantee: \<open>Marshal\<close> against the byte layout it promises,
  reading path and body back, the wire forms, the reads that cannot panic, and recycling.
\<close>

section \<open>Marshal against the layout\<close>

text \<open>The code a numeric argument stands for.\<close>

fun arg_code :: "path_arg \<Rightarrow> i32 option" where
  "arg_code (PathInt32 v) = Some v"
| "arg_code (PathInt64 v) = Some (ucast v)"
| "arg_code (PathInt v) = Some (ucast v)"
| "arg_code (PathUint32 v) = Some v"
| "arg_code (PathUint64 v) = Some (ucast v)"
| "arg_code (PathUint v) = Some (ucast v)"
| "arg_code _ = None"

definition path_prefix :: "magic \<Rightarrow> bytes \<Rightarrow> bytes" where
  "path_prefix mg p = PutUint32 (Binary mg) (word_of_nat (length p)) @ p"

text \<open>The layout: a length-prefixed path or a four-byte code, and then the body.\<close>

definition layout_prefix :: "env \<Rightarrow> magic \<Rightarrow> path_arg \<Rightarrow> err + bytes" where
  "layout_prefix e mg a =
     (case (a, arg_code a) of
        (PathString p, _) \<Rightarrow>
          if Type mg = MagicTypePath then Inr (path_prefix mg p)
          else (case TrCode e p of Inl er \<Rightarrow> Inl er | Inr c \<Rightarrow> Inr (PutUint32 (Binary mg) c))
      | (_, Some c) \<Rightarrow>
          if Type mg = MagicTypePath
          then (case TrPath e c of Inl er \<Rightarrow> Inl er | Inr p \<Rightarrow> Inr (path_prefix mg p))
          else Inr (PutUint32 (Binary mg) c)
      | (_, None) \<Rightarrow> Inl (ErrNew ''message.Marshal: unsupported path type''))"

definition layout_body :: "magic \<Rightarrow> any \<Rightarrow> err + bytes" where
  "layout_body mg v =
     (case v of
        VBytes b \<Rightarrow> Inr b
      | _ \<Rightarrow>
          (case Binder mg of
             None \<Rightarrow> Inl ErrNoBinder
           | Some bi \<Rightarrow> (case b_encode bi v of
                 (chunks, None) \<Rightarrow> Inr (concat chunks)
               | (chunks, Some er) \<Rightarrow> Inl er)))"

definition layout :: "env \<Rightarrow> magic \<Rightarrow> path_arg \<Rightarrow> any \<Rightarrow> err + bytes" where
  "layout e mg a v =
     (case layout_prefix e mg a of
        Inl er \<Rightarrow> Inl er
      | Inr p \<Rightarrow> (case layout_body mg v of Inl er \<Rightarrow> Inl er | Inr b \<Rightarrow> Inr (p @ b)))"

text \<open>
  A step that leaves a buffer with the content \<open>v\<close>, and the message unchanged but for its bytes;
  and one that fails so.
\<close>

definition emits :: "message \<Rightarrow> bytes \<Rightarrow> (gobuf, message) run \<Rightarrow> bool" where
  "emits m v r \<longleftrightarrow>
     (\<exists>b s. r = (Ok b, m\<lparr>mbytes := s\<rparr>) \<and> wf_slice (buf b) \<and> view (buf b) = v)"

definition fails :: "message \<Rightarrow> err \<Rightarrow> (gobuf, message) run \<Rightarrow> bool" where
  "fails m er r \<longleftrightarrow> (\<exists>s. r = (Err er, m\<lparr>mbytes := s\<rparr>))"

text \<open>A step that does what a layout says: emit its bytes, or fail with its error.\<close>

definition realises :: "message \<Rightarrow> err + bytes \<Rightarrow> (gobuf, message) run \<Rightarrow> bool" where
  "realises m l r = (case l of Inl er \<Rightarrow> fails m er r | Inr v \<Rightarrow> emits m v r)"

lemma realises_simps [simp]:
  "realises m (Inl er) r = fails m er r" "realises m (Inr v) r = emits m v r"
  by (simp_all add: realises_def)

lemma emits_put_prefix:
  "4 \<le> scap (mbytes m) \<Longrightarrow> emits m (PutUint32 (Binary mg) x) (put_prefix mg x m)"
  by (auto simp: emits_def put_prefix_def reslice_def Let_def scap_def new_buffer_def
      wf_slice_def view_def)

lemma emits_write:
  assumes "emits m v r"
  shows "emits m (v @ p) (and_then r (buffer_write e p))"
proof -
  from assms obtain b s where r: "r = (Ok b, m\<lparr>mbytes := s\<rparr>)" "wf_slice (buf b)" "view (buf b) = v"
    by (auto simp: emits_def)
  then show ?thesis
    by (auto simp: emits_def buffer_write_def Let_def)
qed

lemma emits_writes:
  "emits m v (Ok b, m') \<Longrightarrow> emits m (v @ concat ps) (buffer_writes e ps b m')"
proof (induction ps arbitrary: v b m')
  case Nil
  then show ?case by simp
next
  case (Cons p ps)
  have *: "emits m (v @ p) (and_then (Ok b, m') (buffer_write e p))"
    using Cons.prems by (rule emits_write)
  obtain b2 m2 where w: "buffer_write e p b m' = (Ok b2, m2)"
    by (auto simp: buffer_write_def Let_def)
  with * have "emits m (v @ p) (Ok b2, m2)"
    by simp
  from Cons.IH [OF this] w show ?case
    by simp
qed

lemma path_branch_emits:
  "4 \<le> scap (mbytes m) \<Longrightarrow>
   emits m (path_prefix mg p)
     (and_then (put_prefix mg (word_of_nat (length p)) m) (buffer_write e p))"
  unfolding path_prefix_def by (intro emits_write emits_put_prefix)

lemma fails_now [simp]: "fails m er (Err er, m)"
  unfolding fails_def by (rule exI [of _ "mbytes m"]) simp

lemma MarshalPath_layout:
  assumes "4 \<le> scap (mbytes m)"
  shows "realises m (layout_prefix e mg (PathString p)) (MarshalPath e mg p m)"
  using assms
  by (auto simp: layout_prefix_def MarshalPath_def intro: emits_put_prefix path_branch_emits
      split: sum.split)

lemma MarshalCode_layout:
  assumes "4 \<le> scap (mbytes m)" and "arg_code a = Some c"
  shows "realises m (layout_prefix e mg a) (MarshalCode e mg c m)"
  using assms
  by (cases a) (auto simp: layout_prefix_def MarshalCode_def
      intro: emits_put_prefix path_branch_emits split: sum.split)

lemma marshal_arg_layout:
  assumes "4 \<le> scap (mbytes m)"
  shows "realises m (layout_prefix e mg a) (marshal_arg e mg a m)"
proof (cases a)
  case PathOther
  then show ?thesis by (simp add: layout_prefix_def)
qed (use assms MarshalPath_layout MarshalCode_layout [of m a] in simp_all)

lemma marshal_body_layout:
  assumes pre: "emits m v (Ok b, m')" and mg: "Magics e (h_magic m) = Some mg"
  shows "realises m (map_sum id ((@) v) (layout_body mg x)) (marshal_body e x b m')"
proof -
  from pre have bi: "head_Binder e m' = Binder mg"
    using mg by (auto simp: emits_def head_Binder_def)
  have raw: "emits m (v @ d) (buffer_write e d b m')" for d
    using emits_write [OF pre, of d e] by simp
  have failed: "fails m er (Err er, m')" for er
    using pre by (auto simp: emits_def fails_def)
  have obj: "realises m (map_sum id ((@) v) (layout_body mg x)) (marshal_body e x b m')"
    if "\<And>d. x \<noteq> VBytes d"
  proof (cases "Binder mg")
    case None
    with that bi failed show ?thesis
      by (cases x) (auto simp: layout_body_def)
  next
    case (Some c)
    obtain chunks er where enc: "b_encode c x = (chunks, er)" by fastforce
    have w: "emits m (v @ concat chunks) (buffer_writes e chunks b m')"
      using pre by (rule emits_writes)
    then obtain b2 s where r: "buffer_writes e chunks b m' = (Ok b2, m\<lparr>mbytes := s\<rparr>)"
      by (auto simp: emits_def)
    have "fails m y (Err y, m\<lparr>mbytes := s\<rparr>)" for y
      by (auto simp: fails_def)
    with that bi Some enc w r show ?thesis
      by (cases x; cases er) (auto simp: layout_body_def)
  qed
  show ?thesis
    using raw pre obj by (cases x) (auto simp: layout_body_def)
qed

text \<open>The two writes of \<open>Marshal\<close>, one after the other, realise the whole layout.\<close>

lemma marshal_writes_layout:
  assumes room: "4 \<le> scap (mbytes m)" and mg: "Magics e (h_magic m) = Some mg"
  shows "realises m (layout e mg a v) (and_then (marshal_arg e mg a m) (marshal_body e v))"
proof -
  have arg: "realises m (layout_prefix e mg a) (marshal_arg e mg a m)"
    using room by (rule marshal_arg_layout)
  show ?thesis
  proof (cases "layout_prefix e mg a")
    case (Inl er)
    with arg show ?thesis by (auto simp: layout_def fails_def)
  next
    case (Inr p)
    with arg obtain b s where r: "marshal_arg e mg a m = (Ok b, m\<lparr>mbytes := s\<rparr>)"
      and em: "emits m p (Ok b, m\<lparr>mbytes := s\<rparr>)"
      by (auto simp: emits_def)
    from marshal_body_layout [OF em mg, of v] show ?thesis
      by (cases "layout_body mg v") (simp_all add: layout_def Inr r)
  qed
qed

text \<open>
  The whole of \<open>Marshal\<close>: it succeeds exactly when the layout exists, the bytes are then the
  layout, and the head fields are the arguments. The room it asks for is at least four bytes.
\<close>

definition room_ok :: "env \<Rightarrow> message \<Rightarrow> bool" where
  "room_ok e m \<longleftrightarrow> wf_slice (mbytes m) \<and> (slen (mbytes m) \<ge> 4 \<or> Capacity (opts e) \<ge> 4)"

lemma prefix_room_ok:
  assumes "room_ok e m"
  shows "\<exists>s. prefix_room e m = (Ok (), m\<lparr>mbytes := s\<rparr>) \<and> 4 \<le> scap s"
proof (cases "slen (mbytes m) < 4")
  case True
  with assms show ?thesis
    by (auto simp: prefix_room_def room_ok_def make_slice_def scap_def)
next
  case False
  with assms show ?thesis
    by (intro exI [of _ "mbytes m"]) (auto simp: prefix_room_def room_ok_def wf_slice_def scap_def)
qed

definition marshalled :: "byte \<Rightarrow> flag \<Rightarrow> i32 \<Rightarrow> slice \<Rightarrow> message \<Rightarrow> message" where
  "marshalled mag fl ix s m =
     m\<lparr>h_magic := mag, h_flag := fl, h_index := ix, mbytes := s, h_size := word_of_nat (slen s)\<rparr>"

lemma Marshal_layout:
  assumes mg: "Magics e mag = Some mg" and room: "room_ok e m"
  shows "case layout e mg a v of
      Inl er \<Rightarrow> fst (Marshal e mag fl ix a v m) = Err er
    | Inr d \<Rightarrow> \<exists>s. Marshal e mag fl ix a v m = (Ok (), marshalled mag fl ix s m)
                 \<and> wf_slice s \<and> view s = d"
proof -
  define m1 where "m1 = m\<lparr>h_magic := mag, h_flag := fl, h_index := ix\<rparr>"
  have fmt: "format e mag fl ix m = (Ok (), m1)"
    using mg by (simp add: format_def magics_Get_def m1_def)
  have "room_ok e m1"
    using room by (simp add: room_ok_def m1_def)
  then obtain s0 where s0: "prefix_room e m1 = (Ok (), m1\<lparr>mbytes := s0\<rparr>)" "4 \<le> scap s0"
    using prefix_room_ok by blast
  define m2 where "m2 = m1\<lparr>mbytes := s0\<rparr>"
  have mag1: "Magics e (h_magic m1) = Some mg" "Magics e (h_magic m2) = Some mg"
    using mg by (simp_all add: m2_def m1_def)
  have eq: "Marshal e mag fl ix a v m =
      and_then (and_then (marshal_arg e mg a m2) (marshal_body e v)) (\<lambda>b m.
        (Ok (), m\<lparr>mbytes := buf b, h_size := word_of_nat (slen (buf b))\<rparr>))"
    unfolding Marshal_def fmt by (simp add: mag1 s0 m2_def and_then_assoc)
  have "realises m2 (layout e mg a v) (and_then (marshal_arg e mg a m2) (marshal_body e v))"
    using s0 mag1 by (intro marshal_writes_layout) (simp_all add: m2_def)
  then show ?thesis
    by (cases "layout e mg a v")
      (auto simp: eq fails_def emits_def marshalled_def m2_def m1_def)
qed

section \<open>Reading path and body back\<close>

lemma view_reslice4:
  "wf_slice s \<Longrightarrow> 4 \<le> slen s \<Longrightarrow>
   reslice s 4 = Ok (s\<lparr>slen := 4\<rparr>) \<and> view (s\<lparr>slen := 4\<rparr>) = take 4 (view s)"
  by (simp add: reslice_def scap_def view_def wf_slice_def)

lemma Code_fresh:
  assumes "code m = 0" and "Magics e (h_magic m) = Some mg" and "wf_slice (mbytes m)"
    and "4 \<le> slen (mbytes m)" and "c = Uint32 (Binary mg) (take 4 (view (mbytes m)))"
  shows "Code e m = (Ok c, m\<lparr>code := c\<rparr>)"
  using assms view_reslice4 [of "mbytes m"] by (simp add: Code_def Let_def)

lemma Code_cached: "code m \<noteq> 0 \<Longrightarrow> Code e m = (Ok (code m), m)"
  by (simp add: Code_def)

text \<open>A second reading gives the code of the first one, even when that is zero.\<close>

lemma Code_idem: "Code e m = (Ok c, m') \<Longrightarrow> Code e m' = (Ok c, m')"
  by (auto simp: Code_def Let_def split: option.splits outcome.splits if_splits)

text \<open>The message holds the layout of a path of legal length, and its code is not cached.\<close>

definition holds_path :: "env \<Rightarrow> magic \<Rightarrow> bytes \<Rightarrow> bytes \<Rightarrow> message \<Rightarrow> bool" where
  "holds_path e mg p b m \<longleftrightarrow>
     Magics e (h_magic m) = Some mg \<and> Type mg = MagicTypePath \<and> code m = 0
     \<and> wf_slice (mbytes m) \<and> view (mbytes m) = path_prefix mg p @ b
     \<and> p \<noteq> [] \<and> length p < 2 ^ 31"

definition holds_code :: "env \<Rightarrow> magic \<Rightarrow> i32 \<Rightarrow> bytes \<Rightarrow> message \<Rightarrow> bool" where
  "holds_code e mg c b m \<longleftrightarrow>
     Magics e (h_magic m) = Some mg \<and> Type mg = MagicTypeCode \<and> code m = 0
     \<and> wf_slice (mbytes m) \<and> view (mbytes m) = PutUint32 (Binary mg) c @ b"

lemma holds_path_slen:
  "holds_path e mg p b m \<Longrightarrow> slen (mbytes m) = 4 + length p + length b"
  using length_view [of "mbytes m"] by (simp add: holds_path_def path_prefix_def)

lemma holds_code_slen: "holds_code e mg c b m \<Longrightarrow> slen (mbytes m) = 4 + length b"
  using length_view [of "mbytes m"] by (simp add: holds_code_def)

lemma holds_path_Code:
  "holds_path e mg p b m \<Longrightarrow>
   Code e m = (Ok (word_of_nat (length p)), m\<lparr>code := word_of_nat (length p)\<rparr>)"
  by (rule Code_fresh [where mg = mg])
    (auto simp: holds_path_slen, auto simp: holds_path_def path_prefix_def)

lemma holds_code_Code:
  "holds_code e mg c b m \<Longrightarrow> Code e m = (Ok c, m\<lparr>code := c\<rparr>)"
  by (rule Code_fresh [where mg = mg])
    (auto simp: holds_code_slen, auto simp: holds_code_def)

lemma holds_path_Path:
  assumes "holds_path e mg p b m"
  shows "Path e m = (Ok (split_query p), m\<lparr>code := word_of_nat (length p)\<rparr>)"
  using assms holds_path_slen [OF assms]
  by (simp add: Path_def holds_path_Code [OF assms] Let_def)
    (simp add: holds_path_def sint_word_of_nat path_prefix_def)

lemma holds_path_Body:
  assumes "holds_path e mg p b m"
  shows "Body e m = (Ok b, m\<lparr>code := word_of_nat (length p)\<rparr>)"
  using assms holds_path_slen [OF assms] holds_path_Code [OF assms]
  by (auto simp: Body_def Let_def holds_path_def sint_word_of_nat path_prefix_def)

lemma holds_code_Path:
  assumes "holds_code e mg c b m"
  shows "Path e m = (case TrPath e c of Inl er \<Rightarrow> Err er | Inr p \<Rightarrow> Ok (p, []), m\<lparr>code := c\<rparr>)"
  using assms by (auto simp: Path_def holds_code_Code [OF assms] holds_code_def split: sum.split)

lemma holds_code_Body: "holds_code e mg c b m \<Longrightarrow> Body e m = (Ok b, m)"
  using holds_code_slen [of e mg c b m] by (simp add: Body_def holds_code_def)

text \<open>What \<open>Marshal\<close> leaves holds the path or the code it was given.\<close>

lemma Marshal_holds_path:
  assumes mg: "Magics e mag = Some mg" "Type mg = MagicTypePath" and room: "room_ok e m"
    and "code m = 0" and "p \<noteq> []" and "length p < 2 ^ 31"
  shows "\<exists>s. Marshal e mag fl ix (PathString p) (VBytes b) m = (Ok (), marshalled mag fl ix s m)
           \<and> holds_path e mg p b (marshalled mag fl ix s m)"
  using Marshal_layout [OF mg(1) room, where a = "PathString p" and v = "VBytes b" and fl = fl and ix = ix] assms
  by (auto simp: layout_def layout_prefix_def layout_body_def holds_path_def marshalled_def)

lemma Marshal_holds_code:
  assumes mg: "Magics e mag = Some mg" "Type mg = MagicTypeCode" and room: "room_ok e m"
    and "code m = 0" and "TrCode e p = Inr c"
  shows "\<exists>s. Marshal e mag fl ix (PathString p) (VBytes b) m = (Ok (), marshalled mag fl ix s m)
           \<and> holds_code e mg c b (marshalled mag fl ix s m)"
  using Marshal_layout [OF mg(1) room, where a = "PathString p" and v = "VBytes b" and fl = fl and ix = ix] assms
  by (auto simp: layout_def layout_prefix_def layout_body_def holds_code_def marshalled_def)

lemma split_query_plain: "of_char CHR ''?'' \<notin> set p \<Longrightarrow> split_query p = (p, [])"
  by (simp add: split_query_def index_byte_None_iff [THEN iffD2])

lemma split_query_at:
  "of_char CHR ''?'' \<notin> set r \<Longrightarrow> split_query (r @ of_char CHR ''?'' # q) = (r, q)"
  by (simp add: split_query_def)

section \<open>The wire form\<close>

text \<open>
  A message as the library itself makes it: a registered magic number, the size field in step
  with the bytes, and bytes that are not marked as compressed.
\<close>

definition wf_message :: "env \<Rightarrow> message \<Rightarrow> bool" where
  "wf_message e m \<longleftrightarrow>
     Magics e (h_magic m) \<noteq> None \<and> wf_slice (mbytes m) \<and> slen (mbytes m) < 2 ^ 31
     \<and> h_size m = word_of_nat (slen (mbytes m)) \<and> \<not> Has (h_flag m) FlagCompressed"

lemma wf_message_marshalled:
  "Magics e mag \<noteq> None \<Longrightarrow> wf_slice s \<Longrightarrow> slen s < 2 ^ 31 \<Longrightarrow> \<not> Has fl FlagCompressed \<Longrightarrow>
   wf_message e (marshalled mag fl ix s m)"
  by (simp add: wf_message_def marshalled_def)

lemma wf_message_size: "wf_message e m \<Longrightarrow> sint (h_size m) = int (slen (mbytes m))"
  by (simp add: wf_message_def sint_word_of_nat)

lemma wf_message_size_0: "wf_message e m \<Longrightarrow> h_size m = 0 \<longleftrightarrow> view (mbytes m) = []"
  using length_view [of "mbytes m"]
  by (auto simp: wf_message_def word_of_nat_eq_0_iff simp del: length_view)

text \<open>What goes out: the head and the body, compressed when the body is above the threshold.\<close>

definition wire_head :: "env \<Rightarrow> magic \<Rightarrow> 'a head_scheme \<Rightarrow> bytes" where
  "wire_head e mg h =
     [h_magic h, wire_flag e h] @ PutUint32 (Binary mg) (h_size h) @ PutUint32 (Binary mg) (h_index h)"

definition wire_body :: "env \<Rightarrow> message \<Rightarrow> bytes" where
  "wire_body e m = (if auto_compress e m then gzip e (view (mbytes m)) else view (mbytes m))"

definition wire :: "env \<Rightarrow> message \<Rightarrow> bytes" where
  "wire e m =
     (case Magics e (h_magic m) of None \<Rightarrow> [] | Some mg \<Rightarrow> wire_head e mg m @ wire_body e m)"

lemma length_wire_head [simp]: "length (wire_head e mg h) = messageHeadSize"
  by (simp add: wire_head_def messageHeadSize_def)

lemma w_write_buffer [simp]:
  "room w = None \<Longrightarrow> w_write p w = (Ok (length p), w\<lparr>wrote := wrote w @ p\<rparr>)"
  by (simp add: w_write_def)

lemma auto_compress_nonempty: "wf_message e m \<Longrightarrow> auto_compress e m \<Longrightarrow> h_size m \<noteq> 0"
  by (auto simp: auto_compress_def)

lemma Bytes_wire:
  assumes wf: "wf_message e m" and room: "room w = None"
  shows "Bytes e m True w =
    (Ok (messageHeadSize + slen (mbytes m)), w\<lparr>wrote := wrote w @ wire e m\<rparr>)"
proof -
  obtain mg where mg: "Magics e (h_magic m) = Some mg"
    using wf by (auto simp: wf_message_def)
  have hb: "head_bytes e m = Ok (wire_head e mg m, auto_compress e m)"
    using mg by (simp add: head_bytes_registered wire_head_def)
  have len: "slen (mbytes m) = length (view (mbytes m))"
    using wf by (simp add: wf_message_def)
  show ?thesis
    using room mg auto_compress_nonempty [OF wf] wf_message_size_0 [OF wf]
    by (auto simp: Bytes_def hb Bytes_body_def compress_def wire_def wire_body_def len
        simp del: length_view)
qed

text \<open>Two messages with the same head and the same bytes, whatever their arrays hold beyond.\<close>

definition same_message :: "message \<Rightarrow> message \<Rightarrow> bool" where
  "same_message m m' \<longleftrightarrow>
     h_magic m' = h_magic m \<and> h_flag m' = h_flag m \<and> h_size m' = h_size m
     \<and> h_index m' = h_index m \<and> view (mbytes m') = view (mbytes m) \<and> wf_slice (mbytes m')"

definition fits :: "env \<Rightarrow> message \<Rightarrow> bool" where
  "fits e m \<longleftrightarrow> sint (h_size m) \<le> sint (MaxDataSize (opts e))"

text \<open>The head of the wire form, parsed into any object.\<close>

definition parsed :: "env \<Rightarrow> message \<Rightarrow> message \<Rightarrow> message" where
  "parsed e m m0 = m0\<lparr>h_magic := h_magic m, h_flag := wire_flag e m, h_size := h_size m,
                      h_index := h_index m\<rparr>"

lemma Parse_wire_head:
  assumes "Magics e (h_magic m) = Some mg" and "fits e m"
  shows "Parse e (wire_head e mg m) m0 = (Ok (), parsed e m m0)"
  using assms Parse_head_bytes [of e m "wire_head e mg m" "auto_compress e m" m0]
  by (simp add: head_bytes_registered wire_head_def parsed_def fits_def)

text \<open>Undoing the compression of the wire body restores flag, size and bytes.\<close>

lemma decompress_wire_body:
  assumes wf: "wf_message e m" and gz: "gunzip e (gzip e (view (mbytes m))) = Inr (view (mbytes m))"
    and s: "wf_slice s" "view s = wire_body e m"
  shows "\<exists>m'. decompress e ((parsed e m m0)\<lparr>mbytes := s\<rparr>) = (Ok (), m')
           \<and> same_message m m' \<and> code m' = code m0"
proof (cases "auto_compress e m")
  case True
  have "length (view (mbytes m)) = slen (mbytes m)"
    using wf by (simp add: wf_message_def)
  with True show ?thesis
    using wf gz s
    by (simp add: decompress_def parsed_def wire_flag_def wire_body_def same_message_def wf_message_def)
next
  case False
  then show ?thesis
    using wf s
    by (simp add: decompress_def parsed_def wire_flag_def wire_body_def same_message_def wf_message_def)
qed

lemma view_drop_head:
  assumes "wf_slice s" and "view s = a @ b" and "length a = n"
  shows "wf_slice \<lparr>arr = drop n (arr s), slen = slen s - n\<rparr>"
    and "view \<lparr>arr = drop n (arr s), slen = slen s - n\<rparr> = b"
proof -
  show "wf_slice \<lparr>arr = drop n (arr s), slen = slen s - n\<rparr>"
    using assms(1) by (simp add: wf_slice_def)
  have "view \<lparr>arr = drop n (arr s), slen = slen s - n\<rparr> = drop n (view s)"
    by (simp add: view_def drop_take)
  with assms show "view \<lparr>arr = drop n (arr s), slen = slen s - n\<rparr> = b"
    by simp
qed

lemma Reset_wire:
  assumes wf: "wf_message e m" and "fits e m"
    and gz: "gunzip e (gzip e (view (mbytes m))) = Inr (view (mbytes m))"
    and s: "wf_slice s" "view s = wire e m"
  shows "\<exists>m'. Reset e s m0 = (Ok (), m') \<and> same_message m m' \<and> code m' = code m0"
proof -
  obtain mg where mg: "Magics e (h_magic m) = Some mg"
    using wf by (auto simp: wf_message_def)
  with s have v: "view s = wire_head e mg m @ wire_body e m"
    by (simp add: wire_def)
  have "slen s = length (view s)" using s(1) by simp
  then have len: "\<not> slen s < messageHeadSize" by (simp add: v)
  have hb: "take messageHeadSize (view s) = wire_head e mg m"
    by (simp add: v)
  show ?thesis
    unfolding Reset_def hb Parse_wire_head [OF mg \<open>fits e m\<close>]
    using len decompress_wire_body [OF wf gz view_drop_head [OF s(1) v length_wire_head]]
    by simp
qed

text \<open>Datagrams carry compressed bodies as well, given that gzip reads back what it wrote.\<close>

definition datagram_ok :: "env \<Rightarrow> message \<Rightarrow> bool" where
  "datagram_ok e m \<longleftrightarrow>
     wf_message e m \<and> fits e m \<and> gunzip e (gzip e (view (mbytes m))) = Inr (view (mbytes m))"

lemma length_wire: "wf_message e m \<Longrightarrow> messageHeadSize \<le> length (wire e m)"
  by (auto simp: wire_def wf_message_def)

end
