(* ===== verification/Transport.thy ===== *)
theory Transport
  imports MessageLaws
begin

text \<open>
  The contract of \<open>listener.Conn\<close> (\<open>listener/define.go\<close>) as the read loop of a socket uses it:
  what one side writes, the other reads back, one message per call and in order. The
  connections of the tcp, udp and wss packages are interpretations of it.
\<close>

section \<open>Messages as packets\<close>

text \<open>What a message says, without its array and its cached code.\<close>

record packet =
  p_magic :: byte
  p_flag :: flag
  p_index :: i32
  p_data :: bytes

definition packet_of :: "message \<Rightarrow> packet" where
  "packet_of m = \<lparr>p_magic = h_magic m, p_flag = h_flag m, p_index = h_index m,
                  p_data = view (mbytes m)\<rparr>"

lemma packet_of_same: "same_message m m' \<Longrightarrow> packet_of m' = packet_of m"
  by (simp add: same_message_def packet_of_def)

section \<open>The interface\<close>

text \<open>Reading \<open>n\<close> times from a connection.\<close>

fun reads :: "('c \<Rightarrow> ('v \<times> 'c) option) \<Rightarrow> nat \<Rightarrow> 'c \<Rightarrow> ('v list \<times> 'c) option" where
  "reads get 0 c = Some ([], c)"
| "reads get (Suc n) c =
     (case get c of
        None \<Rightarrow> None
      | Some (v, c) \<Rightarrow> (case reads get n c of None \<Rightarrow> None | Some (vs, c) \<Rightarrow> Some (v # vs, c)))"

text \<open>
  \<open>put\<close> is what a message puts on the connection (bytes of a stream, or whole datagrams),
  \<open>pending\<close> what has arrived and is not read yet.
\<close>

locale transport =
  fixes put :: "'m \<Rightarrow> 'b list" and val :: "'m \<Rightarrow> 'v" and ok :: "'m \<Rightarrow> bool"
    and get :: "'c \<Rightarrow> ('v \<times> 'c) option" and pending :: "'c \<Rightarrow> 'b list" and inv :: "'c \<Rightarrow> bool"
  assumes get_put: "inv c \<Longrightarrow> ok m \<Longrightarrow> pending c = put m @ rest \<Longrightarrow>
    \<exists>c'. get c = Some (val m, c') \<and> pending c' = rest \<and> inv c'"
begin

lemma reads_puts:
  "inv c \<Longrightarrow> \<forall>m \<in> set ms. ok m \<Longrightarrow> pending c = concat (map put ms) @ rest \<Longrightarrow>
   \<exists>c'. reads get (length ms) c = Some (map val ms, c') \<and> pending c' = rest \<and> inv c'"
proof (induction ms arbitrary: c)
  case Nil
  then show ?case by simp
next
  case (Cons m ms)
  then have "ok m" and "pending c = put m @ (concat (map put ms) @ rest)" by simp_all
  from get_put [OF \<open>inv c\<close> this]
  obtain c1 where g: "get c = Some (val m, c1)" and p1: "pending c1 = concat (map put ms) @ rest"
    and i1: "inv c1" by blast
  obtain c2 where "reads get (length ms) c1 = Some (map val ms, c2)" "pending c2 = rest" "inv c2"
    using Cons.IH [OF i1 _ p1] Cons.prems(2) by auto
  then show ?case using g by simp
qed

end

end
