(* ===== verification/Tcp.thy ===== *)
theory Tcp
  imports Transport
begin

text \<open>
  \<open>tcp/conn.go\<close>: messages framed on a byte stream. The connection keeps its head buffer between
  calls; the write buffer is emptied after every call and is local to it.
\<close>

section \<open>The connection\<close>

record tcp_conn =
  tc_in :: stream
  tc_out :: writer
  tc_head :: "bytes option"

definition tcp_NewConn :: "stream \<Rightarrow> writer \<Rightarrow> tcp_conn" where
  "tcp_NewConn r w = \<lparr>tc_in = r, tc_out = w, tc_head = None\<rparr>"

definition tcp_readMsgTrue ::
  "env \<Rightarrow> tcp_conn \<Rightarrow> message \<Rightarrow> (unit, message \<times> tcp_conn) run" where
  "tcp_readMsgTrue e c m =
     (if h_size m = 0 then (Ok (), (m, c))
      else case Write e (tc_in c) m of
        (x, (m, r)) \<Rightarrow> (as_text ''READ BODY ERR'' (done_with x), (m, c\<lparr>tc_in := r\<rparr>)))"

definition tcp_ReadMessage ::
  "env \<Rightarrow> tcp_conn \<Rightarrow> message \<Rightarrow> (unit, message \<times> tcp_conn) run" where
  "tcp_ReadMessage e c m =
     (let h = (case tc_head c of None \<Rightarrow> replicate (HeadLen (opts e)) 0 | Some h \<Rightarrow> h) in
      case read_full (length h) (tc_in c) of (got, er, r) \<Rightarrow>
        let h' = overwrite 0 got h; c' = c\<lparr>tc_head := Some h', tc_in := r\<rparr> in
        (case er of
           Some x \<Rightarrow> (Err x, (m, c'))
         | None \<Rightarrow>
             (case Parse e h' m of
                (Ok _, m) \<Rightarrow> tcp_readMsgTrue e c' m
              | (x, m) \<Rightarrow> (as_text ''READ HEAD ERR'' x, (m, c')))))"

definition tcp_WriteMessage :: "env \<Rightarrow> tcp_conn \<Rightarrow> message \<Rightarrow> (unit, tcp_conn) run" where
  "tcp_WriteMessage e c m =
     (case Bytes e m True buffer_writer of
        (Ok _, b) \<Rightarrow>
          (case w_write (wrote b) (tc_out c) of (x, w) \<Rightarrow> (done_with x, c\<lparr>tc_out := w\<rparr>))
      | (x, _) \<Rightarrow> (done_with x, c))"

section \<open>Reading what was written\<close>

definition tcp_inv :: "env \<Rightarrow> tcp_conn \<Rightarrow> bool" where
  "tcp_inv e c \<longleftrightarrow>
     HeadLen (opts e) = messageHeadSize \<and> (\<forall>h. tc_head c = Some h \<longrightarrow> length h = messageHeadSize)"

definition tcp_ok :: "env \<Rightarrow> message \<Rightarrow> bool" where
  "tcp_ok e m \<longleftrightarrow> wf_message e m \<and> fits e m \<and> \<not> auto_compress e m"

lemma tcp_WriteMessage_wire:
  assumes "wf_message e m" and "room (tc_out c) = None"
  shows "tcp_WriteMessage e c m =
    (Ok (), c\<lparr>tc_out := (tc_out c)\<lparr>wrote := wrote (tc_out c) @ wire e m\<rparr>\<rparr>)"
  using assms by (simp add: tcp_WriteMessage_def Bytes_wire buffer_writer_def)

lemma read_full_exact:
  "s_bytes r = a @ b \<Longrightarrow> length a = n \<Longrightarrow> read_full n r = (a, None, r\<lparr>s_bytes := b\<rparr>)"
  by (simp add: read_full_def Let_def)

lemma read_full_short:
  "length (s_bytes r) < n \<Longrightarrow> \<exists>x. read_full n r = (s_bytes r, Some x, r\<lparr>s_bytes := []\<rparr>)"
  by (auto simp: read_full_def Let_def)

text \<open>A positive size always gets a slice of that length.\<close>

lemma read_slice_ok:
  assumes "0 \<le> n"
  shows "\<exists>s. read_slice e n s0 = Ok s \<and> slen s = nat n \<and> wf_slice s"
proof -
  have "wf_slice s" if "read_slice e n s0 = Ok s" for s
    using that by (auto simp: read_slice_def dest: wf_reslice wf_make_slice split: if_splits)
  then show ?thesis
    using assms by (auto simp: read_slice_def reslice_def make_slice_def)
qed

lemma Write_exact:
  assumes n: "sint (h_size m) = int n" "0 < n" and r: "s_bytes r = a @ b" "length a = n"
  shows "\<exists>s. wf_slice s \<and> view s = a \<and> Write e r m =
    (case decompress e (m\<lparr>mbytes := s\<rparr>) of
       (x, m') \<Rightarrow> (map_outcome (\<lambda>_. n) x, (m', r\<lparr>s_bytes := b\<rparr>)))"
proof -
  obtain s where s: "read_slice e (int n) (mbytes m) = Ok s" "slen s = n" "wf_slice s"
    using read_slice_ok [of "int n"] by auto
  let ?s = "s\<lparr>arr := overwrite 0 a (arr s)\<rparr>"
  have "wf_slice ?s" "view ?s = a"
    using s r by (simp_all add: wf_slice_def view_def)
  then show ?thesis
    using n r s by (intro exI [of _ ?s]) (auto simp: Write_def Let_def read_full_exact)
qed

lemma tcp_ReadMessage_head:
  assumes inv: "tcp_inv e c" and bytes: "s_bytes (tc_in c) = wire_head e mg m @ rest"
    and mg: "Magics e (h_magic m) = Some mg" and fits: "fits e m"
  shows "tcp_ReadMessage e c m0 =
    tcp_readMsgTrue e (c\<lparr>tc_head := Some (wire_head e mg m), tc_in := (tc_in c)\<lparr>s_bytes := rest\<rparr>\<rparr>)
      (parsed e m m0)"
proof -
  define h where "h = (case tc_head c of None \<Rightarrow> replicate (HeadLen (opts e)) 0 | Some h \<Rightarrow> h)"
  have h: "length h = messageHeadSize"
    using inv by (auto simp: h_def tcp_inv_def split: option.split)
  show ?thesis
    unfolding tcp_ReadMessage_def h_def [symmetric]
    by (simp add: h read_full_exact [OF bytes] Parse_wire_head [OF mg fits] Let_def)
qed

text \<open>
  A frame without a body leaves the receiving object's own bytes alone, so the object has to
  be an empty one, as the pool hands out.
\<close>

definition empty_message :: "message \<Rightarrow> bool" where
  "empty_message m \<longleftrightarrow> wf_slice (mbytes m) \<and> slen (mbytes m) = 0"

lemma empty_message_view: "empty_message m \<Longrightarrow> view (mbytes m) = []"
  by (simp add: empty_message_def view_def)

lemma tcp_readMsgTrue_wire:
  assumes ok: "tcp_ok e m" and bytes: "s_bytes (tc_in c) = view (mbytes m) @ rest"
    and m0: "empty_message m0"
  shows "\<exists>m'. tcp_readMsgTrue e c (parsed e m m0) = (Ok (), (m', c\<lparr>tc_in := (tc_in c)\<lparr>s_bytes := rest\<rparr>\<rparr>))
           \<and> same_message m m' \<and> code m' = code m0"
proof (cases "h_size m = 0")
  case True
  then have "view (mbytes m) = []"
    using ok wf_message_size_0 [of e m] by (simp add: tcp_ok_def)
  then show ?thesis
    using ok m0 bytes True
    by (auto simp: tcp_readMsgTrue_def parsed_def same_message_def empty_message_view tcp_ok_def
        wire_flag_def empty_message_def)
next
  case False
  let ?n = "slen (mbytes m)"
  have wf: "wf_message e m" using ok by (simp add: tcp_ok_def)
  have n: "sint (h_size (parsed e m m0)) = int ?n"
    using wf_message_size [OF wf] by (simp add: parsed_def)
  have len: "length (view (mbytes m)) = ?n"
    using wf by (simp add: wf_message_def)
  have pos: "0 < ?n"
    using wf_message_size_0 [OF wf] False len by (cases "view (mbytes m)") auto
  obtain s where s: "wf_slice s" "view s = view (mbytes m)" and
    w: "Write e (tc_in c) (parsed e m m0) = (case decompress e ((parsed e m m0)\<lparr>mbytes := s\<rparr>) of
       (x, m') \<Rightarrow> (map_outcome (\<lambda>_. ?n) x, (m', (tc_in c)\<lparr>s_bytes := rest\<rparr>)))"
    using Write_exact [OF n pos bytes len] by blast
  have d: "decompress e ((parsed e m m0)\<lparr>mbytes := s\<rparr>) = (Ok (), (parsed e m m0)\<lparr>mbytes := s\<rparr>)"
    using ok by (simp add: decompress_def parsed_def wire_flag_def tcp_ok_def wf_message_def)
  show ?thesis
    using False s ok
    by (simp add: tcp_readMsgTrue_def w d, simp add: parsed_def same_message_def wire_flag_def tcp_ok_def)
qed

lemma tcp_ReadMessage_wire:
  assumes inv: "tcp_inv e c" and ok: "tcp_ok e m" and bytes: "s_bytes (tc_in c) = wire e m @ rest"
    and m0: "empty_message m0"
  shows "\<exists>m' c'. tcp_ReadMessage e c m0 = (Ok (), (m', c')) \<and> same_message m m' \<and> code m' = code m0
           \<and> s_bytes (tc_in c') = rest \<and> tcp_inv e c' \<and> tc_out c' = tc_out c"
proof -
  obtain mg where mg: "Magics e (h_magic m) = Some mg"
    using ok by (auto simp: tcp_ok_def wf_message_def)
  have fits: "fits e m" using ok by (simp add: tcp_ok_def)
  have b: "s_bytes (tc_in c) = wire_head e mg m @ view (mbytes m) @ rest"
    using bytes mg ok by (simp add: wire_def wire_body_def tcp_ok_def)
  let ?c = "c\<lparr>tc_head := Some (wire_head e mg m),
             tc_in := (tc_in c)\<lparr>s_bytes := view (mbytes m) @ rest\<rparr>\<rparr>"
  have "s_bytes (tc_in ?c) = view (mbytes m) @ rest" by simp
  from tcp_readMsgTrue_wire [OF ok this m0]
  show ?thesis
    using inv by (force simp: tcp_ReadMessage_head [OF inv b mg fits] tcp_inv_def)
qed

text \<open>The receiving side of the read loop, with an object fresh from the pool.\<close>

definition tcp_recv :: "env \<Rightarrow> tcp_conn \<Rightarrow> (packet \<times> tcp_conn) option" where
  "tcp_recv e c =
     (case tcp_ReadMessage e c new_message of (Ok _, (m, c)) \<Rightarrow> Some (packet_of m, c) | _ \<Rightarrow> None)"

lemma empty_new_message [simp]: "empty_message new_message"
  by (simp add: empty_message_def new_message_def nil_slice_def wf_slice_def)

interpretation tcp: transport "wire e" packet_of "tcp_ok e" "tcp_recv e" "\<lambda>c. s_bytes (tc_in c)" "tcp_inv e"
  for e
proof
  fix c m rest
  assume "tcp_inv e c" "tcp_ok e m" "s_bytes (tc_in c) = wire e m @ rest"
  from tcp_ReadMessage_wire [OF this empty_new_message]
  show "\<exists>c'. tcp_recv e c = Some (packet_of m, c') \<and> s_bytes (tc_in c') = rest \<and> tcp_inv e c'"
    by (auto simp: tcp_recv_def dest: packet_of_same)
qed

end
