(* ===== verification/Chan.thy ===== *)
theory Chan
  imports Prelude
begin

text \<open>
  Go's buffered channels, as the code uses them: the write queue of a socket, the packet queue
  of a udp connection and the connection queue of a listener. Behind the interface
  \<open>bounded_fifo\<close> they deliver what was sent, in order, never more than their capacity at once.
\<close>

section \<open>The interface\<close>

locale bounded_fifo =
  fixes push :: "'a \<Rightarrow> 'q \<Rightarrow> 'q option" and pop :: "'q \<Rightarrow> ('a \<times> 'q) option"
    and content :: "'q \<Rightarrow> 'a list" and bound :: "'q \<Rightarrow> nat" and shut :: "'q \<Rightarrow> bool"
  assumes push_Some: "push x q = Some q' \<Longrightarrow> content q' = content q @ [x] \<and> bound q' = bound q"
    and push_None: "push x q = None \<Longrightarrow> shut q \<or> bound q \<le> length (content q)"
    and push_room: "push x q = Some q' \<Longrightarrow> \<not> shut q \<and> length (content q) < bound q"
    and pop_Some: "pop q = Some (x, q') \<Longrightarrow> content q = x # content q' \<and> bound q' = bound q"
    and pop_None: "pop q = None \<Longrightarrow> content q = []"
begin

text \<open>A queue that is within its bound stays within it.\<close>

lemma push_bound: "push x q = Some q' \<Longrightarrow> length (content q') \<le> bound q'"
  using push_Some [of x q q'] push_room [of x q q'] by auto

lemma pop_bound: "pop q = Some (x, q') \<Longrightarrow> length (content q) \<le> bound q \<Longrightarrow> length (content q') \<le> bound q'"
  using pop_Some [of q x q'] by auto

lemma push_pop_empty: "content q = [] \<Longrightarrow> push x q = Some q' \<Longrightarrow> \<exists>q''. pop q' = Some (x, q'') \<and> content q'' = []"
  using push_Some [of x q q'] pop_None [of q'] pop_Some [of q']
  by (cases "pop q'") fastforce+

end

section \<open>Channels\<close>

record 'a chan =
  items :: "'a list"
  ccap :: nat
  closed :: bool

definition make_chan :: "nat \<Rightarrow> 'a chan" where
  "make_chan n = \<lparr>items = [], ccap = n, closed = False\<rparr>"

text \<open>
  \<open>select { case c <- x: ... default: ... }\<close>: whether the value went in; a send on a closed
  channel panics.
\<close>

definition try_send :: "'a \<Rightarrow> 'a chan \<Rightarrow> (bool, 'a chan) run" where
  "try_send x c =
     (if closed c then (Panic, c)
      else if length (items c) < ccap c then (Ok True, c\<lparr>items := items c @ [x]\<rparr>)
      else (Ok False, c))"

text \<open>\<open>x, ok := <-c\<close>: \<open>None\<close> when the channel is closed and drained; it waits on an empty one.\<close>

definition recv :: "'a chan \<Rightarrow> ('a option, 'a chan) run" where
  "recv c =
     (case items c of
        x # xs \<Rightarrow> (Ok (Some x), c\<lparr>items := xs\<rparr>)
      | [] \<Rightarrow> if closed c then (Ok None, c) else (Blocked, c))"

definition chan_close :: "'a chan \<Rightarrow> (unit, 'a chan) run" where
  "chan_close c = (if closed c then (Panic, c) else (Ok (), c\<lparr>closed := True\<rparr>))"

section \<open>They are bounded queues\<close>

text \<open>A send that does not wait and a receive that does not wait, as the interface sees them.\<close>

definition chan_push :: "'a \<Rightarrow> 'a chan \<Rightarrow> 'a chan option" where
  "chan_push x c = (case try_send x c of (Ok True, c) \<Rightarrow> Some c | _ \<Rightarrow> None)"

definition chan_pop :: "'a chan \<Rightarrow> ('a \<times> 'a chan) option" where
  "chan_pop c = (case recv c of (Ok (Some x), c) \<Rightarrow> Some (x, c) | _ \<Rightarrow> None)"

interpretation ch: bounded_fifo chan_push chan_pop items ccap closed
  by unfold_locales
    (auto simp: chan_push_def try_send_def chan_pop_def recv_def split: if_splits list.splits)

lemma try_send_open:
  "\<not> closed c \<Longrightarrow> try_send x c =
     (case chan_push x c of Some c' \<Rightarrow> (Ok True, c') | None \<Rightarrow> (Ok False, c))"
  by (cases c) (auto simp: chan_push_def try_send_def)

lemma try_send_closed [simp]: "closed c \<Longrightarrow> try_send x c = (Panic, c)"
  by (simp add: try_send_def)

end
