(* ===== verification/Udp.thy ===== *)
theory Udp
  imports Transport Chan
begin

text \<open>
  \<open>udp/listener.go\<close> and \<open>udp/conn.go\<close>: one socket shared by all peers, a connection object per
  remote address, and the lock of the listener. \<open>Conn\<close> objects are numbered; the number is the
  pointer. A lock or a receive that has to wait is \<open>Blocked\<close>.
\<close>

section \<open>State\<close>

record udp_options =
  ConnChanSize :: i32
  MsgChanSize :: i32

record udp_conn =
  uc_key :: bytes
  uc_msgs :: "bytes chan"
  uc_head :: "bytes option"

text \<open>
  A nil \<open>conns\<close> map is \<open>None\<close>; \<open>ul_mu\<close> says that the mutex is held; \<open>ul_sent\<close> are the datagrams
  written, with their destination.
\<close>

record udp_listener =
  ul_conns :: "(bytes \<rightharpoonup> nat) option"
  ul_objs :: "nat \<rightharpoonup> udp_conn"
  ul_next :: nat
  ul_connCh :: "nat chan"
  ul_mu :: bool
  ul_sock_open :: bool
  ul_sent :: "(bytes \<times> bytes) list"

text \<open>A negative size panics in \<open>make\<close>; \<open>udp_New\<close> is \<open>New\<close> once the address is resolved and bound.\<close>

definition new_udp :: "nat \<Rightarrow> udp_listener" where
  "new_udp n =
     \<lparr>ul_conns = Some Map.empty, ul_objs = Map.empty, ul_next = 0,
      ul_connCh = make_chan n, ul_mu = False, ul_sock_open = True, ul_sent = []\<rparr>"

definition udp_New :: "udp_options \<Rightarrow> udp_listener outcome" where
  "udp_New o1 = (if sint (ConnChanSize o1) < 0 then Panic else Ok (new_udp (nat (sint (ConnChanSize o1)))))"

text \<open>\<open>sync.Mutex\<close>: locking a held mutex waits, also for its own holder.\<close>

definition mu_lock :: "udp_listener \<Rightarrow> (unit, udp_listener) run" where
  "mu_lock l = (if ul_mu l then (Blocked, l) else (Ok (), l\<lparr>ul_mu := True\<rparr>))"

definition mu_unlock :: "udp_listener \<Rightarrow> udp_listener" where
  "mu_unlock l = l\<lparr>ul_mu := False\<rparr>"

definition conns_get :: "udp_listener \<Rightarrow> bytes \<Rightarrow> nat option" where
  "conns_get l k = (case ul_conns l of None \<Rightarrow> None | Some cs \<Rightarrow> cs k)"

section \<open>The listener\<close>

text \<open>
  The caller holds the mutex. A negative size of the packet queue panics; a full queue drops the
  peer; storing into a nil map panics.
\<close>

abbreviation msg_room :: "udp_options \<Rightarrow> nat" where
  "msg_room o1 \<equiv> nat (sint (MsgChanSize o1))"

definition newConn :: "udp_options \<Rightarrow> bytes \<Rightarrow> udp_listener \<Rightarrow> (nat, udp_listener) run" where
  "newConn o1 key l =
     (if sint (MsgChanSize o1) < 0 then (Panic, l) else
      let p = ul_next l;
          r = \<lparr>uc_key = key, uc_msgs = make_chan (msg_room o1), uc_head = None\<rparr>;
          l = l\<lparr>ul_objs := (ul_objs l)(p \<mapsto> r), ul_next := Suc p\<rparr> in
      case try_send p (ul_connCh l) of
        (Ok True, ch) \<Rightarrow>
          let l = l\<lparr>ul_connCh := ch\<rparr> in
          (case ul_conns l of
             None \<Rightarrow> (Panic, l)
           | Some cs \<Rightarrow> (Ok p, l\<lparr>ul_conns := Some (cs(key \<mapsto> p))\<rparr>))
      | (Ok False, _) \<Rightarrow> (Err (ErrNew ''udp listener conn channel full, drop conn''), l)
      | (x, _) \<Rightarrow> (map_outcome (\<lambda>_. p) x, l))"

definition removeConn :: "bytes \<Rightarrow> udp_listener \<Rightarrow> (unit, udp_listener) run" where
  "removeConn key l =
     and_then (mu_lock l) (\<lambda>_ l.
       (Ok (), mu_unlock (l\<lparr>ul_conns := map_option (\<lambda>cs. cs(key := None)) (ul_conns l)\<rparr>)))"

text \<open>
  One turn of \<open>readLoop\<close> for a packet, in two parts: finding or making the connection under the
  lock (\<open>None\<close> when the packet is dropped), and the send to its queue after unlocking.
\<close>

definition udp_dispatch ::
  "udp_options \<Rightarrow> bytes \<Rightarrow> udp_listener \<Rightarrow> (nat option, udp_listener) run" where
  "udp_dispatch o1 key l =
     and_then (mu_lock l) (\<lambda>_ l.
       case conns_get l key of
         Some p \<Rightarrow> (Ok (Some p), mu_unlock l)
       | None \<Rightarrow>
           (case newConn o1 key l of
              (Ok p, l) \<Rightarrow> (Ok (Some p), mu_unlock l)
            | (Err _, l) \<Rightarrow> (Ok None, mu_unlock l)
            | (x, l) \<Rightarrow> (map_outcome Some x, l)))"

definition udp_deliver :: "nat \<Rightarrow> bytes \<Rightarrow> udp_listener \<Rightarrow> (unit, udp_listener) run" where
  "udp_deliver p data l =
     (case ul_objs l p of
        None \<Rightarrow> (Panic, l)
      | Some c \<Rightarrow>
          (case try_send data (uc_msgs c) of
             (Ok _, ch) \<Rightarrow> (Ok (), l\<lparr>ul_objs := (ul_objs l)(p \<mapsto> c\<lparr>uc_msgs := ch\<rparr>)\<rparr>)
           | (x, _) \<Rightarrow> (done_with x, l)))"

definition udp_packet ::
  "udp_options \<Rightarrow> bytes \<Rightarrow> bytes \<Rightarrow> udp_listener \<Rightarrow> (unit, udp_listener) run" where
  "udp_packet o1 key data l =
     (if data = [] then (Ok (), l)
      else and_then (udp_dispatch o1 key l) (\<lambda>p l.
        case p of None \<Rightarrow> (Ok (), l) | Some p \<Rightarrow> udp_deliver p data l))"

text \<open>
  The loop itself: for each turn, whether the process is stopping at its head, and what
  \<open>ReadFromUDP\<close> then returns. Without a further packet it waits.
\<close>

datatype udp_event = Datagram bytes bytes | ReadFault err

fun readLoop :: "udp_options \<Rightarrow> (bool \<times> udp_event) list \<Rightarrow> udp_listener \<Rightarrow> (unit, udp_listener) run" where
  "readLoop o1 [] l = (Blocked, l)"
| "readLoop o1 ((stopped, ev) # evs) l =
     (if stopped then (Ok (), l)
      else case ev of
        ReadFault _ \<Rightarrow> (Ok (), l)
      | Datagram key data \<Rightarrow> and_then (udp_packet o1 key data l) (\<lambda>_ l. readLoop o1 evs l))"

definition udp_Accept :: "udp_listener \<Rightarrow> (nat, udp_listener) run" where
  "udp_Accept l =
     (case recv (ul_connCh l) of
        (Ok (Some p), ch) \<Rightarrow> (Ok p, l\<lparr>ul_connCh := ch\<rparr>)
      | (Ok None, _) \<Rightarrow> (Err (ErrNew ''udp listener closed''), l)
      | (x, _) \<Rightarrow> (map_outcome (\<lambda>_. 0) x, l))"

section \<open>The connection\<close>

definition udp_conn_Close :: "nat \<Rightarrow> udp_listener \<Rightarrow> (unit, udp_listener) run" where
  "udp_conn_Close p l =
     (case ul_objs l p of
        None \<Rightarrow> (Panic, l)
      | Some c \<Rightarrow>
          and_then (removeConn (uc_key c) l) (\<lambda>_ l.
            case chan_close (uc_msgs c) of
              (x, ch) \<Rightarrow> (x, l\<lparr>ul_objs := (ul_objs l)(p \<mapsto> c\<lparr>uc_msgs := ch\<rparr>)\<rparr>)))"

text \<open>\<open>Listener.Close\<close> closes the live connections in some order while it holds the mutex.\<close>

fun close_all :: "nat list \<Rightarrow> udp_listener \<Rightarrow> (unit, udp_listener) run" where
  "close_all [] l = (Ok (), l)"
| "close_all (p # ps) l = and_then (udp_conn_Close p l) (\<lambda>_ l. close_all ps l)"

definition udp_Close :: "nat list \<Rightarrow> udp_listener \<Rightarrow> (unit, udp_listener) run" where
  "udp_Close order l =
     (case chan_close (ul_connCh l) of
        (Ok _, ch) \<Rightarrow>
          and_then (mu_lock (l\<lparr>ul_connCh := ch\<rparr>)) (\<lambda>_ l.
          and_then (close_all order l) (\<lambda>_ l.
            (Ok (), (mu_unlock (l\<lparr>ul_conns := None\<rparr>))\<lparr>ul_sock_open := False\<rparr>)))
      | (x, _) \<Rightarrow> (x, l))"

definition udp_ReadMessage ::
  "env \<Rightarrow> nat \<Rightarrow> message \<Rightarrow> udp_listener \<Rightarrow> (unit, message \<times> udp_listener) run" where
  "udp_ReadMessage e p m l =
     (case ul_objs l p of
        None \<Rightarrow> (Panic, (m, l))
      | Some c \<Rightarrow>
          let h = (case uc_head c of None \<Rightarrow> replicate (HeadLen (opts e)) 0 | Some h \<Rightarrow> h) in
          (case recv (uc_msgs c) of
             (Ok (Some b), ch) \<Rightarrow>
               let l = l\<lparr>ul_objs := (ul_objs l)(p \<mapsto> c\<lparr>uc_msgs := ch, uc_head := Some h\<rparr>)\<rparr> in
               if length b < length h then (Err ErrUnexpectedEOF, (m, l))
               else (case Reset e \<lparr>arr = b, slen = length b\<rparr> m of (x, m) \<Rightarrow> (x, (m, l)))
           | (Ok None, _) \<Rightarrow>
               (Err ErrEOF, (m, l\<lparr>ul_objs := (ul_objs l)(p \<mapsto> c\<lparr>uc_head := Some h\<rparr>)\<rparr>))
           | (x, _) \<Rightarrow>
               (done_with x, (m, l\<lparr>ul_objs := (ul_objs l)(p \<mapsto> c\<lparr>uc_head := Some h\<rparr>)\<rparr>))))"

text \<open>\<open>WriteToUDP\<close> sends one datagram or fails; which, is the argument \<open>fault\<close>.\<close>

definition WriteToUDP ::
  "err option \<Rightarrow> bytes \<Rightarrow> bytes \<Rightarrow> udp_listener \<Rightarrow> (nat, udp_listener) run" where
  "WriteToUDP fault b key l =
     (case fault of
        Some x \<Rightarrow> (Err x, l)
      | None \<Rightarrow> (Ok (length b), l\<lparr>ul_sent := ul_sent l @ [(key, b)]\<rparr>))"

definition udp_WriteMessage ::
  "env \<Rightarrow> err option \<Rightarrow> nat \<Rightarrow> message \<Rightarrow> udp_listener \<Rightarrow> (unit, udp_listener) run" where
  "udp_WriteMessage e fault p m l =
     (case Bytes e m True buffer_writer of
        (Ok _, b) \<Rightarrow>
          (case ul_objs l p of
             None \<Rightarrow> (Panic, l)
           | Some c \<Rightarrow>
               (case WriteToUDP fault (wrote b) (uc_key c) l of (x, l) \<Rightarrow> (done_with x, l)))
      | (x, _) \<Rightarrow> (done_with x, l))"

text \<open>\<open>Conn.Write\<close> forgets the peer when the send fails.\<close>

definition udp_conn_Write ::
  "err option \<Rightarrow> nat \<Rightarrow> bytes \<Rightarrow> udp_listener \<Rightarrow> (nat, udp_listener) run" where
  "udp_conn_Write fault p b l =
     (case ul_objs l p of
        None \<Rightarrow> (Panic, l)
      | Some c \<Rightarrow>
          (case WriteToUDP fault b (uc_key c) l of
             (Err x, l) \<Rightarrow> and_then (removeConn (uc_key c) l) (\<lambda>_ l. (Err x, l))
           | r \<Rightarrow> r))"

section \<open>The table of peers\<close>

text \<open>
  A peer's entry leads to an open connection object with the peer's address, and its queue is
  within its bound; numbers at and above the next one are unused.
\<close>

definition good_conn :: "udp_listener \<Rightarrow> bytes \<Rightarrow> nat \<Rightarrow> bool" where
  "good_conn l k p \<longleftrightarrow>
     (\<exists>c. ul_objs l p = Some c \<and> uc_key c = k \<and> \<not> closed (uc_msgs c)
          \<and> length (items (uc_msgs c)) \<le> ccap (uc_msgs c))"

definition udp_inv :: "udp_listener \<Rightarrow> bool" where
  "udp_inv l \<longleftrightarrow>
     (\<forall>k p. conns_get l k = Some p \<longrightarrow> good_conn l k p)
     \<and> (\<forall>p c. ul_objs l p = Some c \<longrightarrow> p < ul_next l)"

inductive udp_step :: "udp_options \<Rightarrow> env \<Rightarrow> udp_listener \<Rightarrow> udp_listener \<Rightarrow> bool" for o1 e where
  u_packet: "udp_packet o1 key data l = (x, l') \<Longrightarrow> udp_step o1 e l l'"
| u_dispatch: "udp_dispatch o1 key l = (y, l') \<Longrightarrow> udp_step o1 e l l'"
| u_deliver: "udp_deliver p data l = (x, l') \<Longrightarrow> udp_step o1 e l l'"
| u_accept: "udp_Accept l = (z, l') \<Longrightarrow> udp_step o1 e l l'"
| u_read: "udp_ReadMessage e p m l = (x, (m', l')) \<Longrightarrow> udp_step o1 e l l'"
| u_write: "udp_WriteMessage e fault p m l = (x, l') \<Longrightarrow> udp_step o1 e l l'"
| u_conn_write: "udp_conn_Write fault p b l = (z, l') \<Longrightarrow> udp_step o1 e l l'"
| u_conn_close: "udp_conn_Close p l = (x, l') \<Longrightarrow> udp_step o1 e l l'"
| u_close: "udp_Close order l = (x, l') \<Longrightarrow> udp_step o1 e l l'"

lemmas lock_defs = mu_lock_def mu_unlock_def

lemma udp_inv_mu [simp]: "udp_inv (l\<lparr>ul_mu := b\<rparr>) = udp_inv l"
  by (simp add: udp_inv_def conns_get_def good_conn_def)

lemma udp_inv_unlock [simp]: "udp_inv (mu_unlock l) = udp_inv l"
  by (simp add: mu_unlock_def)

lemma udp_inv_connCh [simp]: "udp_inv (l\<lparr>ul_connCh := ch\<rparr>) = udp_inv l"
  by (simp add: udp_inv_def conns_get_def good_conn_def)

lemma udp_inv_sent [simp]: "udp_inv (l\<lparr>ul_sent := ps\<rparr>) = udp_inv l"
  by (simp add: udp_inv_def conns_get_def good_conn_def)

lemma udp_inv_sock [simp]: "udp_inv (l\<lparr>ul_sock_open := b\<rparr>) = udp_inv l"
  by (simp add: udp_inv_def conns_get_def good_conn_def)

text \<open>Replacing a connection object by one that keeps its key and stays open and bounded.\<close>

lemma udp_inv_upd:
  assumes "udp_inv l" and "ul_objs l p = Some c" and "uc_key c' = uc_key c"
    and "\<And>k. conns_get l k = Some p \<Longrightarrow> \<not> closed (uc_msgs c) \<Longrightarrow>
      length (items (uc_msgs c)) \<le> ccap (uc_msgs c) \<Longrightarrow>
      \<not> closed (uc_msgs c') \<and> length (items (uc_msgs c')) \<le> ccap (uc_msgs c')"
  shows "udp_inv (l\<lparr>ul_objs := (ul_objs l)(p \<mapsto> c')\<rparr>)"
  using assms by (fastforce simp: udp_inv_def conns_get_def good_conn_def)

lemma mu_lock_inv: "udp_inv l \<Longrightarrow> mu_lock l = (x, l') \<Longrightarrow> udp_inv l'"
  by (auto simp: mu_lock_def split: if_splits)

lemma and_then_inv:
  "(\<And>x l'. r = (x, l') \<Longrightarrow> udp_inv l') \<Longrightarrow>
   (\<And>a l1 y l2. r = (Ok a, l1) \<Longrightarrow> udp_inv l1 \<Longrightarrow> k a l1 = (y, l2) \<Longrightarrow> udp_inv l2) \<Longrightarrow>
   and_then r k = (x, l') \<Longrightarrow> udp_inv l'"
  by (cases r; cases "fst r") (auto simp: and_then_def)

lemma udp_inv_delete:
  "udp_inv l \<Longrightarrow> udp_inv (l\<lparr>ul_conns := map_option (\<lambda>cs. cs(key := None)) (ul_conns l)\<rparr>)"
  by (auto simp: udp_inv_def conns_get_def good_conn_def split: option.splits if_splits)

lemma removeConn_inv: "udp_inv l \<Longrightarrow> removeConn key l = (x, l') \<Longrightarrow> udp_inv l'"
  using udp_inv_delete [of "l\<lparr>ul_mu := True\<rparr>" key]
  by (auto simp: removeConn_def mu_lock_def split: if_splits)

lemma removeConn_get: "removeConn key l = (Ok (), l') \<Longrightarrow> conns_get l' key = None"
  by (auto simp: removeConn_def lock_defs conns_get_def split: if_splits option.splits)

lemma removeConn_objs: "removeConn key l = (x, l') \<Longrightarrow> ul_objs l' = ul_objs l"
  by (auto simp: removeConn_def lock_defs split: if_splits)

lemma newConn_inv:
  assumes inv: "udp_inv l" and new: "newConn o1 key l = (x, l')"
  shows "udp_inv l'"
proof -
  let ?p = "ul_next l"
  let ?r = "\<lparr>uc_key = key, uc_msgs = make_chan (msg_room o1), uc_head = None\<rparr>"
  let ?l = "l\<lparr>ul_objs := (ul_objs l)(?p \<mapsto> ?r), ul_next := Suc ?p\<rparr>"
  have fresh: "ul_objs l ?p = None" and "\<And>k q. conns_get l k = Some q \<Longrightarrow> q \<noteq> ?p"
    using inv by (fastforce simp: udp_inv_def good_conn_def)+
  then have l: "udp_inv ?l"
    using inv by (auto simp: udp_inv_def conns_get_def good_conn_def less_Suc_eq)
  have "udp_inv (?l\<lparr>ul_connCh := ch, ul_conns := Some (cs(key \<mapsto> ?p))\<rparr>)" if "ul_conns l = Some cs" for ch cs
    using l that by (auto simp: udp_inv_def conns_get_def good_conn_def make_chan_def)
  with new l inv show ?thesis
    by (cases "sint (MsgChanSize o1) < 0")
      (auto simp: newConn_def Let_def split: prod.splits outcome.splits bool.splits option.splits)
qed

lemma udp_dispatch_inv: "udp_inv l \<Longrightarrow> udp_dispatch o1 key l = (y, l') \<Longrightarrow> udp_inv l'"
  unfolding udp_dispatch_def
  by (erule and_then_inv [rotated -1])
    (auto dest: mu_lock_inv newConn_inv split: option.splits prod.splits outcome.splits)

lemma try_send_Ok:
  "try_send x c = (Ok b, c') \<Longrightarrow> closed c' = closed c \<and> ccap c' = ccap c \<and> \<not> closed c
     \<and> (length (items c) \<le> ccap c \<longrightarrow> length (items c') \<le> ccap c')"
  by (auto simp: try_send_def split: if_splits)

lemma udp_deliver_inv: "udp_inv l \<Longrightarrow> udp_deliver p data l = (x, l') \<Longrightarrow> udp_inv l'"
  by (auto simp: udp_deliver_def intro!: udp_inv_upd dest: try_send_Ok
      split: option.splits prod.splits outcome.splits)

lemma udp_packet_inv: "udp_inv l \<Longrightarrow> udp_packet o1 key data l = (x, l') \<Longrightarrow> udp_inv l'"
  unfolding udp_packet_def
  by (auto split: if_splits elim!: and_then_inv [rotated -1]
      dest: udp_dispatch_inv udp_deliver_inv split: option.splits)

lemma recv_Ok:
  "recv c = (Ok y, c') \<Longrightarrow> closed c' = closed c \<and> ccap c' = ccap c
     \<and> length (items c') \<le> length (items c)"
  by (auto simp: recv_def split: list.splits if_splits)

lemma udp_Accept_inv: "udp_inv l \<Longrightarrow> udp_Accept l = (z, l') \<Longrightarrow> udp_inv l'"
  by (auto simp: udp_Accept_def split: prod.splits outcome.splits option.splits)

lemma udp_ReadMessage_inv:
  "udp_inv l \<Longrightarrow> udp_ReadMessage e p m l = (x, (m', l')) \<Longrightarrow> udp_inv l'"
  by (auto simp: udp_ReadMessage_def Let_def intro!: udp_inv_upd dest: recv_Ok
      split: option.splits prod.splits outcome.splits if_splits)

lemma WriteToUDP_inv: "udp_inv l \<Longrightarrow> WriteToUDP fault b key l = (x, l') \<Longrightarrow> udp_inv l'"
  by (auto simp: WriteToUDP_def split: option.splits)

lemma udp_WriteMessage_inv:
  "udp_inv l \<Longrightarrow> udp_WriteMessage e fault p m l = (x, l') \<Longrightarrow> udp_inv l'"
  by (auto simp: udp_WriteMessage_def dest: WriteToUDP_inv split: option.splits prod.splits outcome.splits)

lemma udp_conn_Write_inv:
  assumes "udp_inv l" and "udp_conn_Write fault p b l = (z, l')"
  shows "udp_inv l'"
proof (cases "ul_objs l p")
  case (Some c)
  obtain y l1 where w: "WriteToUDP fault b (uc_key c) l = (y, l1)" by fastforce
  then have "udp_inv l1" using assms(1) by (rule WriteToUDP_inv [rotated])
  then show ?thesis
    using assms(2) Some w
    by (cases y) (auto simp: udp_conn_Write_def elim!: and_then_inv [rotated -1] dest: removeConn_inv)
qed (use assms in \<open>simp add: udp_conn_Write_def\<close>)

lemma udp_conn_Close_inv:
  assumes "udp_inv l" and "udp_conn_Close p l = (x, l')"
  shows "udp_inv l'"
proof (cases "ul_objs l p")
  case (Some c)
  obtain y l1 where r: "removeConn (uc_key c) l = (y, l1)" by fastforce
  have inv: "udp_inv l1" using assms(1) r by (rule removeConn_inv)
  show ?thesis
  proof (cases y)
    case (Ok u)
    have gone: "conns_get l1 k \<noteq> Some p" for k
    proof
      assume k: "conns_get l1 k = Some p"
      then have "good_conn l1 k p" using inv by (simp add: udp_inv_def)
      then have "uc_key c = k"
        using Some removeConn_objs [OF r] by (simp add: good_conn_def)
      with k removeConn_get [of "uc_key c" l l1] r Ok show False by simp
    qed
    obtain z ch where cl: "chan_close (uc_msgs c) = (z, ch)" by fastforce
    have "udp_inv (l1\<lparr>ul_objs := (ul_objs l1)(p \<mapsto> c\<lparr>uc_msgs := ch\<rparr>)\<rparr>)"
      using inv Some removeConn_objs [OF r] gone by (intro udp_inv_upd) auto
    then show ?thesis using assms(2) Some r Ok cl by (simp add: udp_conn_Close_def)
  qed (use assms(2) Some r inv in \<open>simp_all add: udp_conn_Close_def\<close>)
qed (use assms in \<open>simp add: udp_conn_Close_def\<close>)

lemma close_all_inv: "udp_inv l \<Longrightarrow> close_all ps l = (x, l') \<Longrightarrow> udp_inv l'"
proof (induction ps arbitrary: l x l')
  case (Cons p ps)
  then show ?case
    by (auto elim!: and_then_inv [rotated -1] dest: udp_conn_Close_inv)
qed simp

lemma udp_inv_nil_conns: "udp_inv l \<Longrightarrow> udp_inv (l\<lparr>ul_conns := None\<rparr>)"
  by (simp add: udp_inv_def conns_get_def)

lemma udp_Close_inv: "udp_inv l \<Longrightarrow> udp_Close order l = (x, l') \<Longrightarrow> udp_inv l'"
  unfolding udp_Close_def
  by (auto split: prod.splits outcome.splits elim!: and_then_inv [rotated -1]
      dest: close_all_inv intro: udp_inv_nil_conns mu_lock_inv [rotated])

interpretation udp: step_invariant "udp_step o1 e" udp_inv for o1 e
proof
  fix s t
  assume "udp_step o1 e s t" "udp_inv s"
  then show "udp_inv t"
    by (cases rule: udp_step.cases)
      (blast intro: udp_packet_inv udp_dispatch_inv udp_deliver_inv udp_Accept_inv
        udp_ReadMessage_inv udp_WriteMessage_inv udp_conn_Write_inv udp_conn_Close_inv udp_Close_inv)+
qed

lemma udp_inv_new: "udp_inv (new_udp n)"
  by (simp add: udp_inv_def new_udp_def conns_get_def)

lemma udp_inv_New: "udp_New o1 = Ok l \<Longrightarrow> udp_inv l"
  by (auto simp: udp_New_def udp_inv_new split: if_splits)

section \<open>Where a packet goes\<close>

text \<open>The queue of a peer, and what a packet does to a queue: in if there is room, else dropped.\<close>

definition peer_chan :: "udp_listener \<Rightarrow> bytes \<Rightarrow> bytes chan option" where
  "peer_chan l k =
     (case conns_get l k of None \<Rightarrow> None | Some p \<Rightarrow> map_option uc_msgs (ul_objs l p))"

definition offer :: "'a \<Rightarrow> 'a chan \<Rightarrow> 'a chan" where
  "offer x c = (if length (items c) < ccap c then c\<lparr>items := items c @ [x]\<rparr> else c)"

definition udp_open :: "udp_listener \<Rightarrow> bool" where
  "udp_open l \<longleftrightarrow> \<not> ul_mu l \<and> \<not> closed (ul_connCh l) \<and> ul_conns l \<noteq> None"

lemma try_send_offer: "\<not> closed c \<Longrightarrow> \<exists>b. try_send x c = (Ok b, offer x c)"
  by (auto simp: try_send_def offer_def)

lemma good_connD: "udp_inv l \<Longrightarrow> conns_get l k = Some p \<Longrightarrow> good_conn l k p"
  by (simp add: udp_inv_def)

text \<open>No two addresses share a connection object.\<close>

lemma conns_get_inj: "udp_inv l \<Longrightarrow> conns_get l k = Some p \<Longrightarrow> conns_get l k' = Some p \<Longrightarrow> k' = k"
  by (drule (1) good_connD [rotated], drule (1) good_connD) (auto simp: good_conn_def)

lemma udp_deliver_peer:
  assumes inv: "udp_inv l" and get: "conns_get l k = Some p" and op: "udp_open l"
  shows "\<exists>l'. udp_deliver p d l = (Ok (), l') \<and> udp_open l'
           \<and> peer_chan l' k = map_option (offer d) (peer_chan l k)
           \<and> (\<forall>k'. k' \<noteq> k \<longrightarrow> peer_chan l' k' = peer_chan l k') \<and> ul_connCh l' = ul_connCh l"
proof -
  obtain c where c: "ul_objs l p = Some c" "\<not> closed (uc_msgs c)" "uc_key c = k"
    using good_connD [OF inv get] by (auto simp: good_conn_def)
  obtain b where b: "try_send d (uc_msgs c) = (Ok b, offer d (uc_msgs c))"
    using try_send_offer [OF c(2)] by blast
  have other: "conns_get l k' \<noteq> Some p" if "k' \<noteq> k" for k'
    using that conns_get_inj [OF inv get, of k'] by blast
  show ?thesis
    using c b get op other
    by (auto simp: udp_deliver_def udp_open_def peer_chan_def conns_get_def split: option.splits)
qed

lemma udp_dispatch_known:
  assumes "udp_open l" and "conns_get l k = Some p"
  shows "udp_dispatch o1 k l = (Ok (Some p), l)"
proof -
  have "l\<lparr>ul_mu := False\<rparr> = l" using assms by (simp add: udp_open_def)
  then show ?thesis
    using assms by (simp add: udp_dispatch_def lock_defs udp_open_def conns_get_def)
qed

lemma udp_dispatch_new:
  assumes inv: "udp_inv l" and op: "udp_open l" and get: "conns_get l k = None"
    and room: "length (items (ul_connCh l)) < ccap (ul_connCh l)" and size: "0 \<le> sint (MsgChanSize o1)"
  shows "\<exists>l'. udp_dispatch o1 k l = (Ok (Some (ul_next l)), l') \<and> udp_open l'
           \<and> conns_get l' k = Some (ul_next l) \<and> peer_chan l' k = Some (make_chan (msg_room o1))
           \<and> ul_connCh l' = (ul_connCh l)\<lparr>items := items (ul_connCh l) @ [ul_next l]\<rparr>
           \<and> (\<forall>k'. k' \<noteq> k \<longrightarrow> peer_chan l' k' = peer_chan l k')"
proof -
  obtain cs where cs: "ul_conns l = Some cs" using op by (auto simp: udp_open_def)
  have "cs k' \<noteq> Some (ul_next l)" for k'
    using inv cs by (fastforce simp: udp_inv_def good_conn_def conns_get_def)
  then show ?thesis
    using op get room size cs
    by (auto simp: udp_dispatch_def lock_defs udp_open_def conns_get_def newConn_def Let_def
        try_send_def peer_chan_def split: option.splits)
qed

lemma udp_dispatch_full:
  assumes inv: "udp_inv l" and op: "udp_open l" and get: "conns_get l k = None"
    and full: "\<not> length (items (ul_connCh l)) < ccap (ul_connCh l)" and size: "0 \<le> sint (MsgChanSize o1)"
  shows "\<exists>l'. udp_dispatch o1 k l = (Ok None, l') \<and> udp_open l'
           \<and> (\<forall>k'. peer_chan l' k' = peer_chan l k') \<and> ul_connCh l' = ul_connCh l"
proof -
  obtain cs where cs: "ul_conns l = Some cs" using op by (auto simp: udp_open_def)
  have "cs k' \<noteq> Some (ul_next l)" for k'
    using inv cs by (fastforce simp: udp_inv_def good_conn_def conns_get_def)
  then show ?thesis
    using op get full size cs
    by (auto simp: udp_dispatch_def lock_defs udp_open_def conns_get_def newConn_def Let_def
        try_send_def peer_chan_def split: option.splits)
qed

text \<open>
  The whole turn of the loop: a known peer's queue takes the packet if it has room, a new peer
  gets a queue of its own if the listener can announce it, and no other queue changes.
\<close>

definition conn_room :: "udp_listener \<Rightarrow> nat" where
  "conn_room l = ccap (ul_connCh l) - length (items (ul_connCh l))"

definition peer_spec :: "udp_options \<Rightarrow> bytes \<Rightarrow> bytes \<Rightarrow> udp_listener \<Rightarrow> bytes chan option" where
  "peer_spec o1 k d l =
     (case peer_chan l k of
        Some c \<Rightarrow> Some (offer d c)
      | None \<Rightarrow> if length (items (ul_connCh l)) < ccap (ul_connCh l)
                then Some (offer d (make_chan (msg_room o1))) else None)"

lemma peer_chan_None_iff: "udp_inv l \<Longrightarrow> peer_chan l k = None \<longleftrightarrow> conns_get l k = None"
  by (fastforce simp: peer_chan_def udp_inv_def good_conn_def split: option.splits)

lemma udp_packet_routed:
  assumes inv: "udp_inv l" and op: "udp_open l" and d: "d \<noteq> []" and size: "0 \<le> sint (MsgChanSize o1)"
  shows "\<exists>l'. udp_packet o1 k d l = (Ok (), l') \<and> udp_open l' \<and> peer_chan l' k = peer_spec o1 k d l
           \<and> (\<forall>k'. k' \<noteq> k \<longrightarrow> peer_chan l' k' = peer_chan l k')
           \<and> conn_room l' = (if peer_chan l k = None then conn_room l - 1 else conn_room l)"
proof (cases "conns_get l k")
  case (Some p)
  then have "peer_chan l k \<noteq> None" using peer_chan_None_iff [OF inv, of k] by simp
  then show ?thesis
    using udp_deliver_peer [OF inv Some op, of d] d
    by (auto simp: udp_packet_def udp_dispatch_known [OF op Some] peer_spec_def conn_room_def)
next
  case None
  then have pc: "peer_chan l k = None" using peer_chan_None_iff [OF inv] by simp
  show ?thesis
  proof (cases "length (items (ul_connCh l)) < ccap (ul_connCh l)")
    case True
    from udp_dispatch_new [OF inv op None True size]
    obtain l1 where l1: "udp_dispatch o1 k l = (Ok (Some (ul_next l)), l1)" "udp_open l1"
      "conns_get l1 k = Some (ul_next l)" "peer_chan l1 k = Some (make_chan (msg_room o1))"
      "\<forall>k'. k' \<noteq> k \<longrightarrow> peer_chan l1 k' = peer_chan l k'"
      "ul_connCh l1 = (ul_connCh l)\<lparr>items := items (ul_connCh l) @ [ul_next l]\<rparr>"
      by blast
    have "udp_inv l1" using inv l1(1) by (rule udp_dispatch_inv)
    from udp_deliver_peer [OF this l1(3,2), of d] show ?thesis
      using l1 d pc True by (auto simp: udp_packet_def peer_spec_def conn_room_def)
  next
    case False
    from udp_dispatch_full [OF inv op None False size] show ?thesis
      using d pc False by (auto simp: udp_packet_def peer_spec_def conn_room_def)
  qed
qed

section \<open>Reading what was written\<close>

definition udp_recv :: "env \<Rightarrow> nat \<times> udp_listener \<Rightarrow> (packet \<times> nat \<times> udp_listener) option" where
  "udp_recv e pl =
     (case udp_ReadMessage e (fst pl) new_message (snd pl) of
        (Ok _, (m, l)) \<Rightarrow> Some (packet_of m, (fst pl, l)) | _ \<Rightarrow> None)"

definition udp_pending :: "nat \<times> udp_listener \<Rightarrow> bytes list" where
  "udp_pending pl = (case ul_objs (snd pl) (fst pl) of None \<Rightarrow> [] | Some c \<Rightarrow> items (uc_msgs c))"

definition head_ok :: "env \<Rightarrow> bytes option \<Rightarrow> bool" where
  "head_ok e h \<longleftrightarrow>
     length (case h of None \<Rightarrow> replicate (HeadLen (opts e)) 0 | Some h \<Rightarrow> h) = messageHeadSize"

definition udp_conn_inv :: "env \<Rightarrow> nat \<times> udp_listener \<Rightarrow> bool" where
  "udp_conn_inv e pl \<longleftrightarrow> (\<exists>c. ul_objs (snd pl) (fst pl) = Some c \<and> head_ok e (uc_head c))"

lemma udp_ReadMessage_wire:
  assumes inv: "udp_conn_inv e (p, l)" and ok: "datagram_ok e m"
    and pend: "udp_pending (p, l) = wire e m # rest"
  shows "\<exists>m' l' c c'. udp_ReadMessage e p m0 l = (Ok (), (m', l')) \<and> same_message m m' \<and> code m' = code m0
           \<and> udp_pending (p, l') = rest \<and> udp_conn_inv e (p, l')
           \<and> ul_objs l p = Some c \<and> l' = l\<lparr>ul_objs := (ul_objs l)(p \<mapsto> c')\<rparr> \<and> uc_key c' = uc_key c"
proof -
  from inv obtain c where c: "ul_objs l p = Some c" "head_ok e (uc_head c)"
    by (auto simp: udp_conn_inv_def)
  with pend have it: "items (uc_msgs c) = wire e m # rest" by (simp add: udp_pending_def)
  let ?s = "\<lparr>arr = wire e m, slen = length (wire e m)\<rparr>"
  have "wf_slice ?s" "view ?s = wire e m" by (simp_all add: wf_slice_def view_def)
  then obtain m' where m': "Reset e ?s m0 = (Ok (), m')" "same_message m m'" "code m' = code m0"
    using ok Reset_wire [of e m ?s m0] by (auto simp: datagram_ok_def)
  have "messageHeadSize \<le> length (wire e m)"
    using ok length_wire by (simp add: datagram_ok_def)
  then show ?thesis
    using c it m' by (auto simp: udp_ReadMessage_def recv_def udp_pending_def udp_conn_inv_def
        head_ok_def Let_def split: option.splits)
qed

interpretation udp_tr: transport "\<lambda>m. [wire e m]" packet_of "datagram_ok e" "udp_recv e" udp_pending
  "udp_conn_inv e" for e
proof
  fix c m rest
  assume "udp_conn_inv e c" "datagram_ok e m" "udp_pending c = [wire e m] @ rest"
  with udp_ReadMessage_wire [of e "fst c" "snd c" m rest new_message]
  show "\<exists>c'. udp_recv e c = Some (packet_of m, c') \<and> udp_pending c' = rest \<and> udp_conn_inv e c'"
    by (auto simp: udp_recv_def dest: packet_of_same)
qed

end
