(* ===== verification/Decimal.thy ===== *)
theory Decimal
  imports Prelude
begin

text \<open>
  The decimal conversions of the standard library that the Socket.IO packets use: \<open>%d\<close> of a
  non-negative or negative integer, and \<open>strconv.ParseInt(s, 10, 64)\<close> with its two errors and
  the value it returns with each.
\<close>

section \<open>Printing\<close>

definition digit :: "nat \<Rightarrow> byte" where
  "digit d = word_of_nat (48 + d)"

fun show_nat :: "nat \<Rightarrow> bytes" where
  "show_nat n = (if n < 10 then [digit n] else show_nat (n div 10) @ [digit (n mod 10)])"

declare show_nat.simps [simp del]

definition show_int :: "int \<Rightarrow> bytes" where
  "show_int i = (if i < 0 then of_char CHR ''-'' # show_nat (nat (- i)) else show_nat (nat i))"

section \<open>Parsing\<close>

datatype num_err = ErrSyntax | ErrRange

definition is_digit :: "byte \<Rightarrow> bool" where
  "is_digit c \<longleftrightarrow> 48 \<le> c \<and> c \<le> 57"

text \<open>
  The loop of \<open>ParseUint\<close>: a byte that is no digit is a syntax error with value 0; the first
  digit that exceeds 64 bits is a range error with the largest value.
\<close>

fun parse_uint :: "nat \<Rightarrow> bytes \<Rightarrow> nat \<times> num_err option" where
  "parse_uint n [] = (n, None)"
| "parse_uint n (c # cs) =
     (if \<not> is_digit c then (0, Some ErrSyntax)
      else let n' = n * 10 + (unat c - 48) in
        if n' \<ge> 2 ^ 64 then (2 ^ 64 - 1, Some ErrRange) else parse_uint n' cs)"

definition ParseUint :: "bytes \<Rightarrow> nat \<times> num_err option" where
  "ParseUint s = (if s = [] then (0, Some ErrSyntax) else parse_uint 0 s)"

definition signed_result :: "bool \<Rightarrow> nat \<times> num_err option \<Rightarrow> int \<times> num_err option" where
  "signed_result neg r =
     (case r of
        (_, Some ErrSyntax) \<Rightarrow> (0, Some ErrSyntax)
      | (un, _) \<Rightarrow>
          if \<not> neg \<and> un \<ge> 2 ^ 63 then (2 ^ 63 - 1, Some ErrRange)
          else if neg \<and> un > 2 ^ 63 then (- (2 ^ 63), Some ErrRange)
          else (if neg then - int un else int un, None))"

definition ParseInt :: "bytes \<Rightarrow> int \<times> num_err option" where
  "ParseInt s =
     (case s of
        [] \<Rightarrow> (0, Some ErrSyntax)
      | c # cs \<Rightarrow>
          if c = of_char CHR ''+'' then signed_result False (ParseUint cs)
          else if c = of_char CHR ''-'' then signed_result True (ParseUint cs)
          else signed_result False (ParseUint s))"

section \<open>Parsing what was printed\<close>

lemma unat_digit: "d < 10 \<Longrightarrow> unat (digit d) = 48 + d"
  by (simp add: digit_def unat_of_nat del: of_nat_add)

lemma is_digit_digit [simp]: "d < 10 \<Longrightarrow> is_digit (digit d)"
  by (simp add: is_digit_def word_le_nat_alt unat_digit)

lemma show_nat_digits: "c \<in> set (show_nat n) \<Longrightarrow> is_digit c"
proof (induction n rule: show_nat.induct)
  case (1 n)
  then show ?case by (subst (asm) (2) show_nat.simps) (auto split: if_splits)
qed

lemma show_nat_nonempty [simp]: "show_nat n \<noteq> []"
  by (subst show_nat.simps) simp

lemma parse_uint_append:
  "(\<And>c. c \<in> set xs \<Longrightarrow> is_digit c) \<Longrightarrow> parse_uint n xs = (v, None) \<Longrightarrow>
   parse_uint n (xs @ ys) = parse_uint v ys"
  by (induction xs arbitrary: n) (auto simp: Let_def split: if_splits)

lemma parse_uint_show_nat: "n < 2 ^ 64 \<Longrightarrow> parse_uint 0 (show_nat n) = (n, None)"
proof (induction n rule: show_nat.induct)
  case (1 n)
  show ?case
  proof (cases "n < 10")
    case True
    then show ?thesis by (subst show_nat.simps) (simp add: unat_digit)
  next
    case False
    then have "parse_uint 0 (show_nat (n div 10)) = (n div 10, None)"
      using "1" by simp
    from parse_uint_append [OF show_nat_digits this, where ys = "[digit (n mod 10)]"]
    show ?thesis
      using False "1.prems" by (subst show_nat.simps) (simp add: unat_digit)
  qed
qed

lemma is_digit_not_sign:
  "is_digit c \<Longrightarrow> c \<noteq> of_char CHR ''+'' \<and> c \<noteq> of_char CHR ''-'' \<and> c \<noteq> of_char CHR '',''"
  by (auto simp: is_digit_def)

lemma ParseInt_digits:
  assumes "\<And>c. c \<in> set s \<Longrightarrow> is_digit c" and "s \<noteq> []"
  shows "ParseInt s = signed_result False (parse_uint 0 s)"
proof -
  obtain c cs where s: "s = c # cs" using assms(2) by (cases s) auto
  then have "is_digit c" using assms(1) by simp
  from is_digit_not_sign [OF this] show ?thesis by (simp add: s ParseInt_def ParseUint_def)
qed

lemma ParseInt_show_nat: "n < 2 ^ 63 \<Longrightarrow> ParseInt (show_nat n) = (int n, None)"
  using parse_uint_show_nat [of n]
  by (simp add: ParseInt_digits show_nat_digits signed_result_def)

lemma ParseInt_Nil [simp]: "ParseInt [] = (0, Some ErrSyntax)"
  by (simp add: ParseInt_def)

end
