(* ===== verification/SocketIO.thy ===== *)
theory SocketIO
  imports MessageLaws Decimal
begin

text \<open>
  \<open>wss/socket.io.go\<close>: the converter between Socket.IO packets and messages, with the packet
  builders. A handler returns its outcome with the message and what it did to the socket.
\<close>

section \<open>State\<close>

datatype ws_type = TextMessage | BinaryMessage | CloseMessage | PingMessage | PongMessage

text \<open>
  What the converter uses of \<open>listener.Socket\<close>: its id, whether it still has a connection (another
  goroutine's \<open>disconnect\<close> takes it away), the frames written on its websocket (which fail with
  \<open>sx_fault\<close> when that is set) and the errors reported with \<open>Errorf\<close>.
\<close>

record sock_ctx =
  sx_id :: u64
  sx_conn :: bool
  sx_out :: "(ws_type \<times> bytes) list"
  sx_fault :: "err option"
  sx_errs :: "(string \<times> byte) list"

record socket_io =
  Namespace :: bytes

definition NewSocketIO :: "bytes list \<Rightarrow> socket_io" where
  "NewSocketIO namespace =
     (case namespace of [] \<Rightarrow> \<lparr>Namespace = str ''/''\<rparr> | n # _ \<Rightarrow> \<lparr>Namespace = n\<rparr>)"

type_synonym sio = "(unit, message \<times> sock_ctx) run"

definition ws_write :: "ws_type \<Rightarrow> bytes \<Rightarrow> sock_ctx \<Rightarrow> (unit, sock_ctx) run" where
  "ws_write t b x =
     (case sx_fault x of
        Some er \<Rightarrow> (Err er, x)
      | None \<Rightarrow> (Ok (), x\<lparr>sx_out := sx_out x @ [(t, b)]\<rparr>))"

section \<open>The packet handlers\<close>

definition connect_ns :: "bytes \<Rightarrow> bytes \<Rightarrow> bytes" where
  "connect_ns dflt data =
     (case index_byte data (of_char CHR ''/'') of
        None \<Rightarrow> dflt
      | Some i \<Rightarrow>
          (case index_byte (drop i data) (of_char CHR '','') of
             Some j \<Rightarrow> take j (drop i data)
           | None \<Rightarrow> drop i data))"

text \<open>The type assertion on the connection panics when the socket has none.\<close>

definition handleConnect :: "socket_io \<Rightarrow> sock_ctx \<Rightarrow> message \<Rightarrow> bytes \<Rightarrow> sio" where
  \<open>handleConnect t x m data =
     (let ns = connect_ns (Namespace t) data;
          response = str ''{"sid": "'' @ show_nat (unat (sx_id x))
            @ str ''", "upgrades": ["websocket"], "pingInterval": 25000, "pingTimeout": 5000}'';
          packet = str ''0'' @ ns @ str '','' @ response
      in if \<not> sx_conn x then (Panic, (m, x))
         else case ws_write TextMessage packet x of (r, x) \<Rightarrow> (r, (m, x)))\<close>

definition handleDisconnect :: "socket_io \<Rightarrow> sock_ctx \<Rightarrow> message \<Rightarrow> bytes \<Rightarrow> sio" where
  "handleDisconnect t x m data = (Err ErrNetClosed, (m, x))"

text \<open>
  The optional acknowledgement number in front of the data. A number beyond 64 bits is an
  error, after which the data is kept whole but the number is the largest one.
\<close>

definition parse_ack :: "bytes \<Rightarrow> bytes \<times> int" where
  "parse_ack rem =
     (if rem \<noteq> [] \<and> is_digit (hd rem) then
        (case index_byte rem (of_char CHR '','') of
           Some i \<Rightarrow>
             if i > 0 then
               (case ParseInt (take i rem) of
                  (v, None) \<Rightarrow> (drop (Suc i) rem, v)
                | (v, Some _) \<Rightarrow> (rem, v))
             else (rem, 0)
         | None \<Rightarrow> (rem, 0))
      else (rem, 0))"

text \<open>The message an event stands for; the number is cut to 32 bits.\<close>

definition event_message :: "env \<Rightarrow> bytes \<Rightarrow> bytes \<Rightarrow> message \<Rightarrow> (unit, message) run" where
  "event_message e eventName rem m =
     (case parse_ack rem of (eventData, ackId) \<Rightarrow>
        Marshal e MagicNumberPathJson (if ackId = 0 then FlagNoreply else 0) (word_of_int ackId)
          (PathString eventName) (VBytes eventData) m)"

definition handleEvent :: "env \<Rightarrow> sock_ctx \<Rightarrow> message \<Rightarrow> bytes \<Rightarrow> sio" where
  "handleEvent e x m data =
     (case index_byte data (of_char CHR '','') of
        None \<Rightarrow> (Err (ErrNew ''invalid event packet format: missing comma''), (m, x))
      | Some i \<Rightarrow>
          (case event_message e (take i data) (drop (Suc i) data) m of (r, m) \<Rightarrow> (r, (m, x))))"

definition handleAck :: "sock_ctx \<Rightarrow> message \<Rightarrow> bytes \<Rightarrow> sio" where
  "handleAck x m data =
     (case index_byte data (of_char CHR ''/'') of
        None \<Rightarrow> (Err (ErrNew ''invalid ack packet format: missing slash''), (m, x))
      | Some i \<Rightarrow>
          (case snd (ParseInt (take i data)) of
             Some _ \<Rightarrow> (Err (ErrNew ''invalid ack id''), (m, x))
           | None \<Rightarrow> (Ok (), (m, x))))"

text \<open>\<open>strconv.Atoi\<close> agrees with \<open>ParseInt\<close> on a 64-bit platform.\<close>

definition handleBinaryEvent :: "env \<Rightarrow> sock_ctx \<Rightarrow> message \<Rightarrow> bytes \<Rightarrow> sio" where
  "handleBinaryEvent e x m data =
     (case index_byte data (of_char CHR ''-'') of
        None \<Rightarrow> (Err (ErrNew ''invalid binary event packet format: missing dash''), (m, x))
      | Some i \<Rightarrow>
          (case snd (ParseInt (take i data)) of
             Some _ \<Rightarrow> (Err (ErrNew ''invalid attachments count''), (m, x))
           | None \<Rightarrow>
               let rem = drop (Suc i) data in
               (case index_byte rem (of_char CHR '','') of
                  None \<Rightarrow> (Err (ErrNew ''invalid binary event packet format: missing comma''), (m, x))
                | Some j \<Rightarrow>
                    (case event_message e (take j rem) (drop (Suc j) rem) m of
                       (r, m) \<Rightarrow> (r, (m, x))))))"

definition sio_ReadMessage :: "env \<Rightarrow> socket_io \<Rightarrow> sock_ctx \<Rightarrow> message \<Rightarrow> bytes \<Rightarrow> sio" where
  "sio_ReadMessage e t x m data =
     (case data of
        [] \<Rightarrow> (Err (ErrNew ''empty packet''), (m, x))
      | c # rest \<Rightarrow>
          let packetType = c - of_char CHR ''0'' in
          if packetType = 0 then handleConnect t x m rest
          else if packetType = 1 then handleDisconnect t x m rest
          else if packetType = 2 then handleEvent e x m rest
          else if packetType = 3 then handleAck x m rest
          else if packetType = 5 then handleBinaryEvent e x m rest
          else (Ok (), (m, x\<lparr>sx_errs := sx_errs x @ [(''unsupported packet type'', packetType)]\<rparr>)))"

text \<open>Reading path and body caches the code in the message, which is returned.\<close>

definition sio_WriteMessage :: "env \<Rightarrow> message \<Rightarrow> (bytes, message) run" where
  "sio_WriteMessage e m =
     and_then (Path e m) (\<lambda>(path, _) m. and_then (Body e m) (\<lambda>body m.
       (Ok (if Has (h_flag m) FlagConfirm
            then str ''3/'' @ show_int (sint (h_index m)) @ str '','' @ body
            else str ''2/'' @ path @ str '','' @ body), m)))"

section \<open>The packet builders\<close>

definition namespace_arg :: "socket_io \<Rightarrow> bytes list \<Rightarrow> bytes" where
  "namespace_arg t ns = (case ns of [] \<Rightarrow> Namespace t | n # _ \<Rightarrow> n)"

definition BuildConnectPacket :: "socket_io \<Rightarrow> bytes list \<Rightarrow> bytes" where
  "BuildConnectPacket t ns = str ''0/'' @ namespace_arg t ns"

definition BuildDisconnectPacket :: "socket_io \<Rightarrow> bytes list \<Rightarrow> bytes" where
  "BuildDisconnectPacket t ns = str ''1/'' @ namespace_arg t ns"

definition event_tail :: "bytes \<Rightarrow> bytes \<Rightarrow> i64 list \<Rightarrow> bytes" where
  "event_tail eventName data ackId =
     (if ackId \<noteq> [] \<and> sint (hd ackId) > 0
      then eventName @ str '','' @ show_int (sint (hd ackId)) @ str '','' @ data
      else eventName @ str '','' @ data)"

definition BuildEventPacket :: "bytes \<Rightarrow> bytes \<Rightarrow> i64 list \<Rightarrow> bytes" where
  "BuildEventPacket eventName data ackId = str ''2/'' @ event_tail eventName data ackId"

definition BuildAckPacket :: "i64 \<Rightarrow> bytes \<Rightarrow> bytes" where
  "BuildAckPacket ackId data = str ''3/'' @ show_int (sint ackId) @ str '','' @ data"

definition BuildBinaryEventPacket :: "i64 \<Rightarrow> bytes \<Rightarrow> bytes \<Rightarrow> i64 list \<Rightarrow> bytes" where
  "BuildBinaryEventPacket attachments eventName data ackId =
     str ''5-'' @ show_int (sint attachments) @ str ''/'' @ event_tail eventName data ackId"

section \<open>Reading what was built\<close>

lemma hd_show_nat: "is_digit (hd (show_nat n))"
  using show_nat_digits [of "hd (show_nat n)" n] by simp

lemma comma_not_in_show_nat: "of_char CHR '','' \<notin> set (show_nat n)"
  using show_nat_digits is_digit_not_sign by blast

lemma parse_ack_number:
  assumes "n < 2 ^ 63"
  shows "parse_ack (show_nat n @ str '','' @ d) = (d, int n)"
proof -
  have "index_byte (show_nat n @ of_char CHR '','' # d) (of_char CHR '','') = Some (length (show_nat n))"
    using comma_not_in_show_nat by (rule index_byte_first)
  then show ?thesis
    using assms hd_show_nat [of n] ParseInt_show_nat [of n]
    by (simp add: parse_ack_def hd_append)
qed

text \<open>Data that does not start with a digit carries no number.\<close>

lemma parse_ack_none: "d = [] \<or> \<not> is_digit (hd d) \<Longrightarrow> parse_ack d = (d, 0)"
  by (auto simp: parse_ack_def)

lemma handleEvent_split:
  assumes "of_char CHR '','' \<notin> set name"
  shows "handleEvent e x m (str ''/'' @ name @ str '','' @ rem) =
    (case event_message e (str ''/'' @ name) rem m of (r, m) \<Rightarrow> (r, (m, x)))"
proof -
  have "of_char CHR '','' \<notin> set (str ''/'' @ name)" using assms by simp
  from index_byte_first [OF this, of rem]
  have "index_byte (str ''/'' @ name @ str '','' @ rem) (of_char CHR '','') = Some (Suc (length name))"
    by simp
  then show ?thesis by (simp add: handleEvent_def)
qed

lemma sio_ReadMessage_event: "sio_ReadMessage e t x m (str ''2'' @ rest) = handleEvent e x m rest"
  by (simp add: sio_ReadMessage_def)

text \<open>The magic number of the events is registered in path mode, and the object is a fresh one.\<close>

definition event_ready :: "env \<Rightarrow> message \<Rightarrow> bool" where
  "event_ready e m \<longleftrightarrow>
     (\<exists>mg. Magics e MagicNumberPathJson = Some mg \<and> Type mg = MagicTypePath)
     \<and> room_ok e m \<and> code m = 0"

text \<open>A message that carries an event.\<close>

definition is_event :: "env \<Rightarrow> bytes \<Rightarrow> bytes \<Rightarrow> flag \<Rightarrow> i32 \<Rightarrow> message \<Rightarrow> bool" where
  "is_event e path body fl ix m \<longleftrightarrow>
     fst (Path e m) = Ok (split_query path) \<and> fst (Body e m) = Ok body
     \<and> h_flag m = fl \<and> h_index m = ix \<and> h_magic m = MagicNumberPathJson"

lemma event_message_is_event:
  assumes "event_ready e m" and "parse_ack rem = (d, n)" and "path \<noteq> []" and "length path < 2 ^ 31"
  shows "\<exists>m'. event_message e path rem m = (Ok (), m')
           \<and> is_event e path d (if n = 0 then FlagNoreply else 0) (word_of_int n) m'"
proof -
  let ?fl = "if n = 0 then FlagNoreply else 0"
  obtain mg where mg: "Magics e MagicNumberPathJson = Some mg" "Type mg = MagicTypePath"
    using assms(1) by (auto simp: event_ready_def)
  have "room_ok e m" and "code m = 0" using assms(1) by (simp_all add: event_ready_def)
  from Marshal_holds_path [OF mg this assms(3,4)]
  obtain s where s: "Marshal e MagicNumberPathJson ?fl (word_of_int n) (PathString path) (VBytes d) m
        = (Ok (), marshalled MagicNumberPathJson ?fl (word_of_int n) s m)"
    and h: "holds_path e mg path d (marshalled MagicNumberPathJson ?fl (word_of_int n) s m)"
    by blast
  then show ?thesis
    using assms(2) holds_path_Path [OF h] holds_path_Body [OF h]
    by (simp add: event_message_def is_event_def) (simp add: marshalled_def)
qed

text \<open>An event comes back with a slash in front of its name.\<close>

lemma sio_event_read:
  assumes "event_ready e m" and "of_char CHR '','' \<notin> set name" and "length name < 2 ^ 31 - 1"
    and "parse_ack rem = (d, n)"
  shows "\<exists>m'. sio_ReadMessage e t x m (str ''2/'' @ name @ str '','' @ rem) = (Ok (), (m', x))
           \<and> is_event e (str ''/'' @ name) d (if n = 0 then FlagNoreply else 0) (word_of_int n) m'"
proof -
  have "length (str ''/'' @ name) < 2 ^ 31" using assms(3) by simp
  from event_message_is_event [OF assms(1,4) _ this]
  obtain m' where m': "event_message e (str ''/'' @ name) rem m = (Ok (), m')"
    "is_event e (str ''/'' @ name) d (if n = 0 then FlagNoreply else 0) (word_of_int n) m'"
    by auto
  have "sio_ReadMessage e t x m (str ''2/'' @ name @ str '','' @ rem)
      = handleEvent e x m (str ''/'' @ name @ str '','' @ rem)"
    using sio_ReadMessage_event [of e t x m "str ''/'' @ name @ str '','' @ rem"] by simp
  with m' show ?thesis
    by (simp only: handleEvent_split [OF assms(2)]) simp
qed

lemma show_int_pos: "0 < n \<Longrightarrow> n < 2 ^ 63 \<Longrightarrow> show_int (sint (word_of_nat n :: i64)) = show_nat n"
  by (simp add: sint_word_of_nat64 show_int_def)

end
