(* ===== verification/Wss.thy ===== *)
theory Wss
  imports Transport SocketIO Chan
begin

text \<open>
  \<open>wss/conn.go\<close>, \<open>wss/options.go\<close> and \<open>wss/listener.go\<close>: messages over websocket frames, the
  pluggable converter, the origin check and the queue of upgraded connections. The websocket
  library delivers frames until it fails with \<open>wc_end\<close>.
\<close>

section \<open>The converter\<close>

datatype transform = DefaultTransform | SocketIOTransform socket_io

definition transform_ReadMessage ::
  "env \<Rightarrow> transform \<Rightarrow> sock_ctx \<Rightarrow> message \<Rightarrow> bytes \<Rightarrow> sio" where
  "transform_ReadMessage e tr x m data =
     (case tr of
        DefaultTransform \<Rightarrow>
          (case Reset e \<lparr>arr = data, slen = length data\<rparr> m of (r, m) \<Rightarrow> (r, (m, x)))
      | SocketIOTransform t \<Rightarrow> sio_ReadMessage e t x m data)"

text \<open>The bytes put into the buffer.\<close>

definition transform_WriteMessage :: "env \<Rightarrow> transform \<Rightarrow> message \<Rightarrow> (bytes, message) run" where
  "transform_WriteMessage e tr m =
     (case tr of
        DefaultTransform \<Rightarrow>
          (case Bytes e m True buffer_writer of (r, w) \<Rightarrow> (map_outcome (\<lambda>_. wrote w) r, m))
      | SocketIOTransform t \<Rightarrow> sio_WriteMessage e m)"

section \<open>The connection\<close>

record wss_conn =
  wc_in :: "(ws_type \<times> bytes) list"
  wc_end :: err
  wc_ctx :: sock_ctx

definition wss_ReadMessage ::
  "env \<Rightarrow> transform \<Rightarrow> wss_conn \<Rightarrow> message \<Rightarrow> (unit, message \<times> wss_conn) run" where
  "wss_ReadMessage e tr c m =
     (case wc_in c of
        [] \<Rightarrow> (Err (wc_end c), (m, c))
      | (t, b) # fs \<Rightarrow>
          let c = c\<lparr>wc_in := fs\<rparr> in
          if t = CloseMessage then (Err ErrNetClosed, (m, c))
          else if t \<noteq> BinaryMessage \<and> t \<noteq> TextMessage
          then (Err (ErrNew ''wss conn ReadMessage not support''), (m, c))
          else if b = [] then (Err ErrEOF, (m, c))
          else (case transform_ReadMessage e tr (wc_ctx c) m b of
                  (r, (m, x)) \<Rightarrow> (r, (m, c\<lparr>wc_ctx := x\<rparr>))))"

definition wss_WriteMessage ::
  "env \<Rightarrow> transform \<Rightarrow> wss_conn \<Rightarrow> message \<Rightarrow> (unit, message \<times> wss_conn) run" where
  "wss_WriteMessage e tr c m =
     (case transform_WriteMessage e tr m of
        (Ok b, m) \<Rightarrow>
          if b = [] then (Ok (), (m, c))
          else (case ws_write BinaryMessage b (wc_ctx c) of
                  (r, x) \<Rightarrow> (r, (m, c\<lparr>wc_ctx := x\<rparr>)))
      | (r, m) \<Rightarrow> (done_with r, (m, c)))"

definition wss_conn_Read :: "(nat, unit) run" where
  "wss_conn_Read = (Err (ErrNew ''wss conn Read not support''), ())"

definition wss_conn_Write :: "bytes \<Rightarrow> wss_conn \<Rightarrow> (nat, wss_conn) run" where
  "wss_conn_Write b c =
     (case ws_write BinaryMessage b (wc_ctx c) of
        (r, x) \<Rightarrow> (map_outcome (\<lambda>_. length b) r, c\<lparr>wc_ctx := x\<rparr>))"

section \<open>The listener\<close>

text \<open>An empty list of origins allows every request; else the host of the URL has to be listed.\<close>

definition AccessControlAllow :: "bytes list \<Rightarrow> bytes \<Rightarrow> bool" where
  "AccessControlAllow origin host \<longleftrightarrow>
     origin = [] \<or> list_ex (\<lambda>x. x = str ''*'' \<or> x = host) origin"

datatype http_act = WriteHeader nat | WriteBody bytes | WriteErr err | CloseConn nat

record wss_listener =
  wl_err :: "err option"
  wl_route :: bytes
  wl_connChan :: "nat chan"

definition HTTPErrorHandler :: "bool \<Rightarrow> err \<Rightarrow> http_act list" where
  "HTTPErrorHandler is_head er = WriteHeader 500 # (if is_head then [] else [WriteErr er])"

text \<open>
  One request: \<open>stopped\<close> is the state of the process, \<open>is_head\<close> and \<open>url_path\<close> come from the
  request, \<open>upgraded\<close> is what the websocket library makes of it. The answer is the list of
  what is written and closed.
\<close>

definition ServeHTTP ::
  "bool \<Rightarrow> bool \<Rightarrow> bytes \<Rightarrow> err + nat \<Rightarrow> wss_listener \<Rightarrow> (http_act list, wss_listener) run" where
  "ServeHTTP stopped is_head url_path upgraded l =
     (if stopped then (Ok (HTTPErrorHandler is_head (ErrNew ''server is stopped'')), l)
      else if wl_route l \<noteq> [] \<and> url_path \<noteq> wl_route l
      then (Ok [WriteHeader 404, WriteBody (str ''404 page not found'')], l)
      else case upgraded of
        Inl er \<Rightarrow> (Ok (HTTPErrorHandler is_head er), l)
      | Inr conn \<Rightarrow>
          (case try_send conn (wl_connChan l) of
             (Ok True, ch) \<Rightarrow> (Ok [], l\<lparr>wl_connChan := ch\<rparr>)
           | (Ok False, _) \<Rightarrow>
               (Ok (HTTPErrorHandler is_head (ErrNew ''connection channel full'') @ [CloseConn conn]), l)
           | (r, _) \<Rightarrow> (map_outcome (\<lambda>_. []) r, l)))"

text \<open>The channel is never closed, so only \<open>Some\<close> connections come out of it.\<close>

definition wss_Accept :: "wss_listener \<Rightarrow> (nat option, wss_listener) run" where
  "wss_Accept l =
     (case wl_err l of
        Some er \<Rightarrow> (Err er, l)
      | None \<Rightarrow> (case recv (wl_connChan l) of (r, ch) \<Rightarrow> (r, l\<lparr>wl_connChan := ch\<rparr>)))"

section \<open>Reading what was written\<close>

definition wss_recv :: "env \<Rightarrow> wss_conn \<Rightarrow> (packet \<times> wss_conn) option" where
  "wss_recv e c =
     (case wss_ReadMessage e DefaultTransform c new_message of
        (Ok _, (m, c)) \<Rightarrow> Some (packet_of m, c) | _ \<Rightarrow> None)"

lemma wss_ReadMessage_wire:
  assumes ok: "datagram_ok e m" and pend: "wc_in c = (BinaryMessage, wire e m) # rest"
  shows "\<exists>m'. wss_ReadMessage e DefaultTransform c m0 = (Ok (), (m', c\<lparr>wc_in := rest\<rparr>))
           \<and> same_message m m' \<and> code m' = code m0"
proof -
  let ?s = "\<lparr>arr = wire e m, slen = length (wire e m)\<rparr>"
  have "wf_slice ?s" "view ?s = wire e m" by (simp_all add: wf_slice_def view_def)
  then obtain m' where m': "Reset e ?s m0 = (Ok (), m')" "same_message m m'" "code m' = code m0"
    using ok Reset_wire [of e m ?s m0] by (auto simp: datagram_ok_def)
  have "wire e m \<noteq> []"
    using ok length_wire [of e m] by (auto simp: datagram_ok_def messageHeadSize_def)
  then show ?thesis
    using pend m' by (simp add: wss_ReadMessage_def transform_ReadMessage_def)
qed

interpretation wss: transport "\<lambda>m. [(BinaryMessage, wire e m)]" packet_of "datagram_ok e"
  "wss_recv e" wc_in "\<lambda>c :: wss_conn. True" for e
proof
  fix c :: wss_conn and m rest
  assume "datagram_ok e m" "wc_in c = [(BinaryMessage, wire e m)] @ rest"
  with wss_ReadMessage_wire [of e m c rest new_message]
  show "\<exists>c'. wss_recv e c = Some (packet_of m, c') \<and> wc_in c' = rest \<and> True"
    by (auto simp: wss_recv_def dest: packet_of_same)
qed

end
