(* ===== verification/Pool.thy ===== *)
theory Pool
  imports MessageLaws
begin

text \<open>
  \<open>message/pool.go\<close>: the message pool. \<open>sync.Pool\<close> hands out any object that was put back, or a
  new one; which one is the argument \<open>k\<close> of \<open>Require\<close>.
\<close>

type_synonym pool = "message list"

definition Require :: "env \<Rightarrow> nat option \<Rightarrow> pool \<Rightarrow> message \<times> pool" where
  "Require e k pool =
     (if Pool (opts e) then
        (case k of
           Some i \<Rightarrow> if i < length pool then (pool ! i, take i pool @ drop (Suc i) pool)
                     else (new_message, pool)
         | None \<Rightarrow> (new_message, pool))
      else (new_message, pool))"

text \<open>A nil message is \<open>None\<close>.\<close>

definition Release :: "env \<Rightarrow> message option \<Rightarrow> pool \<Rightarrow> (unit, pool) run" where
  "Release e i pool =
     (case i of
        None \<Rightarrow> (Ok (), pool)
      | Some m \<Rightarrow>
          if Pool (opts e) then
            (case message_Release e m of
               (Ok _, m) \<Rightarrow> (Ok (), m # pool)
             | (x, _) \<Rightarrow> (done_with x, pool))
          else (Ok (), pool))"

section \<open>What the pool hands out\<close>

text \<open>
  An object as \<open>Release\<close> leaves it: no head, no cached code, no bytes, and an array within the
  configured capacity. The array still holds the bytes of its last use.
\<close>

definition clean :: "env \<Rightarrow> message \<Rightarrow> bool" where
  "clean e m \<longleftrightarrow>
     h_magic m = 0 \<and> h_flag m = 0 \<and> h_size m = 0 \<and> h_index m = 0 \<and> code m = 0
     \<and> slen (mbytes m) = 0 \<and> int (scap (mbytes m)) \<le> max 0 (Capacity (opts e))"

lemma clean_new: "clean e new_message"
  by (simp add: clean_def new_message_def nil_slice_def scap_def)

lemma message_Release_clean:
  "message_Release e m = (Ok (), m') \<Longrightarrow> clean e m'"
  by (auto simp: message_Release_def head_Release_def clean_def make_slice_def scap_def Let_def
      split: if_splits)

lemma message_Release_ok:
  "0 \<le> Capacity (opts e) \<Longrightarrow> \<exists>m'. message_Release e m = (Ok (), m')"
  by (auto simp: message_Release_def make_slice_def Let_def)

lemma clean_room: "clean e m \<Longrightarrow> 4 \<le> Capacity (opts e) \<Longrightarrow> room_ok e m"
  by (simp add: clean_def room_ok_def wf_slice_def)

definition clean_pool :: "env \<Rightarrow> pool \<Rightarrow> bool" where
  "clean_pool e pool \<longleftrightarrow> (\<forall>m \<in> set pool. clean e m)"

text \<open>The two operations as the steps of any user of the pool.\<close>

inductive pool_step :: "env \<Rightarrow> pool \<Rightarrow> pool \<Rightarrow> bool" for e where
  require: "Require e k pool = (m, pool') \<Longrightarrow> pool_step e pool pool'"
| release: "Release e i pool = (x, pool') \<Longrightarrow> pool_step e pool pool'"

lemma Require_clean:
  assumes "clean_pool e pool" and "Require e k pool = (m, pool')"
  shows "clean e m \<and> clean_pool e pool'"
  using assms clean_new [of e]
  by (auto simp: Require_def clean_pool_def split: option.splits if_splits)
    (meson in_set_takeD in_set_dropD)+

lemma Release_clean:
  "clean_pool e pool \<Longrightarrow> Release e i pool = (x, pool') \<Longrightarrow> clean_pool e pool'"
  by (auto simp: Release_def clean_pool_def dest: message_Release_clean
      split: option.splits if_splits prod.splits outcome.splits)

interpretation pl: step_invariant "pool_step e" "clean_pool e" for e
  by unfold_locales (auto elim!: pool_step.cases dest: Require_clean Release_clean)

end
