(* ===== verification/Socket.thy ===== *)
theory Socket
  imports Pool Chan
begin

text \<open>
  \<open>socket.go\<close>, \<open>events.go\<close> and \<open>options.go\<close>, with the state of \<open>sockets.go\<close> that they work on:
  the sockets, the table that holds them, the event listeners, and what the code does to the
  outside (callbacks made, connections closed, goroutines started). Each function here is one
  call run without interruption; the interleavings of \<open>disconnect\<close> are in \<open>Lifecycle\<close>.
\<close>

section \<open>Options and events\<close>

record config =
  Heartbeat :: i32
  WriteChanSize :: i32
  ConnectMaxSize :: i32
  SocketConnectTime :: i32
  SocketReplacedTime :: i32
  ClientReconnectMax :: i32
  ClientReconnectTime :: i32
  ClientReconnectMaxDelay :: i32

definition Config_default :: config where
  "Config_default =
     \<lparr>Heartbeat = 10, WriteChanSize = 100, ConnectMaxSize = 100000, SocketConnectTime = 30,
      SocketReplacedTime = 5, ClientReconnectMax = 10, ClientReconnectTime = 1000,
      ClientReconnectMaxDelay = 30000\<rparr>"

datatype event_type =
    EventTypeError
  | EventTypeHeartbeat
  | EventTypeMessage
  | EventTypeConnected
  | EventTypeReconnected
  | EventTypeDisconnect
  | EventTypeAuthentication
  | EventTypeReplaced

text \<open>The second argument of a listener; without one the code passes nil.\<close>

datatype attachment =
    ANil
  | AInt i32
  | ABool bool
  | ABytes bytes
  | AMessage message
  | AErr err

section \<open>State\<close>

datatype status =
    SocketStatusNone
  | SocketStatusConnected
  | SocketStatusClosing
  | SocketStatusDisconnect
  | SocketStatusDisconnected
  | SocketStatusReconnecting
  | SocketStatusReleased

text \<open>The constants are the numbers 0 to 6, in this order.\<close>

fun status_num :: "status \<Rightarrow> nat" where
  "status_num SocketStatusNone = 0"
| "status_num SocketStatusConnected = 1"
| "status_num SocketStatusClosing = 2"
| "status_num SocketStatusDisconnect = 3"
| "status_num SocketStatusDisconnected = 4"
| "status_num SocketStatusReconnecting = 5"
| "status_num SocketStatusReleased = 6"

lemma status_num_inj: "status_num a = status_num b \<Longrightarrow> a = b"
  by (cases a; cases b) simp_all

instantiation status :: linorder
begin

definition less_eq_status :: "status \<Rightarrow> status \<Rightarrow> bool" where
  "less_eq_status a b \<longleftrightarrow> status_num a \<le> status_num b"

definition less_status :: "status \<Rightarrow> status \<Rightarrow> bool" where
  "less_status a b \<longleftrightarrow> status_num a < status_num b"

instance
  by intro_classes (auto simp: less_eq_status_def less_status_def intro: status_num_inj)

end

text \<open>
  \<open>sk_stop\<close> is the current stop channel: nil (\<open>None\<close>) before the first connection, else whether
  it is closed. Connections and session data are known by numbers, a nil one is \<open>None\<close>.
\<close>

record socket =
  sk_id :: u64
  sk_conn :: "nat option"
  sk_data :: "nat option"
  sk_stop :: "bool option"
  sk_magic :: byte
  sk_cwrite :: "message chan"
  sk_status :: status
  sk_address :: bytes
  sk_heartbeat :: i32

datatype socket_type = SocketTypeNone | SocketTypeClient | SocketTypeServer

text \<open>Goroutines the code starts: a read loop, a write loop and a reconnection per socket.\<close>

datatype task = TRead nat | TWrite nat | TReconnect nat | TDaemon | TAccept nat

record call =
  c_fun :: nat
  c_sock :: "nat option"
  c_arg :: attachment

text \<open>
  The manager. Sockets are numbered by \<open>ss_next\<close> (the number is the pointer), \<open>ss_sockets\<close> is
  the table from ids to them. \<open>ss_opts\<close> is the manager's own copy of the options and \<open>gl_opts\<close>
  the package variable. The last fields record what the code did to the outside: the calls of
  the listeners, the connections closed, the goroutines started and not yet over, the session
  data kept alive; and the message pool.
\<close>

record sockets =
  ss_index :: u64
  ss_count :: i64
  ss_started :: bool
  ss_sockets :: "u64 \<rightharpoonup> nat"
  ss_emitter :: "event_type \<Rightarrow> nat list"
  ss_instance :: "nat list"
  ss_opts :: config
  gl_opts :: config
  ss_heap :: "nat \<rightharpoonup> socket"
  ss_next :: nat
  ss_calls :: "call list"
  ss_closed :: "nat list"
  ss_tasks :: "task list"
  ss_kept :: "nat list"
  ss_pool :: pool

text \<open>Reading and writing through a socket pointer.\<close>

definition sock :: "nat \<Rightarrow> sockets \<Rightarrow> socket" where
  "sock p s = the (ss_heap s p)"

definition upd :: "nat \<Rightarrow> (socket \<Rightarrow> socket) \<Rightarrow> sockets \<Rightarrow> sockets" where
  "upd p f s = s\<lparr>ss_heap := (ss_heap s)(p := map_option f (ss_heap s p))\<rparr>"

section \<open>Events\<close>

definition On :: "event_type \<Rightarrow> nat \<Rightarrow> sockets \<Rightarrow> sockets" where
  "On ev f s = s\<lparr>ss_emitter := (ss_emitter s)(ev := ss_emitter s ev @ [f])\<rparr>"

definition Emit :: "event_type \<Rightarrow> nat option \<Rightarrow> attachment list \<Rightarrow> sockets \<Rightarrow> sockets" where
  "Emit ev p attach s =
     (let v = (case attach of [] \<Rightarrow> ANil | a # _ \<Rightarrow> a) in
      s\<lparr>ss_calls := ss_calls s @ map (\<lambda>f. \<lparr>c_fun = f, c_sock = p, c_arg = v\<rparr>) (ss_emitter s ev)\<rparr>)"

definition sock_Emit :: "event_type \<Rightarrow> attachment list \<Rightarrow> nat \<Rightarrow> sockets \<Rightarrow> sockets" where
  "sock_Emit ev attach p s = Emit ev (Some p) attach s"

definition Errorf :: "nat option \<Rightarrow> err \<Rightarrow> sockets \<Rightarrow> sockets" where
  "Errorf p er s = Emit EventTypeError p [AErr er] s"

definition go_start :: "task list \<Rightarrow> sockets \<Rightarrow> sockets" where
  "go_start ts s = s\<lparr>ss_tasks := ss_tasks s @ ts\<rparr>"

section \<open>Connecting and disconnecting\<close>

definition connect :: "nat \<Rightarrow> nat \<Rightarrow> sockets \<Rightarrow> sockets" where
  "connect p conn s =
     go_start [TRead p, TWrite p]
       (sock_Emit EventTypeConnected [] p
         (upd p (\<lambda>k. k\<lparr>sk_conn := Some conn, sk_stop := Some False,
                      sk_status := SocketStatusConnected, sk_heartbeat := 0\<rparr>) s))"

definition isValidStatus :: "status \<Rightarrow> bool" where
  "isValidStatus st \<longleftrightarrow>
     st = SocketStatusNone \<or> st = SocketStatusConnected \<or> st = SocketStatusClosing"

definition sock_Type :: "socket \<Rightarrow> socket_type" where
  "sock_Type k = (if sk_address k \<noteq> [] then SocketTypeClient else SocketTypeServer)"

text \<open>Emptying the write queue into the pool.\<close>

fun drain :: "env \<Rightarrow> message list \<Rightarrow> pool \<Rightarrow> (unit, message list \<times> pool) run" where
  "drain e [] pool = (Ok (), ([], pool))"
| "drain e (m # ms) pool =
     (case Release e (Some m) pool of
        (Ok _, pool) \<Rightarrow> drain e ms pool
      | (x, pool) \<Rightarrow> (done_with x, (ms, pool)))"

definition release :: "env \<Rightarrow> nat \<Rightarrow> sockets \<Rightarrow> (unit, sockets) run" where
  "release e p s =
     (let s = upd p (\<lambda>k. k\<lparr>sk_status := SocketStatusReleased\<rparr>) s;
          s = s\<lparr>ss_count := ss_count s - 1\<rparr>;
          s = s\<lparr>ss_sockets := (ss_sockets s)(sk_id (sock p s) := None)\<rparr>;
          s = upd p (\<lambda>k. k\<lparr>sk_data := None\<rparr>) s in
      case drain e (items (sk_cwrite (sock p s))) (ss_pool s) of
        (x, (ms, pool)) \<Rightarrow>
          (x, upd p (\<lambda>k. k\<lparr>sk_cwrite := (sk_cwrite k)\<lparr>items := ms\<rparr>\<rparr>) (s\<lparr>ss_pool := pool\<rparr>)))"

definition tryReconnect :: "nat \<Rightarrow> sockets \<Rightarrow> bool \<times> sockets" where
  "tryReconnect p s = (False, go_start [TReconnect p] s)"

text \<open>The reconnection itself, with the connection \<open>tryConnect\<close> found, or none.\<close>

definition reconnect_done :: "env \<Rightarrow> nat \<Rightarrow> nat option \<Rightarrow> sockets \<Rightarrow> (unit, sockets) run" where
  "reconnect_done e p r s =
     (let s = s\<lparr>ss_tasks := remove1 (TReconnect p) (ss_tasks s)\<rparr> in
      case r of Some conn \<Rightarrow> (Ok (), connect p conn s) | None \<Rightarrow> release e p s)"

definition close_conn :: "nat \<Rightarrow> sockets \<Rightarrow> sockets" where
  "close_conn p s =
     (case sk_conn (sock p s) of
        None \<Rightarrow> s
      | Some c \<Rightarrow> upd p (\<lambda>k. k\<lparr>sk_conn := None\<rparr>) (s\<lparr>ss_closed := ss_closed s @ [c]\<rparr>))"

text \<open>
  \<open>disconnect\<close> after its compare-and-swap. Closing a nil or a closed channel panics; the
  deferred \<open>recover\<close> turns a panic into the result false.
\<close>

definition disconnect_body :: "env \<Rightarrow> nat \<Rightarrow> sockets \<Rightarrow> (bool, sockets) run" where
  "disconnect_body e p s =
     (if sk_stop (sock p s) \<noteq> Some False then (Panic, s)
      else
        let s = upd p (\<lambda>k. k\<lparr>sk_stop := Some True\<rparr>) s;
            s = close_conn p s;
            s = sock_Emit EventTypeDisconnect [] p s in
        if sock_Type (sock p s) = SocketTypeClient then
          (case tryReconnect p (upd p (\<lambda>k. k\<lparr>sk_status := SocketStatusReconnecting\<rparr>) s) of
             (b, s) \<Rightarrow> (Ok b, s))
        else
          (case release e p (upd p (\<lambda>k. k\<lparr>sk_status := SocketStatusDisconnected\<rparr>) s) of
             (x, s) \<Rightarrow> (map_outcome (\<lambda>_. True) x, s)))"

definition recovered :: "'a \<Rightarrow> ('a, 's) run \<Rightarrow> ('a, 's) run" where
  "recovered a r = (case r of (Panic, s) \<Rightarrow> (Ok a, s) | _ \<Rightarrow> r)"

definition disconnect :: "env \<Rightarrow> nat \<Rightarrow> sockets \<Rightarrow> (bool, sockets) run" where
  "disconnect e p s =
     (if \<not> isValidStatus (sk_status (sock p s)) then (Ok False, s)
      else recovered False
        (disconnect_body e p (upd p (\<lambda>k. k\<lparr>sk_status := SocketStatusDisconnect\<rparr>) s)))"

section \<open>The calls of an application\<close>

definition Close :: "nat \<Rightarrow> i32 list \<Rightarrow> sockets \<Rightarrow> sockets" where
  "Close p delay s =
     (if sk_status (sock p s) \<noteq> SocketStatusConnected then s
      else
        let s = upd p (\<lambda>k. k\<lparr>sk_status := SocketStatusClosing\<rparr>) s;
            s = upd p (\<lambda>k. k\<lparr>sk_heartbeat := SocketConnectTime (gl_opts s)\<rparr>) s in
        (case delay of
           [] \<Rightarrow> s
         | d # _ \<Rightarrow> upd p (\<lambda>k. k\<lparr>sk_heartbeat := sk_heartbeat k - d\<rparr>) s))"

definition Authentication :: "nat \<Rightarrow> nat option \<Rightarrow> bool list \<Rightarrow> sockets \<Rightarrow> sockets" where
  "Authentication p v reconnect s =
     (let s = upd p (\<lambda>k. k\<lparr>sk_data := v\<rparr>) s;
          r = (case reconnect of [] \<Rightarrow> False | b # _ \<Rightarrow> b);
          s = sock_Emit EventTypeAuthentication [ABool r] p s in
      if r then sock_Emit EventTypeReconnected [] p s else s)"

definition Replaced :: "nat \<Rightarrow> bytes \<Rightarrow> sockets \<Rightarrow> sockets" where
  "Replaced p ip s =
     (let s = sock_Emit EventTypeReplaced [ABytes ip] p s;
          s = upd p (\<lambda>k. k\<lparr>sk_data := None\<rparr>) s in
      Close p [SocketReplacedTime (gl_opts s)] s)"

definition KeepAlive :: "nat \<Rightarrow> sockets \<Rightarrow> sockets" where
  "KeepAlive p s =
     (let s = (if sk_status (sock p s) = SocketStatusConnected
               then upd p (\<lambda>k. k\<lparr>sk_heartbeat := 0\<rparr>) s else s) in
      case sk_data (sock p s) of
        None \<Rightarrow> s
      | Some d \<Rightarrow> s\<lparr>ss_kept := ss_kept s @ [d]\<rparr>)"

definition sock_Magic :: "nat \<Rightarrow> byte list \<Rightarrow> sockets \<Rightarrow> byte \<times> sockets" where
  "sock_Magic p magic s =
     (let s = (case magic of [] \<Rightarrow> s | b # _ \<Rightarrow> upd p (\<lambda>k. k\<lparr>sk_magic := b\<rparr>) s) in
      (sk_magic (sock p s), s))"

definition IsReady :: "socket \<Rightarrow> bool" where
  "IsReady k \<longleftrightarrow> sk_status k = SocketStatusConnected"

section \<open>Sending\<close>

text \<open>
  The \<open>select\<close> of \<open>Write\<close>: the queue takes the message, or the stop channel is closed. When
  both are possible the runtime chooses (\<open>pick\<close> takes the stop). When neither is, safe mode
  waits and the other mode gives up.
\<close>

definition Write_select ::
  "bool \<Rightarrow> bool list \<Rightarrow> message \<Rightarrow> socket \<Rightarrow> (unit, message chan) run" where
  "Write_select pick safe m k =
     (let stopped = (sk_stop k = Some True);
          room = length (items (sk_cwrite k)) < ccap (sk_cwrite k) in
      if closed (sk_cwrite k) then (Panic, sk_cwrite k)
      else if room \<and> \<not> (stopped \<and> pick) then
        (Ok (), (sk_cwrite k)\<lparr>items := items (sk_cwrite k) @ [m]\<rparr>)
      else if stopped then (Err (ErrNew ''socket closed''), sk_cwrite k)
      else if safe \<noteq> [] \<and> \<not> hd safe then (Err (ErrNew ''socket write channel full''), sk_cwrite k)
      else (Blocked, sk_cwrite k))"

definition sock_Write ::
  "bool \<Rightarrow> nat \<Rightarrow> message \<Rightarrow> bool list \<Rightarrow> sockets \<Rightarrow> (unit, sockets) run" where
  "sock_Write pick p m safe s =
     (if \<not> IsReady (sock p s) then (Err (ErrNew ''socket not ready''), s)
      else case Write_select pick safe m (sock p s) of
        (Panic, _) \<Rightarrow> (Err (ErrNew ''socket write panic''), s)
      | (x, ch) \<Rightarrow> (x, upd p (\<lambda>k. k\<lparr>sk_cwrite := ch\<rparr>) s))"

text \<open>Giving a message back after an error.\<close>

definition give_back :: "env \<Rightarrow> message \<Rightarrow> err \<Rightarrow> sockets \<Rightarrow> (unit, sockets) run" where
  "give_back e m er s =
     (case Release e (Some m) (ss_pool s) of
        (Ok _, pool) \<Rightarrow> (Err er, s\<lparr>ss_pool := pool\<rparr>)
      | (x, pool) \<Rightarrow> (x, s\<lparr>ss_pool := pool\<rparr>))"

definition SendWithMagic ::
  "env \<Rightarrow> nat option \<Rightarrow> bool \<Rightarrow> nat \<Rightarrow> byte \<Rightarrow> flag \<Rightarrow> i32 \<Rightarrow> path_arg \<Rightarrow> any \<Rightarrow> bool list
    \<Rightarrow> sockets \<Rightarrow> (unit, sockets) run" where
  "SendWithMagic e pk pick p magic flag index path data safe s =
     (case Require e pk (ss_pool s) of (m, pool) \<Rightarrow>
        let s = s\<lparr>ss_pool := pool\<rparr> in
        (case Marshal e magic flag index path data m of
           (Ok _, m) \<Rightarrow>
             (case sock_Write pick p m safe s of
                (Err er, s) \<Rightarrow> give_back e m (ErrWrap ''socket send write error'' er) s
              | r \<Rightarrow> r)
         | (Err er, m) \<Rightarrow> give_back e m (ErrWrap ''socket send marshal error'' er) s
         | (x, m) \<Rightarrow> (x, s)))"

definition Send ::
  "env \<Rightarrow> nat option \<Rightarrow> bool \<Rightarrow> nat \<Rightarrow> flag \<Rightarrow> i32 \<Rightarrow> path_arg \<Rightarrow> any \<Rightarrow> bool list
    \<Rightarrow> sockets \<Rightarrow> (unit, sockets) run" where
  "Send e pk pick p flag index path data safe s =
     SendWithMagic e pk pick p
       (if sk_magic (sock p s) = 0 then DefaultMagic (opts e) else sk_magic (sock p s))
       flag index path data safe s"

section \<open>The write loop and the heartbeat\<close>

text \<open>
  \<open>writeMsgTrue\<close>: \<open>fault\<close> is the error the connection returns, if any; a nil connection panics.
  Either way an error event is emitted, and the message goes back to the pool.
\<close>

definition writeMsgTrue :: "env \<Rightarrow> err option \<Rightarrow> nat \<Rightarrow> message \<Rightarrow> sockets \<Rightarrow> (unit, sockets) run" where
  "writeMsgTrue e fault p m s =
     (let s = (case (sk_conn (sock p s), fault) of
                 (None, _) \<Rightarrow> Errorf (Some p) (ErrNew ''nil pointer dereference'') s
               | (Some _, Some er) \<Rightarrow> Errorf (Some p) er s
               | (Some _, None) \<Rightarrow> s) in
      case Release e (Some m) (ss_pool s) of (x, pool) \<Rightarrow> (x, s\<lparr>ss_pool := pool\<rparr>))"

text \<open>
  One turn of \<open>writeMsg\<close>: it stops (\<open>Ok False\<close>) on the context or the stop channel, or writes the
  next message; \<open>pick\<close> is the choice of the runtime when both are ready. The deferred
  \<open>disconnect\<close> runs when it stops.
\<close>

definition end_task :: "task \<Rightarrow> sockets \<Rightarrow> sockets" where
  "end_task t s = s\<lparr>ss_tasks := remove1 t (ss_tasks s)\<rparr>"

definition writeMsg_turn ::
  "env \<Rightarrow> bool \<Rightarrow> bool \<Rightarrow> err option \<Rightarrow> nat \<Rightarrow> sockets \<Rightarrow> (bool, sockets) run" where
  "writeMsg_turn e ctx_done pick fault p s =
     (let k = sock p s; stopped = ctx_done \<or> sk_stop k = Some True;
          stop = and_then (disconnect e p s) (\<lambda>_ s. (Ok False, end_task (TWrite p) s)) in
      case items (sk_cwrite k) of
        m # ms \<Rightarrow>
          if stopped \<and> pick then stop
          else and_then
            (writeMsgTrue e fault p m (upd p (\<lambda>k. k\<lparr>sk_cwrite := (sk_cwrite k)\<lparr>items := ms\<rparr>\<rparr>) s))
            (\<lambda>_ s. (Ok True, s))
      | [] \<Rightarrow> if stopped then stop else (Blocked, s))"

text \<open>
  \<open>Write\<close> of a sender while the write loop waits in its \<open>select\<close>: what \<open>Write\<close> returns, and the turn of
  the loop. A refused message leaves the loop waiting; a closed stop channel is ready for the sender
  too, and \<open>pick\<close> is the choice of the runtime. Without a waiting loop there is nobody to take the
  message, which is what \<open>sock_Write\<close> says.
\<close>

definition hand_over ::
  "env \<Rightarrow> bool \<Rightarrow> err option \<Rightarrow> nat \<Rightarrow> message \<Rightarrow> sockets \<Rightarrow> unit outcome \<times> (bool, sockets) run" where
  "hand_over e pick fault p m s =
     (if \<not> IsReady (sock p s) then (Err (ErrNew ''socket not ready''), (Blocked, s))
      else if closed (sk_cwrite (sock p s)) then (Err (ErrNew ''socket write panic''), (Blocked, s))
      else if sk_stop (sock p s) = Some True \<and> pick then (Err (ErrNew ''socket closed''), (Blocked, s))
      else (Ok (), and_then (writeMsgTrue e fault p m s) (\<lambda>_ s. (Ok True, s))))"

definition sock_Heartbeat :: "env \<Rightarrow> i32 \<Rightarrow> nat \<Rightarrow> sockets \<Rightarrow> (i32, sockets) run" where
  "sock_Heartbeat e v p s =
     (if \<not> isValidStatus (sk_status (sock p s)) then (Ok (sk_heartbeat (sock p s)), s)
      else
        let s = upd p (\<lambda>k. k\<lparr>sk_heartbeat := sk_heartbeat k + v\<rparr>) s;
            limit = sint (SocketConnectTime (gl_opts s)) in
        if limit > 0 \<and> sint (sk_heartbeat (sock p s)) > limit
        then and_then (disconnect e p s) (\<lambda>_ s. (Ok (sk_heartbeat (sock p s)), s))
        else
          let s = sock_Emit EventTypeHeartbeat [AInt v] p s in
          (Ok (sk_heartbeat (sock p s)), s))"

end
