(* ===== verification/Sockets.thy ===== *)
theory Sockets
  imports Socket
begin

text \<open>
  \<open>sockets.go\<close>: the manager's own operations. Listeners, the dialer and the process state are
  arguments: what they return is what the environment chooses.
\<close>

section \<open>Creating and finding sockets\<close>

definition sockets_New :: "config \<Rightarrow> sockets" where
  "sockets_New options =
     \<lparr>ss_index = 0, ss_count = 0, ss_started = False, ss_sockets = Map.empty,
      ss_emitter = (\<lambda>_. []), ss_instance = [], ss_opts = options, gl_opts = options,
      ss_heap = Map.empty, ss_next = 0, ss_calls = [], ss_closed = [], ss_tasks = [],
      ss_kept = [], ss_pool = []\<rparr>"

definition Matcher :: "env \<Rightarrow> stream \<Rightarrow> bool" where
  "Matcher e r = (case s_bytes r of [] \<Rightarrow> False | b # _ \<Rightarrow> magics_Has (Magics e) b)"

text \<open>A new socket before its connection is attached.\<close>

definition fresh_socket :: "u64 \<Rightarrow> nat \<Rightarrow> socket" where
  "fresh_socket i n =
     \<lparr>sk_id = i, sk_conn = None, sk_data = None, sk_stop = None, sk_magic = 0,
      sk_cwrite = make_chan n, sk_status = SocketStatusNone, sk_address = [], sk_heartbeat = 0\<rparr>"

text \<open>
  \<open>Create\<close>: refused when the process is stopping or the limit is reached; a negative channel
  size panics after the id is taken.
\<close>

definition Create :: "bool \<Rightarrow> nat \<Rightarrow> sockets \<Rightarrow> (nat, sockets) run" where
  "Create stopped conn s =
     (if stopped then (Err (ErrNew ''server closed''), s)
      else if sint (ConnectMaxSize (ss_opts s)) > 0
              \<and> sint (ss_count s) \<ge> sint (ConnectMaxSize (ss_opts s))
      then (Err (ErrNew ''max connections reached''), s\<lparr>ss_closed := ss_closed s @ [conn]\<rparr>)
      else
        let s = s\<lparr>ss_index := ss_index s + 1\<rparr>; n = sint (WriteChanSize (ss_opts s)) in
        if n < 0 then (Panic, s)
        else
          let p = ss_next s; i = ss_index s;
              s = s\<lparr>ss_heap := (ss_heap s)(p \<mapsto> fresh_socket i (nat n)), ss_next := Suc p\<rparr>;
              s = s\<lparr>ss_sockets := (ss_sockets s)(i \<mapsto> p)\<rparr>;
              s = s\<lparr>ss_count := ss_count s + 1\<rparr>
          in (Ok p, connect p conn s))"

definition sockets_Get :: "u64 \<Rightarrow> sockets \<Rightarrow> nat option" where
  "sockets_Get i s = ss_sockets s i"

text \<open>
  \<open>Range\<close> over the table in the order in which the map enumerates its keys, until the callback
  returns false; a key that is gone by the time it is reached is skipped.
\<close>

fun Range :: "(nat \<Rightarrow> sockets \<Rightarrow> (bool, sockets) run) \<Rightarrow> u64 list \<Rightarrow> sockets \<Rightarrow> (unit, sockets) run" where
  "Range f [] s = (Ok (), s)"
| "Range f (i # is) s =
     (case ss_sockets s i of
        None \<Rightarrow> Range f is s
      | Some p \<Rightarrow> and_then (f p s) (\<lambda>b s. if b then Range f is s else (Ok (), s)))"

definition sockets_Heartbeat :: "env \<Rightarrow> i32 \<Rightarrow> u64 list \<Rightarrow> sockets \<Rightarrow> (unit, sockets) run" where
  "sockets_Heartbeat e v order s =
     Range (\<lambda>p s. and_then (sock_Heartbeat e v p s) (\<lambda>_ s. (Ok True, s))) order s"

section \<open>Listening\<close>

datatype network = NetTcp | NetWs | NetUdp

text \<open>The package that serves a scheme, after lower-casing; an empty scheme means tcp.\<close>

definition listen_network :: "bytes \<Rightarrow> err + network" where
  "listen_network scheme =
     (let n = (if scheme = [] then str ''tcp'' else scheme) in
      if n \<in> set [str ''tcp'', str ''tcp4'', str ''tcp6''] then Inr NetTcp
      else if n \<in> set [str ''ws'', str ''wss'', str ''wss4'', str ''wss5'', str ''wss6''] then Inr NetWs
      else if n \<in> set [str ''udp'', str ''udp4'', str ''udp6''] then Inr NetUdp
      else Inl (ErrNew ''address scheme unknown''))"

text \<open>One turn of the accept loop: whether it goes on. \<open>r\<close> is what the listener returned.\<close>

definition accept_turn :: "bool \<Rightarrow> err + nat \<Rightarrow> sockets \<Rightarrow> (bool, sockets) run" where
  "accept_turn stopped r s =
     (case r of
        Inl er \<Rightarrow> (Ok (\<not> errors_is er ErrNetClosed), s)
      | Inr conn \<Rightarrow>
          (case Create stopped conn s of
             (Ok _, s) \<Rightarrow> (Ok True, s)
           | (Err er, s) \<Rightarrow> (Ok (\<not> errors_is er ErrNetClosed), s)
           | (x, s) \<Rightarrow> (map_outcome (\<lambda>_. True) x, s)))"

definition Accept :: "nat \<Rightarrow> sockets \<Rightarrow> sockets" where
  "Accept ln s = go_start [TAccept ln] (s\<lparr>ss_instance := ss_instance s @ [ln]\<rparr>)"

definition Start :: "sockets \<Rightarrow> sockets" where
  "Start s = (if ss_started s then s else go_start [TDaemon] (s\<lparr>ss_started := True\<rparr>))"

section \<open>Dialling\<close>

text \<open>The wait before attempt \<open>n + 1\<close>, in milliseconds.\<close>

definition backoff :: "config \<Rightarrow> i32 \<Rightarrow> i32" where
  "backoff o1 n =
     (let delay = ClientReconnectTime o1 * (n + 1) in
      if sint (ClientReconnectMaxDelay o1) > 0 \<and> sint delay > sint (ClientReconnectMaxDelay o1)
      then ClientReconnectMaxDelay o1 else delay)"

text \<open>
  \<open>tryConnect\<close>: \<open>dial n\<close> is the result of attempt \<open>n\<close>, \<open>cancelled n\<close> whether the context ends
  during the wait after it. The waits are collected in \<open>ds\<close>. A search that never ends is \<open>None\<close>.
\<close>

partial_function (option) tryConnect ::
  "config \<Rightarrow> (i32 \<Rightarrow> err + nat) \<Rightarrow> (i32 \<Rightarrow> bool) \<Rightarrow> i32 \<Rightarrow> i32 list
    \<Rightarrow> ((err + nat) \<times> i32 list) option" where
  "tryConnect o1 dial cancelled n ds =
     (if sint (ClientReconnectMax o1) > 0 \<and> sint n \<ge> sint (ClientReconnectMax o1)
      then Some (Inl (ErrNew ''max retry reached''), ds)
      else case dial n of
        Inr conn \<Rightarrow> Some (Inr conn, ds)
      | Inl _ \<Rightarrow>
          if cancelled n then Some (Inl (ErrNew ''context canceled''), ds @ [backoff o1 n])
          else tryConnect o1 dial cancelled (n + 1) (ds @ [backoff o1 n]))"

text \<open>\<open>Connect\<close> with the result of dialling: the address makes the socket a client.\<close>

definition Connect :: "bool \<Rightarrow> bytes \<Rightarrow> err + nat \<Rightarrow> sockets \<Rightarrow> (nat, sockets) run" where
  "Connect stopped address r s =
     (case r of
        Inl er \<Rightarrow> (Err er, s)
      | Inr conn \<Rightarrow>
          and_then (Create stopped conn s) (\<lambda>p s.
            (Ok p, upd p (\<lambda>k. k\<lparr>sk_address := address\<rparr>) s)))"

end
