(* ===== verification/SocketsInv.thy ===== *)
theory SocketsInv
  imports Sockets
begin

text \<open>
  The invariant of the socket manager: what holds of the sockets, of the table and of the
  counters between any two calls, whatever the order of the calls.
\<close>

section \<open>The invariant\<close>

text \<open>What a socket looks like in each of the states it is left in.\<close>

definition sock_ok :: "socket \<Rightarrow> bool" where
  "sock_ok k \<longleftrightarrow>
     \<not> closed (sk_cwrite k) \<and> length (items (sk_cwrite k)) \<le> ccap (sk_cwrite k)
     \<and> (case sk_status k of
          SocketStatusConnected \<Rightarrow> sk_stop k = Some False \<and> sk_conn k \<noteq> None
        | SocketStatusClosing \<Rightarrow> sk_stop k = Some False \<and> sk_conn k \<noteq> None
        | SocketStatusReconnecting \<Rightarrow> sk_stop k = Some True \<and> sk_conn k = None \<and> sk_address k \<noteq> []
        | SocketStatusReleased \<Rightarrow> sk_stop k = Some True \<and> sk_conn k = None \<and> items (sk_cwrite k) = []
        | _ \<Rightarrow> False)"

definition reconnecting :: "sockets \<Rightarrow> nat \<Rightarrow> bool" where
  "reconnecting s p \<longleftrightarrow> (\<exists>k. ss_heap s p = Some k \<and> sk_status k = SocketStatusReconnecting)"

definition heap_inv :: "sockets \<Rightarrow> bool" where
  "heap_inv s \<longleftrightarrow>
     (\<forall>p k. ss_heap s p = Some k \<longrightarrow> p < ss_next s \<and> sk_id k \<le> ss_index s \<and> sock_ok k)"

definition table_inv :: "sockets \<Rightarrow> bool" where
  "table_inv s \<longleftrightarrow>
     (\<forall>i p. ss_sockets s i = Some p \<longleftrightarrow>
        (\<exists>k. ss_heap s p = Some k \<and> sk_id k = i \<and> sk_status k \<noteq> SocketStatusReleased))"

definition count_inv :: "sockets \<Rightarrow> bool" where
  "count_inv s \<longleftrightarrow>
     ss_count s = word_of_nat (card (dom (ss_sockets s)))
     \<and> (0 < sint (ConnectMaxSize (ss_opts s)) \<longrightarrow>
          int (card (dom (ss_sockets s))) \<le> sint (ConnectMaxSize (ss_opts s)))"

definition task_inv :: "sockets \<Rightarrow> bool" where
  "task_inv s \<longleftrightarrow>
     (\<forall>p. count_list (ss_tasks s) (TReconnect p) = (if reconnecting s p then 1 else 0))"

definition ss_inv :: "env \<Rightarrow> sockets \<Rightarrow> bool" where
  "ss_inv e s \<longleftrightarrow>
     0 \<le> Capacity (opts e) \<and> clean_pool e (ss_pool s)
     \<and> heap_inv s \<and> table_inv s \<and> count_inv s \<and> task_inv s"

text \<open>The part of the state the invariant reads: two states that agree on it are alike.\<close>

lemma ss_inv_same:
  assumes "ss_inv e s"
    and "ss_heap t = ss_heap s" "ss_next t = ss_next s" "ss_index t = ss_index s"
      "ss_sockets t = ss_sockets s" "ss_count t = ss_count s" "ss_opts t = ss_opts s"
      "ss_tasks t = ss_tasks s" "ss_pool t = ss_pool s"
  shows "ss_inv e t"
  using assms
  by (simp add: ss_inv_def heap_inv_def table_inv_def count_inv_def task_inv_def reconnecting_def)

lemma ss_inv_pool: "ss_inv e s \<Longrightarrow> clean_pool e pool \<Longrightarrow> ss_inv e (s\<lparr>ss_pool := pool\<rparr>)"
  by (simp add: ss_inv_def heap_inv_def table_inv_def count_inv_def task_inv_def reconnecting_def)

lemma ss_inv_records [simp, intro]:
  assumes "ss_inv e s"
  shows "ss_inv e (s\<lparr>ss_calls := x1\<rparr>)" "ss_inv e (s\<lparr>ss_closed := x2\<rparr>)"
    "ss_inv e (s\<lparr>ss_kept := x3\<rparr>)" "ss_inv e (s\<lparr>ss_emitter := x4\<rparr>)"
    "ss_inv e (s\<lparr>ss_instance := x5\<rparr>)" "ss_inv e (s\<lparr>ss_started := x6\<rparr>)"
    "ss_inv e (s\<lparr>gl_opts := x7\<rparr>)"
  by (rule ss_inv_same [OF assms]; simp)+

lemma ss_inv_Emit [intro]: "ss_inv e s \<Longrightarrow> ss_inv e (Emit ev q a s)"
  by (simp add: Emit_def Let_def)

lemma ss_inv_sock_Emit [intro]: "ss_inv e s \<Longrightarrow> ss_inv e (sock_Emit ev a p s)"
  by (simp add: sock_Emit_def ss_inv_Emit)

lemma ss_inv_Errorf [intro]: "ss_inv e s \<Longrightarrow> ss_inv e (Errorf q er s)"
  by (simp add: Errorf_def ss_inv_Emit)

text \<open>Goroutines other than a reconnection do not matter to it.\<close>

lemma count_list_remove1_other: "x \<noteq> y \<Longrightarrow> count_list (remove1 x xs) y = count_list xs y"
  by (induction xs) auto

lemma count_list_remove1_same: "count_list (remove1 x xs) x = count_list xs x - 1"
  by (induction xs) auto

lemma ss_inv_tasks:
  assumes "ss_inv e s" and "\<And>p. count_list ts (TReconnect p) = count_list (ss_tasks s) (TReconnect p)"
  shows "ss_inv e (s\<lparr>ss_tasks := ts\<rparr>)"
  using assms
  by (simp add: ss_inv_def heap_inv_def table_inv_def count_inv_def task_inv_def reconnecting_def)

lemma ss_inv_go_start:
  "ss_inv e s \<Longrightarrow> (\<And>p. TReconnect p \<notin> set ts) \<Longrightarrow> ss_inv e (go_start ts s)"
  by (auto simp: go_start_def count_list_0_iff intro!: ss_inv_tasks)

lemma ss_inv_end_task:
  "ss_inv e s \<Longrightarrow> (\<And>p. t \<noteq> TReconnect p) \<Longrightarrow> ss_inv e (end_task t s)"
  by (auto simp: end_task_def count_list_remove1_other intro!: ss_inv_tasks)

lemma ss_inv_sock:
  "ss_inv e s \<Longrightarrow> ss_heap s p = Some k \<Longrightarrow> sock_ok k"
  by (simp add: ss_inv_def heap_inv_def)

text \<open>
  The three ways a socket changes: within its state, from a live state to another, and out of
  the table.
\<close>

lemma upd_heap: "ss_heap s p = Some k \<Longrightarrow> upd p f s = s\<lparr>ss_heap := (ss_heap s)(p \<mapsto> f k)\<rparr>"
  by (simp add: upd_def)

lemma ss_inv_set:
  assumes inv: "ss_inv e s" and k: "ss_heap s p = Some k"
    and same: "sk_id k' = sk_id k" "sock_ok k'"
      "sk_status k \<noteq> SocketStatusReleased" "sk_status k' \<noteq> SocketStatusReleased"
    and ts: "\<And>q. q \<noteq> p \<Longrightarrow> count_list ts (TReconnect q) = count_list (ss_tasks s) (TReconnect q)"
      "count_list ts (TReconnect p) = (if sk_status k' = SocketStatusReconnecting then 1 else 0)"
  shows "ss_inv e (s\<lparr>ss_heap := (ss_heap s)(p \<mapsto> k'), ss_tasks := ts\<rparr>)"
proof -
  have "heap_inv (s\<lparr>ss_heap := (ss_heap s)(p \<mapsto> k'), ss_tasks := ts\<rparr>)"
    using inv k same by (auto simp: ss_inv_def heap_inv_def)
  moreover have "table_inv (s\<lparr>ss_heap := (ss_heap s)(p \<mapsto> k'), ss_tasks := ts\<rparr>)"
    using inv k same unfolding ss_inv_def table_inv_def by auto
  moreover have "task_inv (s\<lparr>ss_heap := (ss_heap s)(p \<mapsto> k'), ss_tasks := ts\<rparr>)"
    using inv ts by (auto simp: ss_inv_def task_inv_def reconnecting_def)
  ultimately show ?thesis
    using inv by (simp add: ss_inv_def count_inv_def)
qed

lemma ss_inv_upd:
  assumes "ss_inv e s" "ss_heap s p = Some k"
    and "sk_id (f k) = sk_id k" "sk_status (f k) = sk_status k" "sock_ok (f k)"
  shows "ss_inv e (upd p f s)"
proof (cases "sk_status k = SocketStatusReleased")
  case False
  have "ss_inv e (s\<lparr>ss_heap := (ss_heap s)(p \<mapsto> f k), ss_tasks := ss_tasks s\<rparr>)"
    using assms False
    by (intro ss_inv_set [where k = k]) (auto simp: ss_inv_def task_inv_def reconnecting_def)
  then show ?thesis using assms by (simp add: upd_heap)
next
  case True
  let ?t = "s\<lparr>ss_heap := (ss_heap s)(p \<mapsto> f k)\<rparr>"
  have "table_inv ?t" using assms True unfolding ss_inv_def table_inv_def by auto
  moreover have "heap_inv ?t" using assms by (auto simp: ss_inv_def heap_inv_def)
  moreover have "reconnecting ?t = reconnecting s"
    using assms True by (auto simp: reconnecting_def fun_eq_iff)
  ultimately show ?thesis
    using assms by (simp add: ss_inv_def upd_heap count_inv_def task_inv_def)
qed

lemma ss_inv_drop:
  assumes inv: "ss_inv e s" and k: "ss_heap s p = Some k"
    and live: "sk_status k \<noteq> SocketStatusReleased"
    and k': "sk_id k' = sk_id k" "sock_ok k'" "sk_status k' = SocketStatusReleased"
    and ts: "\<And>q. q \<noteq> p \<Longrightarrow> count_list ts (TReconnect q) = count_list (ss_tasks s) (TReconnect q)"
      "count_list ts (TReconnect p) = 0"
    and pool: "clean_pool e pool"
  shows "ss_inv e (s\<lparr>ss_heap := (ss_heap s)(p \<mapsto> k'), ss_tasks := ts,
    ss_count := ss_count s - 1, ss_sockets := (ss_sockets s)(sk_id k := None), ss_pool := pool\<rparr>)"
    (is "ss_inv e ?t")
proof -
  have p: "ss_sockets s (sk_id k) = Some p"
    using inv k live unfolding ss_inv_def table_inv_def by blast
  then have in_dom: "sk_id k \<in> dom (ss_sockets s)" by blast
  have fin: "finite (dom (ss_sockets s))" by simp
  have "card (dom (ss_sockets ?t)) = card (dom (ss_sockets s)) - 1"
    using in_dom fin by (simp add: dom_fun_upd card_Diff_singleton)
  moreover have "card (dom (ss_sockets s)) > 0" using in_dom fin card_gt_0_iff by blast
  ultimately have "count_inv ?t"
    using inv by (auto simp: ss_inv_def count_inv_def of_nat_diff)
  moreover have "heap_inv ?t" using inv k k' by (auto simp: ss_inv_def heap_inv_def)
  moreover have "task_inv ?t"
    using inv ts k' by (auto simp: ss_inv_def task_inv_def reconnecting_def)
  moreover have "table_inv ?t"
    using inv k k' p unfolding ss_inv_def table_inv_def by auto (metis option.inject)
  ultimately show ?thesis
    using inv pool by (simp add: ss_inv_def)
qed

section \<open>What the calls do to a socket of the heap\<close>

lemma sock_Some [simp]: "ss_heap s p = Some k \<Longrightarrow> sock p s = k"
  by (simp add: sock_def)

lemma Emit_keeps [simp]:
  "ss_heap (Emit ev q a s) = ss_heap s" "ss_pool (Emit ev q a s) = ss_pool s"
  "ss_tasks (Emit ev q a s) = ss_tasks s" "ss_sockets (Emit ev q a s) = ss_sockets s"
  "ss_count (Emit ev q a s) = ss_count s" "gl_opts (Emit ev q a s) = gl_opts s"
  "ss_closed (Emit ev q a s) = ss_closed s" "ss_index (Emit ev q a s) = ss_index s"
  "ss_next (Emit ev q a s) = ss_next s" "ss_opts (Emit ev q a s) = ss_opts s"
  "ss_emitter (Emit ev q a s) = ss_emitter s"
  by (simp_all add: Emit_def Let_def)

lemma sock_Emit_heap [simp]: "ss_heap (sock_Emit ev a p s) = ss_heap s"
  by (simp add: sock_Emit_def)

lemma drain_ok:
  assumes "0 \<le> Capacity (opts e)"
  shows "clean_pool e pool \<Longrightarrow> \<exists>pool'. drain e ms pool = (Ok (), ([], pool')) \<and> clean_pool e pool'"
proof (induction ms arbitrary: pool)
  case (Cons m ms)
  obtain m' where m': "message_Release e m = (Ok (), m')"
    using message_Release_ok [OF assms] by blast
  then have r: "Release e (Some m) pool = (Ok (), if Pool (opts e) then m' # pool else pool)"
    by (simp add: Release_def)
  then have "clean_pool e (if Pool (opts e) then m' # pool else pool)"
    using Release_clean [OF Cons.prems] by blast
  then show ?case using Cons.IH r by (simp split: prod.splits)
qed simp

text \<open>The state \<open>release\<close> leaves.\<close>

definition released :: "nat \<Rightarrow> socket \<Rightarrow> pool \<Rightarrow> sockets \<Rightarrow> sockets" where
  "released p k pool s =
     s\<lparr>ss_heap := (ss_heap s)(p \<mapsto> k\<lparr>sk_status := SocketStatusReleased, sk_data := None,
                                    sk_cwrite := (sk_cwrite k)\<lparr>items := []\<rparr>\<rparr>),
       ss_count := ss_count s - 1, ss_sockets := (ss_sockets s)(sk_id k := None), ss_pool := pool\<rparr>"

lemma release_ok:
  assumes "ss_heap s p = Some k" "0 \<le> Capacity (opts e)" "clean_pool e (ss_pool s)"
  shows "\<exists>pool. release e p s = (Ok (), released p k pool s) \<and> clean_pool e pool"
proof -
  obtain pool where "drain e (items (sk_cwrite k)) (ss_pool s) = (Ok (), ([], pool))"
    and "clean_pool e pool"
    using drain_ok assms by blast
  moreover from this have "release e p s = (Ok (), released p k pool s)"
    using assms(1) by (simp add: release_def released_def upd_def sock_def Let_def sockets.equality)
  ultimately show ?thesis by blast
qed

text \<open>The state in which \<open>disconnect\<close> takes its decision: stopped, closed and announced.\<close>

definition cut :: "nat \<Rightarrow> nat \<Rightarrow> socket \<Rightarrow> status \<Rightarrow> sockets \<Rightarrow> sockets" where
  "cut p c k st s =
     sock_Emit EventTypeDisconnect [] p
       (s\<lparr>ss_heap := (ss_heap s)(p \<mapsto> k\<lparr>sk_status := st, sk_stop := Some True, sk_conn := None\<rparr>),
         ss_closed := ss_closed s @ [c]\<rparr>)"

lemma cut_heap [simp]:
  "ss_heap (cut p c k st s) p = Some (k\<lparr>sk_status := st, sk_stop := Some True, sk_conn := None\<rparr>)"
  by (simp add: cut_def)

lemma cut_keeps [simp]:
  "ss_pool (cut p c k st s) = ss_pool s" "ss_count (cut p c k st s) = ss_count s"
  "ss_sockets (cut p c k st s) = ss_sockets s" "ss_tasks (cut p c k st s) = ss_tasks s"
  "ss_closed (cut p c k st s) = ss_closed s @ [c]"
  "ss_calls (cut p c k st s) = ss_calls s
     @ map (\<lambda>f. \<lparr>c_fun = f, c_sock = Some p, c_arg = ANil\<rparr>) (ss_emitter s EventTypeDisconnect)"
  by (simp_all add: cut_def sock_Emit_def Emit_def)

lemma upd_sock_Emit: "upd p f (sock_Emit ev a q s) = sock_Emit ev a q (upd p f s)"
  by (simp add: upd_def sock_Emit_def Emit_def Let_def)

lemma cut_eq:
  assumes "ss_heap s p = Some k" "sk_conn k = Some c"
  shows "upd p (\<lambda>k. k\<lparr>sk_status := st\<rparr>)
      (sock_Emit EventTypeDisconnect [] p
        (close_conn p (upd p (\<lambda>k. k\<lparr>sk_stop := Some True\<rparr>)
          (upd p (\<lambda>k. k\<lparr>sk_status := SocketStatusDisconnect\<rparr>) s)))) = cut p c k st s"
  using assms
  by (auto simp: close_conn_def sock_def cut_def upd_def sock_Emit_def Emit_def
      intro!: sockets.equality)

lemma disconnect_cut:
  assumes "ss_heap s p = Some k" "sk_status k \<in> {SocketStatusConnected, SocketStatusClosing}"
    "sk_stop k = Some False" "sk_conn k = Some c"
  shows "disconnect e p s =
    (if sk_address k \<noteq> []
     then (Ok False, go_start [TReconnect p] (cut p c k SocketStatusReconnecting s))
     else recovered False (case release e p (cut p c k SocketStatusDisconnected s) of
       (x, s) \<Rightarrow> (map_outcome (\<lambda>_. True) x, s)))"
proof -
  let ?d = "upd p (\<lambda>k. k\<lparr>sk_status := SocketStatusDisconnect\<rparr>) s"
  let ?x = "sock_Emit EventTypeDisconnect [] p (close_conn p (upd p (\<lambda>k. k\<lparr>sk_stop := Some True\<rparr>) ?d))"
  have "isValidStatus (sk_status k)" using assms(2) by (auto simp: isValidStatus_def)
  moreover have "sk_stop (sock p ?d) = Some False" "sock_Type (sock p ?x) = sock_Type k"
    using assms by (simp_all add: close_conn_def sock_def upd_def sock_Type_def)
  ultimately show ?thesis
    using assms(1) cut_eq [OF assms(1,4)]
    by (cases "sk_address k = []")
      (simp_all add: disconnect_def disconnect_body_def tryReconnect_def sock_Type_def Let_def,
        simp add: recovered_def)
qed

lemma disconnect_invalid:
  "\<not> isValidStatus (sk_status (sock p s)) \<Longrightarrow> disconnect e p s = (Ok False, s)"
  by (simp add: disconnect_def)

section \<open>Every call keeps the invariant\<close>

lemma ss_inv_facts:
  assumes "ss_inv e s"
  shows "0 \<le> Capacity (opts e)" "clean_pool e (ss_pool s)"
    "ss_heap s p = Some k \<Longrightarrow> sock_ok k"
    "count_list (ss_tasks s) (TReconnect p) = (if reconnecting s p then 1 else 0)"
  using assms by (simp_all add: ss_inv_def heap_inv_def task_inv_def)

lemma isValid_ok:
  assumes "sock_ok k" "isValidStatus (sk_status k)"
  shows "\<exists>c. sk_status k \<in> {SocketStatusConnected, SocketStatusClosing}
    \<and> sk_stop k = Some False \<and> sk_conn k = Some c"
  using assms by (auto simp: sock_ok_def isValidStatus_def split: status.splits)

lemma sock_ok_released:
  "sock_ok k \<Longrightarrow> sock_ok (k\<lparr>sk_status := SocketStatusReleased, sk_stop := Some True,
     sk_conn := None, sk_data := d, sk_cwrite := (sk_cwrite k)\<lparr>items := []\<rparr>\<rparr>)"
  by (simp add: sock_ok_def)

lemma disconnect_keeps:
  assumes inv: "ss_inv e s" and k: "ss_heap s p = Some k" and d: "disconnect e p s = (x, s')"
  shows "ss_inv e s'"
proof (cases "isValidStatus (sk_status k)")
  case False
  then show ?thesis using inv k d by (simp add: disconnect_invalid)
next
  case True
  note ok = ss_inv_facts(3) [OF inv k]
  obtain c where c: "sk_status k \<in> {SocketStatusConnected, SocketStatusClosing}"
    "sk_stop k = Some False" "sk_conn k = Some c"
    using isValid_ok [OF ok True] by blast
  have not_re: "\<not> reconnecting s p" using c k by (auto simp: reconnecting_def)
  note tasks = ss_inv_facts(4) [OF inv, of p, unfolded if_not_P [OF not_re]]
  show ?thesis
  proof (cases "sk_address k = []")
    case False
    let ?k = "k\<lparr>sk_status := SocketStatusReconnecting, sk_stop := Some True, sk_conn := None\<rparr>"
    have "ss_inv e (s\<lparr>ss_heap := (ss_heap s)(p \<mapsto> ?k), ss_tasks := ss_tasks s @ [TReconnect p]\<rparr>)"
      by (rule ss_inv_set [OF inv k]) (use ok c False tasks in \<open>auto simp: sock_ok_def\<close>)
    then show ?thesis
      using d disconnect_cut [OF k c] False
      by (auto elim!: ss_inv_same simp: cut_def go_start_def sock_Emit_def Emit_def)
  next
    case True
    let ?s = "cut p c k SocketStatusDisconnected s"
    have cp: "clean_pool e (ss_pool ?s)" using ss_inv_facts(2) [OF inv] by simp
    obtain pool where r: "release e p ?s = (Ok (), released p
        (k\<lparr>sk_status := SocketStatusDisconnected, sk_stop := Some True, sk_conn := None\<rparr>) pool ?s)"
      and pool: "clean_pool e pool"
      using release_ok [OF cut_heap ss_inv_facts(1) [OF inv] cp] by blast
    have "ss_inv e (s\<lparr>ss_heap := (ss_heap s)(p \<mapsto> k\<lparr>sk_status := SocketStatusReleased,
        sk_stop := Some True, sk_conn := None, sk_data := None,
        sk_cwrite := (sk_cwrite k)\<lparr>items := []\<rparr>\<rparr>), ss_tasks := ss_tasks s,
      ss_count := ss_count s - 1, ss_sockets := (ss_sockets s)(sk_id k := None), ss_pool := pool\<rparr>)"
      by (rule ss_inv_drop [OF inv k _ _ _ _ _ _ pool]) (use c tasks sock_ok_released [OF ok] in auto)
    then show ?thesis
      using d disconnect_cut [OF k c] True r
      by (auto elim!: ss_inv_same simp: cut_def released_def sock_Emit_def Emit_def recovered_def)
  qed
qed

lemma reconnect_done_keeps:
  assumes inv: "ss_inv e s" and t: "TReconnect p \<in> set (ss_tasks s)"
    and d: "reconnect_done e p r s = (x, s')"
  shows "ss_inv e s'"
proof -
  have "count_list (ss_tasks s) (TReconnect p) \<noteq> 0" using t by (simp add: count_list_0_iff)
  then obtain k where k: "ss_heap s p = Some k" and st: "sk_status k = SocketStatusReconnecting"
    and one: "count_list (ss_tasks s) (TReconnect p) = 1"
    using ss_inv_facts(4) [OF inv, of p] by (auto simp: reconnecting_def split: if_splits)
  note ok = ss_inv_facts(3) [OF inv k]
  let ?ts = "remove1 (TReconnect p) (ss_tasks s)"
  have ts: "count_list ?ts (TReconnect p) = 0"
    "\<And>q. q \<noteq> p \<Longrightarrow> count_list ?ts (TReconnect q) = count_list (ss_tasks s) (TReconnect q)"
    using one by (simp_all add: count_list_remove1_same count_list_remove1_other)
  show ?thesis
  proof (cases r)
    case (Some c)
    have "ss_inv e (s\<lparr>ss_heap := (ss_heap s)(p \<mapsto> k\<lparr>sk_conn := Some c, sk_stop := Some False,
        sk_status := SocketStatusConnected, sk_heartbeat := 0\<rparr>),
      ss_tasks := ?ts @ [TRead p, TWrite p]\<rparr>)"
      by (rule ss_inv_set [OF inv k]) (use ok st ts in \<open>auto simp: sock_ok_def\<close>)
    then show ?thesis
      using d Some k
      by (auto elim!: ss_inv_same
          simp: reconnect_done_def connect_def go_start_def upd_def sock_Emit_def Emit_def)
  next
    case None
    let ?s = "s\<lparr>ss_tasks := ?ts\<rparr>"
    obtain pool where r: "release e p ?s = (Ok (), released p k pool ?s)" and pool: "clean_pool e pool"
      using release_ok [of ?s p k e] k ss_inv_facts(1,2) [OF inv] by auto
    have "ss_inv e (s\<lparr>ss_heap := (ss_heap s)(p \<mapsto> k\<lparr>sk_status := SocketStatusReleased,
        sk_data := None, sk_cwrite := (sk_cwrite k)\<lparr>items := []\<rparr>\<rparr>), ss_tasks := ?ts,
      ss_count := ss_count s - 1, ss_sockets := (ss_sockets s)(sk_id k := None), ss_pool := pool\<rparr>)"
      by (rule ss_inv_drop [OF inv k _ _ _ _ _ _ pool]) (use ok st ts in \<open>auto simp: sock_ok_def\<close>)
    then show ?thesis
      using d None r by (auto elim!: ss_inv_same simp: reconnect_done_def released_def)
  qed
qed

text \<open>The calls that keep the state of the socket.\<close>

lemma upd_keeps:
  assumes inv: "ss_inv e s"
    and f: "\<And>k. sk_id (f k) = sk_id k" "\<And>k. sk_status (f k) = sk_status k"
      "\<And>k. sock_ok k \<Longrightarrow> sock_ok (f k)"
  shows "ss_inv e (upd p f s)"
proof (cases "ss_heap s p")
  case None
  then have "upd p f s = s" by (simp add: upd_def fun_upd_idem)
  then show ?thesis using inv by simp
next
  case (Some k)
  show ?thesis by (rule ss_inv_upd [OF inv Some]) (simp_all add: f ss_inv_facts(3) [OF inv Some])
qed

lemma sock_ok_plain [simp]:
  "sock_ok (k\<lparr>sk_heartbeat := h\<rparr>) = sock_ok k" "sock_ok (k\<lparr>sk_data := d\<rparr>) = sock_ok k"
  "sock_ok (k\<lparr>sk_magic := m\<rparr>) = sock_ok k"
  by (simp_all add: sock_ok_def split: status.split)

lemma Close_keeps:
  assumes inv: "ss_inv e s" and k: "ss_heap s p = Some k"
  shows "ss_inv e (Close p delay s)"
proof (cases "sk_status k = SocketStatusConnected")
  case True
  note ok = ss_inv_facts(3) [OF inv k]
  have "ss_inv e (s\<lparr>ss_heap := (ss_heap s)(p \<mapsto> k\<lparr>sk_status := SocketStatusClosing\<rparr>),
      ss_tasks := ss_tasks s\<rparr>)"
    by (rule ss_inv_set [OF inv k])
      (use ok True k ss_inv_facts(4) [OF inv, of p] in \<open>auto simp: sock_ok_def reconnecting_def\<close>)
  then have "ss_inv e (upd p (\<lambda>k. k\<lparr>sk_status := SocketStatusClosing\<rparr>) s)"
    using k by (simp add: upd_heap)
  then show ?thesis
    using True k by (auto simp: Close_def Let_def split: list.split intro!: upd_keeps)
qed (use assms in \<open>simp add: Close_def\<close>)

lemma Authentication_keeps: "ss_inv e s \<Longrightarrow> ss_inv e (Authentication p v r s)"
  by (auto simp: Authentication_def Let_def intro!: upd_keeps ss_inv_sock_Emit)

lemma Replaced_keeps:
  assumes "ss_inv e s" "ss_heap s p = Some k"
  shows "ss_inv e (Replaced p ip s)"
proof -
  let ?s = "upd p (\<lambda>k. k\<lparr>sk_data := None\<rparr>) (sock_Emit EventTypeReplaced [ABytes ip] p s)"
  have "ss_inv e ?s" using assms(1) by (auto intro!: upd_keeps)
  moreover obtain k' where "ss_heap ?s p = Some k'" using assms(2) by (auto simp: upd_def)
  ultimately show ?thesis by (simp add: Replaced_def Let_def Close_keeps)
qed

lemma KeepAlive_keeps: "ss_inv e s \<Longrightarrow> ss_inv e (KeepAlive p s)"
  by (auto simp: KeepAlive_def Let_def split: option.split intro!: upd_keeps)

lemma sock_Magic_keeps: "ss_inv e s \<Longrightarrow> sock_Magic p ms s = (b, s') \<Longrightarrow> ss_inv e s'"
  by (cases ms) (auto simp: sock_Magic_def Let_def intro!: upd_keeps)

lemma Heartbeat_keeps:
  assumes inv: "ss_inv e s" and k: "ss_heap s p = Some k" and h: "sock_Heartbeat e v p s = (x, s')"
  shows "ss_inv e s'"
proof -
  let ?s = "upd p (\<lambda>k. k\<lparr>sk_heartbeat := sk_heartbeat k + v\<rparr>) s"
  have u: "ss_inv e ?s" using inv by (auto intro!: upd_keeps)
  obtain y t where d: "disconnect e p ?s = (y, t)" by fastforce
  obtain k' where k': "ss_heap ?s p = Some k'" using k by (simp add: upd_def)
  note t = disconnect_keeps [OF u k' d]
  show ?thesis
    using h inv u t d k
    by (cases y) (auto simp: sock_Heartbeat_def Let_def split: if_splits)
qed

text \<open>Sending and the write loop.\<close>

lemma Write_select_chan:
  assumes "Write_select pick safe m k = (x, ch)" "sock_ok k"
  shows "\<not> closed ch \<and> length (items ch) \<le> ccap ch
    \<and> (x \<noteq> Ok () \<longrightarrow> ch = sk_cwrite k)"
  using assms by (auto simp: Write_select_def sock_ok_def Let_def split: if_splits)

lemma sock_Write_keeps:
  assumes inv: "ss_inv e s" and k: "ss_heap s p = Some k" and w: "sock_Write pick p m safe s = (x, s')"
  shows "ss_inv e s'"
proof (cases "IsReady k")
  case False
  then show ?thesis using inv k w by (simp add: sock_Write_def)
next
  case True
  note ok = ss_inv_facts(3) [OF inv k]
  obtain y ch where sel: "Write_select pick safe m k = (y, ch)" by fastforce
  have "sock_ok (k\<lparr>sk_cwrite := ch\<rparr>)"
    using Write_select_chan [OF sel ok] True ok by (simp add: sock_ok_def IsReady_def)
  then have "ss_inv e (upd p (\<lambda>k. k\<lparr>sk_cwrite := ch\<rparr>) s)"
    by (intro ss_inv_upd [OF inv k]) simp_all
  then show ?thesis
    using w inv k True sel by (cases y) (auto simp: sock_Write_def)
qed

lemma Release_keeps:
  "ss_inv e s \<Longrightarrow> Release e i (ss_pool s) = (x, pool) \<Longrightarrow> ss_inv e (s\<lparr>ss_pool := pool\<rparr>)"
  by (rule ss_inv_pool) (auto dest: Release_clean ss_inv_facts(2))

lemma give_back_keeps: "ss_inv e s \<Longrightarrow> give_back e m er s = (x, s') \<Longrightarrow> ss_inv e s'"
  by (auto simp: give_back_def split: prod.splits outcome.splits intro: Release_keeps)

lemma SendWithMagic_keeps:
  assumes inv: "ss_inv e s" and k: "ss_heap s p = Some k"
    and r: "SendWithMagic e pk pick p magic flag index path data safe s = (x, s')"
  shows "ss_inv e s'"
proof -
  obtain m pool where rq: "Require e pk (ss_pool s) = (m, pool)" by fastforce
  obtain y m' where mm: "Marshal e magic flag index path data m = (y, m')" by fastforce
  let ?s = "s\<lparr>ss_pool := pool\<rparr>"
  have u: "ss_inv e ?s"
    using Require_clean [OF ss_inv_facts(2) [OF inv] rq] inv by (simp add: ss_inv_pool)
  obtain z t where w: "sock_Write pick p m' safe ?s = (z, t)" by fastforce
  have "ss_inv e t" using sock_Write_keeps [OF u _ w] k by simp
  then show ?thesis
    using r u by (cases y; cases z) (auto simp: SendWithMagic_def rq mm w Let_def
      intro: give_back_keeps)
qed

lemma Send_keeps:
  "ss_inv e s \<Longrightarrow> ss_heap s p = Some k \<Longrightarrow>
   Send e pk pick p flag index path data safe s = (x, s') \<Longrightarrow> ss_inv e s'"
  unfolding Send_def by (rule SendWithMagic_keeps)

lemma writeMsgTrue_keeps:
  assumes "ss_inv e s" "writeMsgTrue e fault p m s = (x, s')"
  shows "ss_inv e s'"
proof -
  define t where "t = (case (sk_conn (sock p s), fault) of
                 (None, _) \<Rightarrow> Errorf (Some p) (ErrNew ''nil pointer dereference'') s
               | (Some _, Some er) \<Rightarrow> Errorf (Some p) er s
               | (Some _, None) \<Rightarrow> s)"
  have "ss_inv e t" using assms(1) by (auto simp: t_def split: option.split)
  then show ?thesis
    using assms(2) unfolding writeMsgTrue_def Let_def t_def [symmetric]
    by (auto split: prod.splits intro: Release_keeps)
qed

lemma writeMsg_turn_keeps:
  assumes inv: "ss_inv e s" and k: "ss_heap s p = Some k"
    and w: "writeMsg_turn e ctx pick fault p s = (x, s')"
  shows "ss_inv e s'"
proof -
  obtain y t where d: "disconnect e p s = (y, t)" by fastforce
  note t = disconnect_keeps [OF inv k d]
  define stop where "stop = and_then (disconnect e p s) (\<lambda>_ s. (Ok False, end_task (TWrite p) s))"
  have stop: "ss_inv e (snd stop)"
    using t by (cases y) (auto simp: stop_def d intro!: ss_inv_end_task)
  show ?thesis
  proof (cases "items (sk_cwrite k)")
    case Nil
    then show ?thesis
      using w stop inv k by (auto simp: writeMsg_turn_def Let_def stop_def split: if_splits)
  next
    case (Cons m ms)
    let ?u = "upd p (\<lambda>k. k\<lparr>sk_cwrite := (sk_cwrite k)\<lparr>items := ms\<rparr>\<rparr>) s"
    have "sock_ok (k\<lparr>sk_cwrite := (sk_cwrite k)\<lparr>items := ms\<rparr>\<rparr>)"
      using ss_inv_facts(3) [OF inv k] Cons by (auto simp: sock_ok_def split: status.splits)
    then have u: "ss_inv e ?u" by (intro ss_inv_upd [OF inv k]) simp_all
    obtain z v where v: "writeMsgTrue e fault p m ?u = (z, v)" by fastforce
    show ?thesis
      using w stop Cons k v writeMsgTrue_keeps [OF u v]
      by (cases z) (auto simp: writeMsg_turn_def Let_def stop_def split: if_splits)
  qed
qed

lemma hand_over_keeps:
  assumes "ss_inv e s" "hand_over e pick fault p m s = (x, y, s')"
  shows "ss_inv e s'"
proof -
  obtain z t where z: "writeMsgTrue e fault p m s = (z, t)" by fastforce
  have "ss_inv e t" by (rule writeMsgTrue_keeps [OF assms(1) z])
  then show ?thesis using assms z by (cases z) (auto simp: hand_over_def split: if_splits)
qed

text \<open>Creating sockets. The counter of ids must not wrap around.\<close>

lemma Create_refused:
  "stopped \<Longrightarrow> Create stopped conn s = (Err (ErrNew ''server closed''), s)"
  "\<not> stopped \<Longrightarrow> 0 < sint (ConnectMaxSize (ss_opts s)) \<Longrightarrow>
    sint (ConnectMaxSize (ss_opts s)) \<le> sint (ss_count s) \<Longrightarrow>
    Create stopped conn s =
      (Err (ErrNew ''max connections reached''), s\<lparr>ss_closed := ss_closed s @ [conn]\<rparr>)"
  by (simp_all add: Create_def)

text \<open>The state \<open>Create\<close> leaves when it succeeds.\<close>

definition created :: "nat \<Rightarrow> sockets \<Rightarrow> sockets" where
  "created conn s =
     (let i = ss_index s + 1; p = ss_next s in
      go_start [TRead p, TWrite p]
       (sock_Emit EventTypeConnected [] p
        (s\<lparr>ss_index := i, ss_next := Suc p,
           ss_heap := (ss_heap s)(p \<mapsto>
             (fresh_socket i (nat (sint (WriteChanSize (ss_opts s)))))
               \<lparr>sk_conn := Some conn, sk_stop := Some False, sk_status := SocketStatusConnected,
                sk_heartbeat := 0\<rparr>),
           ss_sockets := (ss_sockets s)(i \<mapsto> p), ss_count := ss_count s + 1\<rparr>)))"

lemma Create_ok:
  assumes "\<not> stopped" "0 \<le> sint (WriteChanSize (ss_opts s))"
    "0 < sint (ConnectMaxSize (ss_opts s)) \<longrightarrow> sint (ss_count s) < sint (ConnectMaxSize (ss_opts s))"
  shows "Create stopped conn s = (Ok (ss_next s), created conn s)"
  using assms
  by (auto simp: Create_def created_def connect_def upd_def sock_Emit_def Emit_def go_start_def Let_def
      intro!: sockets.equality)

lemma Create_cases:
  assumes "Create stopped conn s = (x, s')"
  obtains "s' = s" "\<And>p. x \<noteq> Ok p"
  | "s' = s\<lparr>ss_closed := ss_closed s @ [conn]\<rparr>" "\<And>p. x \<noteq> Ok p"
  | "s' = s\<lparr>ss_index := ss_index s + 1\<rparr>" "\<And>p. x \<noteq> Ok p"
  | "x = Ok (ss_next s)" "s' = created conn s"
      "0 < sint (ConnectMaxSize (ss_opts s)) \<longrightarrow> sint (ss_count s) < sint (ConnectMaxSize (ss_opts s))"
proof (cases stopped)
  case True
  then show ?thesis using assms that(1) by (auto simp: Create_refused)
next
  case live: False
  show ?thesis
  proof (cases "0 < sint (ConnectMaxSize (ss_opts s))
      \<and> sint (ConnectMaxSize (ss_opts s)) \<le> sint (ss_count s)")
    case True
    then show ?thesis using assms that(2) live by (auto simp: Create_refused)
  next
    case room: False
    show ?thesis
    proof (cases "sint (WriteChanSize (ss_opts s)) < 0")
      case True
      then have "Create stopped conn s = (Panic, s\<lparr>ss_index := ss_index s + 1\<rparr>)"
        using live room by (simp only: Create_def Let_def) simp
      then show ?thesis using assms that(3) by auto
    next
      case False
      then have "Create stopped conn s = (Ok (ss_next s), created conn s)"
        using live room by (intro Create_ok) auto
      then show ?thesis using assms room that(4) by (auto simp: not_le)
    qed
  qed
qed

lemma index_fresh:
  fixes i :: u64
  shows "i \<noteq> - 1 \<Longrightarrow> i < i + 1"
  using inc_less_eq_self_iff_eq [of i] by (simp add: not_le)

lemma count_sint:
  assumes "count_inv s" "0 < sint (ConnectMaxSize (ss_opts s))"
  shows "sint (ss_count s) = int (card (dom (ss_sockets s)))"
proof -
  have "sint (ConnectMaxSize (ss_opts s)) < 2 ^ 31"
    using sint_lt [of "ConnectMaxSize (ss_opts s)"] by simp
  then have "card (dom (ss_sockets s)) < 2 ^ 63" using assms by (simp add: count_inv_def)
  then show ?thesis using assms by (simp add: count_inv_def sint_word_of_nat64)
qed

lemma next_free: "heap_inv s \<Longrightarrow> ss_heap s (ss_next s) = None"
  by (cases "ss_heap s (ss_next s)") (auto simp: heap_inv_def)

lemma heap_inv_bump:
  assumes "heap_inv s" "ss_index s \<noteq> - 1" "ss_heap s q = Some k"
  shows "sk_id k \<le> ss_index s + 1" "sk_id k \<noteq> ss_index s + 1"
proof -
  have "sk_id k \<le> ss_index s" using assms by (simp add: heap_inv_def)
  also have "ss_index s < ss_index s + 1" by (rule index_fresh [OF assms(2)])
  finally show "sk_id k \<le> ss_index s + 1" "sk_id k \<noteq> ss_index s + 1" by auto
qed

lemma created_keeps:
  assumes inv: "ss_inv e s" and i: "ss_index s \<noteq> - 1"
    and room: "0 < sint (ConnectMaxSize (ss_opts s)) \<longrightarrow>
      sint (ss_count s) < sint (ConnectMaxSize (ss_opts s))"
  shows "ss_inv e (created conn s)"
proof -
  let ?i = "ss_index s + 1" and ?p = "ss_next s"
  let ?k = "(fresh_socket ?i (nat (sint (WriteChanSize (ss_opts s)))))\<lparr>sk_conn := Some conn,
    sk_stop := Some False, sk_status := SocketStatusConnected, sk_heartbeat := 0\<rparr>"
  let ?t = "s\<lparr>ss_index := ?i, ss_next := Suc ?p, ss_heap := (ss_heap s)(?p \<mapsto> ?k),
    ss_sockets := (ss_sockets s)(?i \<mapsto> ?p), ss_count := ss_count s + 1\<rparr>"
  have h: "heap_inv s" and tb: "table_inv s" and c: "count_inv s" and ts: "task_inv s"
    using inv by (simp_all add: ss_inv_def)
  note p = next_free [OF h] and bump = heap_inv_bump [OF h i]
  have ids: "\<And>q k. ss_heap s q = Some k \<Longrightarrow> sk_id k \<noteq> ?i" by (rule bump(2))
  then have new: "?i \<notin> dom (ss_sockets s)" using tb by (auto simp: table_inv_def)
  have "heap_inv ?t"
    using h bump(1) by (auto simp: heap_inv_def fresh_socket_def sock_ok_def make_chan_def
        intro: less_SucI)
  moreover have "table_inv ?t"
    using tb p ids by (auto simp: table_inv_def fresh_socket_def)
  moreover have "count_inv ?t"
    using c new room count_sint [OF c] by (auto simp: count_inv_def card_insert_if)
  moreover have "task_inv ?t"
    using ts p by (auto simp: task_inv_def reconnecting_def fresh_socket_def)
  ultimately have "ss_inv e ?t" using inv by (simp add: ss_inv_def)
  then show ?thesis by (auto simp: created_def Let_def intro!: ss_inv_go_start ss_inv_sock_Emit)
qed

lemma index_bump:
  assumes "ss_inv e s" "ss_index s \<noteq> - 1"
  shows "ss_inv e (s\<lparr>ss_index := ss_index s + 1\<rparr>)"
proof -
  have h: "heap_inv s" using assms(1) by (simp add: ss_inv_def)
  then have "heap_inv (s\<lparr>ss_index := ss_index s + 1\<rparr>)"
    using heap_inv_bump(1) [OF h assms(2)] by (simp add: heap_inv_def)
  then show ?thesis
    using assms(1) by (simp add: ss_inv_def table_inv_def count_inv_def task_inv_def reconnecting_def)
qed

lemma Create_keeps:
  assumes "ss_inv e s" "ss_index s \<noteq> - 1" "Create stopped conn s = (x, s')"
  shows "ss_inv e s'"
  using assms(3)
  by (rule Create_cases) (use assms(1,2) in \<open>auto intro: created_keeps index_bump\<close>)

lemma Connect_keeps:
  assumes inv: "ss_inv e s" and i: "ss_index s \<noteq> - 1"
    and c: "Connect stopped address r s = (x, s')"
  shows "ss_inv e s'"
proof (cases r)
  case (Inl er)
  then show ?thesis using inv c by (simp add: Connect_def)
next
  case (Inr conn)
  obtain y t where y: "Create stopped conn s = (y, t)" by fastforce
  note t = Create_keeps [OF inv i y]
  show ?thesis
  proof (cases y)
    case (Ok p)
    have "t = created conn s \<and> p = ss_next s" using y by (rule Create_cases) (use Ok in auto)
    then obtain k where k: "ss_heap t p = Some k" "sk_status k = SocketStatusConnected"
      by (auto simp: created_def go_start_def Let_def)
    have "ss_inv e (upd p (\<lambda>k. k\<lparr>sk_address := address\<rparr>) t)"
      using ss_inv_facts(3) [OF t k(1)] k(2)
      by (intro ss_inv_upd [OF t k(1)]) (simp_all add: sock_ok_def)
    then show ?thesis using c Inr y Ok by (simp add: Connect_def)
  qed (use c Inr y t in \<open>auto simp: Connect_def\<close>)
qed

end
