(* ===== verification/Handler.thy ===== *)
theory Handler
  imports SocketsInv
begin

text \<open>
  \<open>handler.go\<close>, \<open>context.go\<close> and the receiving half of \<open>socket.go\<close>: from a message read off the
  connection to the handler that is registered for its path, and back to the reply. The registry
  belongs to another module: a node is known by what the code asks of it, and \<open>search\<close> is the
  registry's lookup. The functions of the application return a value or panic; calls they make
  on sockets are calls of their own.
\<close>

section \<open>Handlers and nodes\<close>

record node =
  is_func :: bool
  is_method :: bool
  method_ok :: bool
  num_in :: nat
  num_out :: nat
  has_caller :: bool
  call_func :: "nat \<Rightarrow> message \<Rightarrow> any outcome"
  call_caller :: "nat \<Rightarrow> message \<Rightarrow> any outcome"
  call_reflect :: "nat \<Rightarrow> message \<Rightarrow> any outcome"

text \<open>
  \<open>method_ok\<close>: the method is a function of a context that returns a value; \<open>num_in\<close> and
  \<open>num_out\<close> are what reflection says of it; \<open>has_caller\<close>: the object has a \<open>Caller\<close> method.
\<close>

record handler =
  filter_fn :: "(node \<Rightarrow> bool) option"
  caller_fn :: "(node \<Rightarrow> nat \<Rightarrow> message \<Rightarrow> any outcome) option"
  serialize_fn :: "(nat \<Rightarrow> message \<Rightarrow> any \<Rightarrow> err + bytes) option"

definition new_handler :: handler where
  "new_handler = \<lparr>filter_fn = None, caller_fn = None, serialize_fn = None\<rparr>"

definition SetCaller :: "(node \<Rightarrow> nat \<Rightarrow> message \<Rightarrow> any outcome) \<Rightarrow> handler \<Rightarrow> handler" where
  "SetCaller f h = h\<lparr>caller_fn := Some f\<rparr>"

definition SetFilter :: "(node \<Rightarrow> bool) \<Rightarrow> handler \<Rightarrow> handler" where
  "SetFilter f h = h\<lparr>filter_fn := Some f\<rparr>"

definition SetSerialize :: "(nat \<Rightarrow> message \<Rightarrow> any \<Rightarrow> err + bytes) \<Rightarrow> handler \<Rightarrow> handler" where
  "SetSerialize f h = h\<lparr>serialize_fn := Some f\<rparr>"

text \<open>What may be registered.\<close>

definition Filter :: "handler \<Rightarrow> node \<Rightarrow> bool" where
  "Filter h nd =
     (case filter_fn h of
        Some f \<Rightarrow> f nd
      | None \<Rightarrow>
          if is_func nd then method_ok nd
          else if is_method nd then \<not> (num_in nd \<noteq> 2 \<or> num_out nd \<noteq> 1)
          else True)"

definition handler_handle :: "handler \<Rightarrow> node \<Rightarrow> nat \<Rightarrow> message \<Rightarrow> any outcome" where
  "handler_handle h nd p m =
     (case caller_fn h of
        Some f \<Rightarrow> f nd p m
      | None \<Rightarrow>
          if is_func nd then (if method_ok nd then call_func nd p m else Panic)
          else if has_caller nd then call_caller nd p m
          else if num_out nd = 0 then Panic else call_reflect nd p m)"

text \<open>A message whose magic number is not registered has no serialisation: calling it panics.\<close>

definition defaultSerialize :: "env \<Rightarrow> message \<Rightarrow> any \<Rightarrow> bytes outcome" where
  "defaultSerialize e m v =
     (case head_Binder e m of None \<Rightarrow> Panic | Some bi \<Rightarrow> lift_sum (b_marshal bi v))"

definition reply_data :: "env \<Rightarrow> handler \<Rightarrow> nat \<Rightarrow> message \<Rightarrow> any \<Rightarrow> bytes outcome" where
  "reply_data e h p m reply =
     (case reply of
        VBytes v \<Rightarrow> Ok v
      | VBytesPtr v \<Rightarrow> Ok v
      | VNilBytesPtr \<Rightarrow> Panic
      | _ \<Rightarrow> (case serialize_fn h of
               Some f \<Rightarrow> lift_sum (f p m reply)
             | None \<Rightarrow> defaultSerialize e m reply))"

text \<open>
  \<open>reply\<close>: confirmations and messages that want no reply get none. The choices of the runtime
  inside the send are \<open>pk\<close> and \<open>pick\<close>.
\<close>

definition reply_flag :: "flag \<Rightarrow> flag" where
  "reply_flag f = (if Has f FlagHeartbeat then Set FlagConfirm FlagHeartbeat else FlagConfirm)"

definition handler_reply ::
  "env \<Rightarrow> nat option \<Rightarrow> bool \<Rightarrow> handler \<Rightarrow> nat \<Rightarrow> message \<Rightarrow> any \<Rightarrow> sockets \<Rightarrow> (unit, sockets) run" where
  "handler_reply e pk pick h p m reply s =
     (if Has (h_flag m) FlagConfirm \<or> Has (h_flag m) FlagNoreply then (Ok (), s)
      else case Confirm e m of
        (Ok replyConfirm, m) \<Rightarrow>
          (case magics_Get (Magics e) (h_magic m) of
             None \<Rightarrow> (case reply_data e h p m reply of Err er \<Rightarrow> (Err er, s) | _ \<Rightarrow> (Panic, s))
           | Some mg \<Rightarrow>
               and_then (reply_data e h p m reply, s) (\<lambda>data s.
                 SendWithMagic e pk pick p (Key mg) (reply_flag (h_flag m)) (h_index m)
                   (PathString replyConfirm) (VBytes data) [] s))
      | (x, _) \<Rightarrow> (done_with x, s))"

section \<open>Dispatching a message\<close>

text \<open>
  What \<open>node.Handler()\<close> is: no value or one of a foreign type, for both of which the type assertion to
  \<open>*Handler\<close> panics; a pointer of that type that is nil, which is what the test behind the assertion
  finds; or a handler of ours.
\<close>

datatype node_handler = NilHandler | OtherHandler | OwnHandler handler

type_synonym registry = "bytes \<Rightarrow> (node \<times> node_handler) option"

text \<open>A panic becomes an error event.\<close>

definition handle_body ::
  "env \<Rightarrow> registry \<Rightarrow> nat option \<Rightarrow> bool \<Rightarrow> nat \<Rightarrow> message \<Rightarrow> sockets \<Rightarrow> (unit, sockets) run" where
  "handle_body e search pk pick p m s =
     (case Path e m of
        (Err er, m) \<Rightarrow> (Ok (), Errorf (Some p) (ErrText ''message path error'' er) s)
      | (Ok (path, _), m) \<Rightarrow>
          (case search path of
             None \<Rightarrow> (Ok (), sock_Emit EventTypeMessage [AMessage m] p s)
           | Some (nd, OtherHandler) \<Rightarrow> (Panic, s)
           | Some (nd, NilHandler) \<Rightarrow> (Ok (), Errorf (Some p) (ErrNew ''no handler'') s)
           | Some (nd, OwnHandler h) \<Rightarrow>
               and_then (handler_handle h nd p m, s) (\<lambda>reply s.
                 case handler_reply e pk pick h p m reply s of
                   (Err er, s) \<Rightarrow> (Ok (), Errorf (Some p) (ErrText ''write reply message error'' er) s)
                 | r \<Rightarrow> r))
      | (x, _) \<Rightarrow> (done_with x, s))"

definition sock_handle ::
  "env \<Rightarrow> registry \<Rightarrow> nat option \<Rightarrow> bool \<Rightarrow> nat \<Rightarrow> message \<Rightarrow> sockets \<Rightarrow> (unit, sockets) run" where
  "sock_handle e search pk pick p m s =
     (case handle_body e search pk pick p m s of
        (Panic, s) \<Rightarrow> (Ok (), Errorf (Some p) (ErrNew ''server handle error'') s)
      | r \<Rightarrow> r)"

definition readMsgTrue ::
  "env \<Rightarrow> registry \<Rightarrow> nat option \<Rightarrow> bool \<Rightarrow> nat \<Rightarrow> message \<Rightarrow> sockets \<Rightarrow> (unit, sockets) run" where
  "readMsgTrue e search pk pick p m s =
     (let s = KeepAlive p s in
      case magics_Get (Magics e) (h_magic m) of
        None \<Rightarrow> (Ok (), s)
      | Some mg \<Rightarrow> if Key mg = 0 then (Ok (), s) else sock_handle e search pk pick p m s)"

section \<open>The read loop\<close>

text \<open>The end of the loop: the error is announced unless it only says that the peer is gone.\<close>

definition readMsg_end :: "env \<Rightarrow> err \<Rightarrow> nat \<Rightarrow> sockets \<Rightarrow> (bool, sockets) run" where
  "readMsg_end e er p s =
     (let s = (if er \<noteq> ErrEOF \<and> \<not> errors_is er ErrNetClosed then Errorf (Some p) er s else s) in
      and_then (disconnect e p s) (\<lambda>_ s. (Ok False, end_task (TRead p) s)))"

definition release_to_pool :: "env \<Rightarrow> message \<Rightarrow> sockets \<Rightarrow> (unit, sockets) run" where
  "release_to_pool e m s =
     (case Release e (Some m) (ss_pool s) of (x, pool) \<Rightarrow> (x, s\<lparr>ss_pool := pool\<rparr>))"

text \<open>
  One turn of \<open>readMsg\<close>, and whether the loop goes on. \<open>rd\<close> is the connection's
  \<open>ReadMessage\<close>: it fills the message it is given. A panic also ends the loop, after the
  deferred \<open>disconnect\<close>.
\<close>

definition readMsg_turn ::
  "env \<Rightarrow> bool \<Rightarrow> registry \<Rightarrow> nat option \<Rightarrow> nat option \<Rightarrow> bool
    \<Rightarrow> (message \<Rightarrow> (unit, message) run) \<Rightarrow> nat \<Rightarrow> sockets \<Rightarrow> (bool, sockets) run" where
  "readMsg_turn e stopped search pk pk' pick rd p s =
     (if stopped then and_then (disconnect e p s) (\<lambda>_ s. (Ok False, end_task (TRead p) s))
      else case Require e pk (ss_pool s) of (m, pool) \<Rightarrow>
        let s = s\<lparr>ss_pool := pool\<rparr> in
        (case (if sk_conn (sock p s) = None then (Panic, m) else rd m) of
           (Ok _, m) \<Rightarrow>
             and_then (readMsgTrue e search pk' pick p m s) (\<lambda>_ s.
             and_then (release_to_pool e m s) (\<lambda>_ s. (Ok True, s)))
         | (Err er, m) \<Rightarrow> and_then (release_to_pool e m s) (\<lambda>_ s. readMsg_end e er p s)
         | (Panic, _) \<Rightarrow> and_then (disconnect e p s) (\<lambda>_ s. (Panic, end_task (TRead p) s))
         | (Blocked, _) \<Rightarrow> (Blocked, s)))"

section \<open>The context a handler gets\<close>

text \<open>The methods of \<open>Context\<close> forward to its message and its socket.\<close>

definition ctx_Path :: "env \<Rightarrow> message \<Rightarrow> (bytes \<times> bytes, message) run" where
  "ctx_Path e m = Path e m"

definition ctx_Bind :: "env \<Rightarrow> message \<Rightarrow> (any, message) run" where
  "ctx_Bind e m = Unmarshal e m"

text \<open>The error of the write is dropped.\<close>

definition ctx_Write :: "bool \<Rightarrow> nat \<Rightarrow> message \<Rightarrow> sockets \<Rightarrow> (unit, sockets) run" where
  "ctx_Write pick p m s =
     (case sock_Write pick p m [] s of (Err _, s) \<Rightarrow> (Ok (), s) | r \<Rightarrow> r)"

definition ctx_Accept :: "env \<Rightarrow> message \<Rightarrow> codec option" where
  "ctx_Accept e m = head_Binder e m"

end
