(* ===== verification/Manager.thy ===== *)
theory Manager
  imports Handler
begin

text \<open>
  All the calls and all the turns of the loops as the steps of one machine, with the invariant of
  \<open>SocketsInv\<close>; and what follows for the limit on connections, for the table and for the
  reconnections, in any run.
\<close>

section \<open>Receiving keeps the invariant\<close>

lemma Release_pool_keeps: "ss_inv e s \<Longrightarrow> release_to_pool e m s = (x, s') \<Longrightarrow> ss_inv e s'"
  by (auto simp: release_to_pool_def split: prod.splits intro: Release_keeps)

lemma KeepAlive_heap: "ss_heap s p = Some k \<Longrightarrow> \<exists>k. ss_heap (KeepAlive q s) p = Some k"
  by (auto simp: KeepAlive_def upd_def Let_def split: option.split)

lemma handler_reply_keeps:
  assumes "ss_inv e s" "ss_heap s p = Some k" "handler_reply e pk pick h p m v s = (x, s')"
  shows "ss_inv e s'"
proof -
  obtain c m' where c: "Confirm e m = (c, m')" by fastforce
  obtain d where d: "reply_data e h p m' v = d" by blast
  show ?thesis
    using assms c d
    by (cases c; cases d)
      (auto simp: handler_reply_def split: if_splits option.splits intro: SendWithMagic_keeps)
qed

lemma handle_body_keeps:
  assumes inv: "ss_inv e s" and k: "ss_heap s p = Some k"
    and b: "handle_body e search pk pick p m s = (x, s')"
  shows "ss_inv e s'"
proof -
  obtain pr m' where pr: "Path e m = (pr, m')" by fastforce
  show ?thesis
  proof (cases pr)
    case (Ok pq)
    obtain path q where pq: "pq = (path, q)" by fastforce
    show ?thesis
    proof (cases "search path")
      case None
      then show ?thesis using b pr Ok pq inv by (auto simp: handle_body_def)
    next
      case (Some n)
      obtain nd nh where n: "n = (nd, nh)" by fastforce
      show ?thesis
      proof (cases nh)
        case (OwnHandler h)
        obtain v where v: "handler_handle h nd p m' = v" by blast
        show ?thesis
        proof (cases v)
          case (Ok rp)
          obtain y t where y: "handler_reply e pk pick h p m' rp s = (y, t)" by fastforce
          have "ss_inv e t" by (rule handler_reply_keeps [OF inv k y])
          then show ?thesis
            using b pr \<open>pr = Ok pq\<close> pq Some n OwnHandler v Ok y by (cases y) (auto simp: handle_body_def)
        qed (use b pr Ok pq Some n OwnHandler v inv in \<open>auto simp: handle_body_def\<close>)
      qed (use b pr Ok pq Some n inv in \<open>auto simp: handle_body_def\<close>)
    qed
  qed (use b pr inv in \<open>auto simp: handle_body_def\<close>)
qed

lemma sock_handle_keeps:
  assumes "ss_inv e s" "ss_heap s p = Some k" "sock_handle e search pk pick p m s = (x, s')"
  shows "ss_inv e s'"
proof -
  obtain y t where y: "handle_body e search pk pick p m s = (y, t)" by fastforce
  have "ss_inv e t" by (rule handle_body_keeps [OF assms(1,2) y])
  then show ?thesis using assms(3) y by (cases y) (auto simp: sock_handle_def)
qed

lemma readMsgTrue_keeps:
  assumes "ss_inv e s" "ss_heap s p = Some k" "readMsgTrue e search pk pick p m s = (x, s')"
  shows "ss_inv e s'"
proof -
  have i: "ss_inv e (KeepAlive p s)" using assms(1) by (rule KeepAlive_keeps)
  obtain k' where "ss_heap (KeepAlive p s) p = Some k'" using KeepAlive_heap [OF assms(2)] by blast
  from sock_handle_keeps [OF i this] show ?thesis
    using assms(3) i by (auto simp: readMsgTrue_def Let_def split: option.splits if_splits)
qed

lemma disconnect_ends:
  assumes inv: "ss_inv e s" and k: "ss_heap s p = Some k"
    and d: "and_then (disconnect e p s) (\<lambda>_ s. (x, end_task t s)) = (y, s')"
    and t: "\<And>p. t \<noteq> TReconnect p"
  shows "ss_inv e s'"
proof -
  obtain z u where z: "disconnect e p s = (z, u)" by fastforce
  have "ss_inv e u" by (rule disconnect_keeps [OF inv k z])
  then show ?thesis using d z t by (cases z) (auto intro: ss_inv_end_task)
qed

lemma readMsg_end_keeps:
  assumes "ss_inv e s" "ss_heap s p = Some k" "readMsg_end e er p s = (x, s')"
  shows "ss_inv e s'"
proof -
  define t where "t = (if er \<noteq> ErrEOF \<and> \<not> errors_is er ErrNetClosed then Errorf (Some p) er s else s)"
  have "ss_inv e t" "ss_heap t p = Some k" using assms(1,2) by (auto simp: t_def Errorf_def)
  then show ?thesis
    using assms(3) unfolding readMsg_end_def Let_def t_def [symmetric]
    by (rule disconnect_ends) simp_all
qed

lemma readMsg_turn_keeps:
  assumes inv: "ss_inv e s" and k: "ss_heap s p = Some k"
    and r: "readMsg_turn e stopped search pk pk' pick rd p s = (x, s')"
  shows "ss_inv e s'"
proof (cases stopped)
  case True
  show ?thesis
    by (rule disconnect_ends [OF inv k]) (use r True in \<open>auto simp: readMsg_turn_def\<close>)
next
  case False
  obtain m pool where rq: "Require e pk (ss_pool s) = (m, pool)" by fastforce
  let ?s = "s\<lparr>ss_pool := pool\<rparr>"
  have u: "ss_inv e ?s"
    using Require_clean [OF ss_inv_facts(2) [OF inv] rq] inv by (simp add: ss_inv_pool)
  have ku: "ss_heap ?s p = Some k" using k by simp
  obtain y m' where y: "(if sk_conn (sock p ?s) = None then (Panic, m) else rd m) = (y, m')"
    by fastforce
  have eq: "readMsg_turn e stopped search pk pk' pick rd p s = (case (y, m') of
       (Ok _, m) \<Rightarrow> and_then (readMsgTrue e search pk' pick p m ?s) (\<lambda>_ s.
             and_then (release_to_pool e m s) (\<lambda>_ s. (Ok True, s)))
     | (Err er, m) \<Rightarrow> and_then (release_to_pool e m ?s) (\<lambda>_ s. readMsg_end e er p s)
     | (Panic, _) \<Rightarrow> and_then (disconnect e p ?s) (\<lambda>_ s. (Panic, end_task (TRead p) s))
     | (Blocked, _) \<Rightarrow> (Blocked, ?s))"
    using False by (simp only: readMsg_turn_def rq Let_def if_False prod.case y)
  obtain rx t where t: "release_to_pool e m' ?s = (rx, t)" by fastforce
  have it: "ss_inv e t" and kt: "ss_heap t p = Some k"
    using Release_pool_keeps [OF u t] t k by (auto simp: release_to_pool_def split: prod.splits)
  obtain hx v where v: "readMsgTrue e search pk' pick p m' ?s = (hx, v)" by fastforce
  have iv: "ss_inv e v" by (rule readMsgTrue_keeps [OF u ku v])
  obtain wx w where w: "release_to_pool e m' v = (wx, w)" by fastforce
  have iw: "ss_inv e w" by (rule Release_pool_keeps [OF iv w])
  show ?thesis
  proof (cases y)
    case (Ok a)
    then show ?thesis using r iv iw v w by (cases hx; cases wx) (auto simp: eq)
  next
    case (Err er)
    then show ?thesis using r it t readMsg_end_keeps [OF it kt] by (cases rx) (auto simp: eq)
  next
    case Panic
    show ?thesis
      by (rule disconnect_ends [OF u ku]) (use r Panic eq in auto)
  next
    case Blocked
    then show ?thesis using r u by (simp add: eq)
  qed
qed

section \<open>The machine\<close>

text \<open>
  The steps: calls of the application, turns of the two loops, the end of a reconnection, a
  beat of the heart over the table in some order. A call on a socket is a call on one that was
  created; ids are taken while the 64-bit counter has not run out.
\<close>

inductive ss_step :: "env \<Rightarrow> sockets \<Rightarrow> sockets \<Rightarrow> bool" for e where
  create: "ss_index s \<noteq> - 1 \<Longrightarrow> Create stopped conn s = (x1, t) \<Longrightarrow> ss_step e s t"
| dial: "ss_index s \<noteq> - 1 \<Longrightarrow> Connect stopped address r s = (x1, t) \<Longrightarrow> ss_step e s t"
| accepted: "ss_index s \<noteq> - 1 \<Longrightarrow> accept_turn stopped ar s = (x2, t) \<Longrightarrow> ss_step e s t"
| listen_on: "Accept ln s = t \<Longrightarrow> ss_step e s t"
| start: "Start s = t \<Longrightarrow> ss_step e s t"
| listener: "On ev f s = t \<Longrightarrow> ss_step e s t"
| emit: "Emit ev q a s = t \<Longrightarrow> ss_step e s t"
| close_call: "ss_heap s p = Some k \<Longrightarrow> Close p delay s = t \<Longrightarrow> ss_step e s t"
| authentication: "ss_heap s p = Some k \<Longrightarrow> Authentication p v rc s = t \<Longrightarrow> ss_step e s t"
| replaced: "ss_heap s p = Some k \<Longrightarrow> Replaced p ip s = t \<Longrightarrow> ss_step e s t"
| set_magic: "ss_heap s p = Some k \<Longrightarrow> sock_Magic p ms s = (b, t) \<Longrightarrow> ss_step e s t"
| send: "ss_heap s p = Some k \<Longrightarrow>
    SendWithMagic e pk pick p magic flag index path data safe s = (x3, t) \<Longrightarrow> ss_step e s t"
| put: "ss_heap s p = Some k \<Longrightarrow> sock_Write pick p m safe s = (x3, t) \<Longrightarrow> ss_step e s t"
| reader: "ss_heap s p = Some k \<Longrightarrow>
    readMsg_turn e stopped search pk pk' pick rd p s = (x4, t) \<Longrightarrow> ss_step e s t"
| writer: "ss_heap s p = Some k \<Longrightarrow> writeMsg_turn e ctx pick fault p s = (x4, t) \<Longrightarrow> ss_step e s t"
| hand: "ss_heap s p = Some k \<Longrightarrow> ccap (sk_cwrite k) = 0 \<Longrightarrow>
    hand_over e pick fault p m s = (x3, x4, t) \<Longrightarrow> ss_step e s t"
| reconnect: "TReconnect p \<in> set (ss_tasks s) \<Longrightarrow>
    reconnect_done e p c s = (x3, t) \<Longrightarrow> ss_step e s t"
| beat: "sockets_Heartbeat e v order s = (x3, t) \<Longrightarrow> ss_step e s t"

inductive_cases ss_stepE: "ss_step e s t"

lemma Range_keeps:
  assumes f: "\<And>p s x t k. ss_inv e s \<Longrightarrow> ss_heap s p = Some k \<Longrightarrow> f p s = (x, t) \<Longrightarrow> ss_inv e t"
  shows "ss_inv e s \<Longrightarrow> Range f is s = (x, t) \<Longrightarrow> ss_inv e t"
proof (induction "is" arbitrary: s)
  case (Cons i ids)
  show ?case
  proof (cases "ss_sockets s i")
    case None
    then show ?thesis using Cons by simp
  next
    case (Some p)
    then obtain k where k: "ss_heap s p = Some k"
      using Cons.prems(1) unfolding ss_inv_def table_inv_def by blast
    obtain y u where y: "f p s = (y, u)" by fastforce
    have "ss_inv e u" by (rule f [OF Cons.prems(1) k y])
    then show ?thesis using Cons y Some by (cases y) (auto split: if_splits)
  qed
qed simp

lemma sockets_Heartbeat_keeps:
  assumes "ss_inv e s" "sockets_Heartbeat e v order s = (x, t)"
  shows "ss_inv e t"
proof (rule Range_keeps [OF _ assms(1) assms(2) [unfolded sockets_Heartbeat_def]])
  fix p s x t k
  assume a: "ss_inv e s" "ss_heap s p = Some k"
    "and_then (sock_Heartbeat e v p s) (\<lambda>_ s. (Ok True, s)) = (x :: bool outcome, t)"
  obtain y u where y: "sock_Heartbeat e v p s = (y, u)" by fastforce
  have "ss_inv e u" by (rule Heartbeat_keeps [OF a(1,2) y])
  then show "ss_inv e t" using a(3) y by (cases y) auto
qed

lemma accept_turn_keeps:
  assumes "ss_inv e s" "ss_index s \<noteq> - 1" "accept_turn stopped r s = (x, t)"
  shows "ss_inv e t"
proof (cases r)
  case (Inr conn)
  obtain y u where y: "Create stopped conn s = (y, u)" by fastforce
  have "ss_inv e u" by (rule Create_keeps [OF assms(1,2) y])
  then show ?thesis using assms(3) Inr y by (cases y) (auto simp: accept_turn_def)
qed (use assms in \<open>auto simp: accept_turn_def\<close>)

lemma plain_calls_keep:
  assumes "ss_inv e s"
  shows "ss_inv e (Accept ln s)" "ss_inv e (Start s)" "ss_inv e (On ev f s)"
  using assms by (auto simp: Accept_def Start_def On_def intro!: ss_inv_go_start)

lemma ss_step_keeps: "ss_step e s t \<Longrightarrow> ss_inv e s \<Longrightarrow> ss_inv e t"
  by (erule ss_stepE)
    (auto intro: Create_keeps Connect_keeps accept_turn_keeps plain_calls_keep ss_inv_Emit
      Close_keeps Authentication_keeps Replaced_keeps sock_Magic_keeps SendWithMagic_keeps
      sock_Write_keeps hand_over_keeps readMsg_turn_keeps writeMsg_turn_keeps reconnect_done_keeps
      sockets_Heartbeat_keeps)

interpretation ss: step_invariant "ss_step e" "ss_inv e" for e
  by unfold_locales (rule ss_step_keeps)

lemma ss_inv_New: "0 \<le> Capacity (opts e) \<Longrightarrow> ss_inv e (sockets_New o1)"
  by (auto simp: ss_inv_def sockets_New_def heap_inv_def table_inv_def count_inv_def task_inv_def
      reconnecting_def clean_pool_def)

end
