(* ===== verification/Sample.thy ===== *)
theory Sample
  imports Handler
begin

text \<open>
  A concrete environment for examples: small options, a serialisation of numbers, a table with
  one code, and a compression that only knows runs of the byte 7. It stands for the other
  modules wherever a statement is tried on a value.
\<close>

definition sample_codec :: codec where
  "sample_codec =
     \<lparr>b_encode = (\<lambda>v. case v of VObj n \<Rightarrow> ([[word_of_nat n]], None) | _ \<Rightarrow> ([], Some (ErrLib 1))),
      b_marshal = (\<lambda>v. case v of VObj n \<Rightarrow> Inr [word_of_nat n] | _ \<Rightarrow> Inl (ErrLib 1)),
      b_unmarshal = (\<lambda>b. case b of [x] \<Rightarrow> Inr (VObj (unat x)) | _ \<Rightarrow> Inl (ErrLib 2))\<rparr>"

definition sample_opts :: options where
  "sample_opts =
     \<lparr>Pool = True, DefaultMagic = MagicNumberPathJson, Capacity = 16, MaxDataSize = 1024,
      AutoCompressSize = 8, S2CConfirm = [], HeadLen = messageHeadSize\<rparr>"

definition sample_gzip :: "bytes \<Rightarrow> bytes" where
  "sample_gzip b =
     (if b = replicate (length b) 7 \<and> length b < 256 then [1, word_of_nat (length b)] else 0 # b)"

definition sample_gunzip :: "bytes \<Rightarrow> err + bytes" where
  "sample_gunzip b =
     (case b of
        [] \<Rightarrow> Inl (ErrLib 3)
      | t # d \<Rightarrow> if t = 0 then Inr d else Inr (replicate (unat (d ! 0)) 7))"

definition sample_env :: env where
  "sample_env =
     \<lparr>opts = sample_opts, Magics = Magics_init sample_codec sample_codec,
      TrPath = (\<lambda>c. if c = 7 then Inr (str ''login'') else Inl (ErrLib 4)),
      TrCode = (\<lambda>p. if p = str ''login'' then Inr 7 else Inl (ErrLib 4)),
      gzip = sample_gzip, gunzip = sample_gunzip, grow = id\<rparr>"

lemma sample_env_simps [simp]:
  "opts sample_env = sample_opts" "Magics sample_env = Magics_init sample_codec sample_codec"
  "TrPath sample_env c = (if c = 7 then Inr (str ''login'') else Inl (ErrLib 4))"
  "TrCode sample_env p = (if p = str ''login'' then Inr 7 else Inl (ErrLib 4))"
  "gzip sample_env = sample_gzip" "gunzip sample_env = sample_gunzip" "grow sample_env = id"
  by (simp_all add: sample_env_def)

lemma sample_opts_simps [simp]:
  "Pool sample_opts" "DefaultMagic sample_opts = MagicNumberPathJson" "Capacity sample_opts = 16"
  "MaxDataSize sample_opts = 1024" "AutoCompressSize sample_opts = 8" "S2CConfirm sample_opts = []"
  "HeadLen sample_opts = messageHeadSize"
  by (simp_all add: sample_opts_def)

lemma sample_gunzip_gzip: "sample_gunzip (sample_gzip b) = Inr b"
proof (cases "b = replicate (length b) 7 \<and> length b < 256")
  case True
  then have "unat (word_of_nat (length b) :: byte) = length b"
    by (simp add: unat_of_nat)
  with True have "replicate (unat (word_of_nat (length b) :: byte)) 7 = b" by simp
  then show ?thesis using True by (simp add: sample_gzip_def sample_gunzip_def)
next
  case False
  then have "sample_gzip b = 0 # b" unfolding sample_gzip_def by (rule if_not_P)
  then show ?thesis by (simp add: sample_gunzip_def)
qed

lemma sint_small [simp]:
  "sint (1024 :: i32) = 1024" "sint (8 :: i32) = 8"
  by simp_all

lemma sample_room [simp]: "room_ok sample_env new_message"
  by (simp add: room_ok_def new_message_def)

lemma new_message_simps [simp]:
  "code new_message = 0" "mbytes new_message = nil_slice" "h_flag new_message = 0"
  "h_magic new_message = 0" "h_size new_message = 0" "h_index new_message = 0"
  by (simp_all add: new_message_def)

lemma sample_clean: "clean sample_env new_message"
  by (rule clean_new)

end
