(* ===== verification/MessageProperties.thy ===== *)
theory MessageProperties
  imports Sample
begin

text \<open>
  What the message package promises: the format it writes, the round trips through it, what a
  receiver may rely on, the pool, and the frames on which it goes wrong.
\<close>

section \<open>Helper facts\<close>

lemma below_i32: "int n \<le> sint (x :: i32) \<Longrightarrow> n < 2 ^ 31"
  using sint_lt [of x] by simp

lemma holds_path_same:
  "holds_path e mg p b m \<Longrightarrow> same_message m m' \<Longrightarrow> code m' = 0 \<Longrightarrow> holds_path e mg p b m'"
  by (simp add: holds_path_def same_message_def)

lemma holds_code_same:
  "holds_code e mg c b m \<Longrightarrow> same_message m m' \<Longrightarrow> code m' = 0 \<Longrightarrow> holds_code e mg c b m'"
  by (simp add: holds_code_def same_message_def)

text \<open>A message that was marshalled, written to a datagram and read into another object.\<close>

lemma marshalled_datagram:
  assumes "Magics e mag \<noteq> None" "wf_slice s" "int (slen s) \<le> sint (MaxDataSize (opts e))"
    "\<not> Has fl FlagCompressed" "gunzip e (gzip e (view s)) = Inr (view s)"
  shows "datagram_ok e (marshalled mag fl ix s m)"
proof -
  have "slen s < 2 ^ 31" using assms(3) by (rule below_i32)
  then show ?thesis
    using assms by (simp add: datagram_ok_def wf_message_marshalled fits_def)
      (simp add: marshalled_def sint_word_of_nat)
qed

lemma datagram_roundtrip:
  assumes "datagram_ok e m"
  shows "\<exists>w m2. Bytes e m True buffer_writer = (Ok (messageHeadSize + slen (mbytes m)), w)
           \<and> Reset e \<lparr>arr = wrote w, slen = length (wrote w)\<rparr> m0 = (Ok (), m2)
           \<and> same_message m m2 \<and> code m2 = code m0"
proof -
  let ?s = "\<lparr>arr = wire e m, slen = length (wire e m)\<rparr>"
  have s: "wf_slice ?s" "view ?s = wire e m" by (simp_all add: wf_slice_def view_def)
  show ?thesis
    using assms Reset_wire [OF _ _ _ s, of m0] Bytes_wire [of e m buffer_writer]
    by (auto simp: datagram_ok_def buffer_writer_def)
qed

section \<open>The format and the round trips\<close>

text \<open>
  C2. \<open>Marshal\<close> implements the byte layout of a message: for every kind of path argument and body,
  in both modes, it succeeds exactly when the layout exists, and then the bytes are the layout,
  the size is their number and the head carries the arguments; otherwise it fails with the
  error of the layout. The layout is that of the code, which differs from the README twice: a
  pointer to a byte slice is not passed through but goes to the serialisation of the magic number,
  and a number as path needs no transform in code mode (both proved below).
\<close>

theorem Marshal_refines_layout:
  assumes "Magics e mag = Some mg" and "room_ok e m"
  shows "case layout e mg a v of
      Inl er \<Rightarrow> fst (Marshal e mag fl ix a v m) = Err er
    | Inr d \<Rightarrow> \<exists>s. Marshal e mag fl ix a v m = (Ok (), marshalled mag fl ix s m)
                 \<and> wf_slice s \<and> view s = d"
  using assms by (rule Marshal_layout)

theorem Marshal_refines_layout_witness:
  "\<exists>s. Marshal sample_env MagicNumberPathJson 0 5 (PathString (str ''hi'')) (VBytes [1, 2]) new_message
        = (Ok (), marshalled MagicNumberPathJson 0 5 s new_message)
      \<and> wf_slice s \<and> view s = [0, 0, 0, 2, 104, 105, 1, 2]"
  using Marshal_refines_layout [where e = sample_env and mag = MagicNumberPathJson and m = new_message
      and a = "PathString (str ''hi'')" and v = "VBytes [1, 2]" and fl = 0 and ix = 5]
  by (simp add: layout_def layout_prefix_def layout_body_def path_prefix_def PutUint32_def be_put_def)

text \<open>
  The README says of \<open>Send\<close> that \<open>[]byte\<close> and \<open>*[]byte\<close> are passed through; only the first is: of the
  second the message gets what the serialisation makes of the pointer.
\<close>

theorem slice_pointer_is_encoded:
  assumes mg: "Magics e mag = Some mg" "Type mg = MagicTypePath" "Binder mg = Some bi" and room: "room_ok e m"
    and enc: "b_encode bi (VBytesPtr b) = (chunks, None)"
  shows "\<exists>s. Marshal e mag fl ix (PathString p) (VBytesPtr b) m = (Ok (), marshalled mag fl ix s m)
    \<and> wf_slice s \<and> view s = path_prefix mg p @ concat chunks"
  using Marshal_layout [OF mg(1) room, where a = "PathString p" and v = "VBytesPtr b" and fl = fl and ix = ix] mg(2,3) enc
  by (auto simp: layout_def layout_prefix_def layout_body_def)

text \<open>An encoder that writes a pair of quotation marks for whatever it is given.\<close>

theorem slice_pointer_is_encoded_witness:
  "\<exists>s. Marshal (sample_env\<lparr>Magics := Magics_init (sample_codec\<lparr>b_encode := \<lambda>_. ([[34], [34]], None)\<rparr>) sample_codec\<rparr>)
      MagicNumberPathJson 0 1 (PathString [97]) (VBytesPtr [1, 2]) new_message
      = (Ok (), marshalled MagicNumberPathJson 0 1 s new_message)
    \<and> view s = [0, 0, 0, 1, 97, 34, 34]"
  using slice_pointer_is_encoded [where
      e = "sample_env\<lparr>Magics := Magics_init (sample_codec\<lparr>b_encode := \<lambda>_. ([[34], [34]], None)\<rparr>) sample_codec\<rparr>"
      and mg = "\<lparr>Key = MagicNumberPathJson, Type = MagicTypePath,
        Binder = Some (sample_codec\<lparr>b_encode := \<lambda>_. ([[34], [34]], None)\<rparr>), Binary = BigEndian\<rparr>"
      and bi = "sample_codec\<lparr>b_encode := \<lambda>_. ([[34], [34]], None)\<rparr>"
      and mag = MagicNumberPathJson and p = "[97]" and b = "[1, 2]" and chunks = "[[34], [34]]" and m = new_message
      and fl = 0 and ix = 1]
  by (auto simp: path_prefix_def PutUint32_def be_put_def room_ok_def)

text \<open>
  The README says that in code mode without a transform every coding fails; a number as path is
  written as it is, whatever the transform.
\<close>

theorem code_numbers_need_no_transform:
  assumes mg: "Magics e mag = Some mg" "Type mg = MagicTypeCode" and room: "room_ok e m"
    and tr: "TrCode e = transformDefault_Code" "TrPath e = transformDefault_Path"
  shows "(\<forall>a c. arg_code a = Some c \<longrightarrow>
        (\<exists>s. Marshal e mag fl ix a (VBytes b) m = (Ok (), marshalled mag fl ix s m)
          \<and> wf_slice s \<and> view s = PutUint32 (Binary mg) c @ b))
    \<and> fst (Marshal e mag fl ix (PathString p) (VBytes b) m) = Err ErrMsgHeadNotSetTransform"
proof (intro conjI allI impI)
  fix a c
  assume "arg_code a = Some c"
  then have "layout e mg a (VBytes b) = Inr (PutUint32 (Binary mg) c @ b)"
    using mg(2) by (cases a) (auto simp: layout_def layout_prefix_def layout_body_def)
  with Marshal_layout [OF mg(1) room, where a = a and v = "VBytes b" and fl = fl and ix = ix]
  show "\<exists>s. Marshal e mag fl ix a (VBytes b) m = (Ok (), marshalled mag fl ix s m)
      \<and> wf_slice s \<and> view s = PutUint32 (Binary mg) c @ b" by simp
next
  have "layout e mg (PathString p) (VBytes b) = Inl ErrMsgHeadNotSetTransform"
    using mg(2) tr(1) by (simp add: layout_def layout_prefix_def transformDefault_Code_def)
  with Marshal_layout [OF mg(1) room, where a = "PathString p" and v = "VBytes b" and fl = fl and ix = ix]
  show "fst (Marshal e mag fl ix (PathString p) (VBytes b) m) = Err ErrMsgHeadNotSetTransform" by simp
qed

theorem code_numbers_need_no_transform_witness:
  "\<exists>s. Marshal (sample_env\<lparr>TrCode := transformDefault_Code, TrPath := transformDefault_Path\<rparr>) MagicNumberCodeJson
      0 1 (PathInt32 7) (VBytes [5]) new_message = (Ok (), marshalled MagicNumberCodeJson 0 1 s new_message)
    \<and> view s = [0, 0, 0, 7, 5]"
  using code_numbers_need_no_transform [where
      e = "sample_env\<lparr>TrCode := transformDefault_Code, TrPath := transformDefault_Path\<rparr>"
      and mag = MagicNumberCodeJson and b = "[5]" and m = new_message and fl = 0 and ix = 1,
      THEN conjunct1, rule_format, of _ "PathInt32 7" 7]
  by (auto simp: PutUint32_def be_put_def room_ok_def)

text \<open>
  C8. In path mode a message survives the whole way: marshalled with a path and a body, written
  to a datagram (compressed when it is large), and read into any object whose code is not
  cached, it has the same head, its path is the one given, cut at the question mark, and its
  body is the one given.
\<close>

theorem path_message_roundtrip:
  assumes mg: "Magics e mag = Some mg" "Type mg = MagicTypePath"
    and m: "room_ok e m" "code m = 0" and p: "p \<noteq> []"
    and size: "int (4 + length p + length b) \<le> sint (MaxDataSize (opts e))"
    and fl: "\<not> Has fl FlagCompressed" and gz: "\<And>d. gunzip e (gzip e d) = Inr d"
    and m0: "code m0 = 0"
  shows "\<exists>m1 w m2. Marshal e mag fl ix (PathString p) (VBytes b) m = (Ok (), m1)
      \<and> Bytes e m1 True buffer_writer = (Ok (14 + length p + length b), w)
      \<and> Reset e \<lparr>arr = wrote w, slen = length (wrote w)\<rparr> m0 = (Ok (), m2)
      \<and> fst (Path e m2) = Ok (split_query p) \<and> fst (Body e m2) = Ok b
      \<and> h_magic m2 = mag \<and> h_flag m2 = fl \<and> h_index m2 = ix"
proof -
  have "length p < 2 ^ 31" using below_i32 [OF size] by simp
  from Marshal_holds_path [OF mg m p this] obtain s
    where s: "Marshal e mag fl ix (PathString p) (VBytes b) m = (Ok (), marshalled mag fl ix s m)"
      and h: "holds_path e mg p b (marshalled mag fl ix s m)" by blast
  have len: "slen s = 4 + length p + length b" and wf: "wf_slice s"
    using holds_path_slen [OF h] h by (simp_all add: marshalled_def holds_path_def)
  have "datagram_ok e (marshalled mag fl ix s m)"
    using mg(1) wf fl gz size len by (intro marshalled_datagram) simp_all
  from datagram_roundtrip [OF this, of m0] obtain w m2
    where w: "Bytes e (marshalled mag fl ix s m) True buffer_writer
          = (Ok (messageHeadSize + slen (mbytes (marshalled mag fl ix s m))), w)"
        "Reset e \<lparr>arr = wrote w, slen = length (wrote w)\<rparr> m0 = (Ok (), m2)"
      and same: "same_message (marshalled mag fl ix s m) m2" and "code m2 = code m0" by blast
  then have "holds_path e mg p b m2" using holds_path_same [OF h] m0 by simp
  from holds_path_Path [OF this] holds_path_Body [OF this] show ?thesis
    using s w same len
    by (intro exI [of _ "marshalled mag fl ix s m"] exI [of _ w] exI [of _ m2])
      (simp add: marshalled_def same_message_def messageHeadSize_def)
qed

theorem path_message_roundtrip_witness:
  "\<exists>m1 w m2. Marshal sample_env MagicNumberPathJson 2 9 (PathString (str ''a?b'')) (VBytes [5, 6]) new_message
        = (Ok (), m1)
      \<and> Bytes sample_env m1 True buffer_writer = (Ok 19, w)
      \<and> Reset sample_env \<lparr>arr = wrote w, slen = length (wrote w)\<rparr> new_message = (Ok (), m2)
      \<and> fst (Path sample_env m2) = Ok (str ''a'', str ''b'') \<and> fst (Body sample_env m2) = Ok [5, 6]
      \<and> h_magic m2 = MagicNumberPathJson \<and> h_flag m2 = 2 \<and> h_index m2 = 9"
  using path_message_roundtrip [where e = sample_env and mag = MagicNumberPathJson and m = new_message
      and m0 = new_message and p = "str ''a?b''" and b = "[5, 6]" and fl = 2 and ix = 9]
  by (simp add: sample_gunzip_gzip split_query_def Has_def FlagCompressed_def)

text \<open>
  C17. In code mode the same way is lossless when the transform maps the path to a code and back:
  the receiver sees the path and the body that were sent, whatever the byte order of the magic
  number.
\<close>

theorem code_message_roundtrip:
  assumes mg: "Magics e mag = Some mg" "Type mg = MagicTypeCode"
    and m: "room_ok e m" "code m = 0" and tr: "TrCode e p = Inr c" "TrPath e c = Inr p"
    and size: "int (4 + length b) \<le> sint (MaxDataSize (opts e))"
    and fl: "\<not> Has fl FlagCompressed" and gz: "\<And>d. gunzip e (gzip e d) = Inr d"
    and m0: "code m0 = 0"
  shows "\<exists>m1 w m2. Marshal e mag fl ix (PathString p) (VBytes b) m = (Ok (), m1)
      \<and> Bytes e m1 True buffer_writer = (Ok (14 + length b), w)
      \<and> Reset e \<lparr>arr = wrote w, slen = length (wrote w)\<rparr> m0 = (Ok (), m2)
      \<and> fst (Code e m2) = Ok c \<and> fst (Path e m2) = Ok (p, []) \<and> fst (Body e m2) = Ok b
      \<and> h_magic m2 = mag \<and> h_flag m2 = fl \<and> h_index m2 = ix"
proof -
  from Marshal_holds_code [OF mg m tr(1)] obtain s
    where s: "Marshal e mag fl ix (PathString p) (VBytes b) m = (Ok (), marshalled mag fl ix s m)"
      and h: "holds_code e mg c b (marshalled mag fl ix s m)" by blast
  have len: "slen s = 4 + length b" and wf: "wf_slice s"
    using holds_code_slen [OF h] h by (simp_all add: marshalled_def holds_code_def)
  have "datagram_ok e (marshalled mag fl ix s m)"
    using mg(1) wf fl gz size len by (intro marshalled_datagram) simp_all
  from datagram_roundtrip [OF this, of m0] obtain w m2
    where w: "Bytes e (marshalled mag fl ix s m) True buffer_writer
          = (Ok (messageHeadSize + slen (mbytes (marshalled mag fl ix s m))), w)"
        "Reset e \<lparr>arr = wrote w, slen = length (wrote w)\<rparr> m0 = (Ok (), m2)"
      and same: "same_message (marshalled mag fl ix s m) m2" and "code m2 = code m0" by blast
  then have "holds_code e mg c b m2" using holds_code_same [OF h] m0 by simp
  from holds_code_Code [OF this] holds_code_Path [OF this] holds_code_Body [OF this] show ?thesis
    using s w same len tr
    by (intro exI [of _ "marshalled mag fl ix s m"] exI [of _ w] exI [of _ m2])
      (simp add: marshalled_def same_message_def messageHeadSize_def)
qed

theorem code_message_roundtrip_witness:
  "\<exists>m1 w m2. Marshal sample_env MagicNumberCodeJson 2 9 (PathString (str ''login'')) (VBytes (replicate 20 7))
        new_message = (Ok (), m1)
      \<and> Bytes sample_env m1 True buffer_writer = (Ok 34, w)
      \<and> Reset sample_env \<lparr>arr = wrote w, slen = length (wrote w)\<rparr> new_message = (Ok (), m2)
      \<and> fst (Code sample_env m2) = Ok 7 \<and> fst (Path sample_env m2) = Ok (str ''login'', [])
      \<and> fst (Body sample_env m2) = Ok (replicate 20 7)
      \<and> h_magic m2 = MagicNumberCodeJson \<and> h_flag m2 = 2 \<and> h_index m2 = 9"
  using code_message_roundtrip [where e = sample_env and mag = MagicNumberCodeJson and m = new_message
      and m0 = new_message and p = "str ''login''" and b = "replicate 20 7" and fl = 2 and ix = 9 and c = 7]
  by (simp add: sample_gunzip_gzip Has_def FlagCompressed_def)

text \<open>
  Values survive \<open>Marshal\<close> and \<open>Unmarshal\<close>: when the serialisation reads back what its encoder
  writes, the value marshalled under a path comes out of \<open>Unmarshal\<close> again, in however many
  chunks the encoder wrote it.
\<close>

theorem Unmarshal_Marshal:
  assumes mg: "Magics e mag = Some mg" "Type mg = MagicTypePath" "Binder mg = Some bi"
    and m: "room_ok e m" "code m = 0" and p: "p \<noteq> []" "length p < 2 ^ 31"
    and v: "\<And>d. v \<noteq> VBytes d" "b_encode bi v = (chunks, None)" "b_unmarshal bi (concat chunks) = Inr v"
  shows "\<exists>m1. Marshal e mag fl ix (PathString p) v m = (Ok (), m1) \<and> fst (Unmarshal e m1) = Ok v"
proof -
  have "layout e mg (PathString p) v = Inr (path_prefix mg p @ concat chunks)"
    using mg v by (cases v) (auto simp: layout_def layout_prefix_def layout_body_def)
  with Marshal_layout [OF mg(1) m(1), where a = "PathString p" and v = v and fl = fl and ix = ix] obtain s
    where s: "Marshal e mag fl ix (PathString p) v m = (Ok (), marshalled mag fl ix s m)"
      "wf_slice s" "view s = path_prefix mg p @ concat chunks" by auto
  have h: "holds_path e mg p (concat chunks) (marshalled mag fl ix s m)"
    using s mg m p by (simp add: holds_path_def marshalled_def)
  have "head_Binder e (marshalled mag fl ix s m) = Some bi"
    using mg by (simp add: head_Binder_def marshalled_def)
  then show ?thesis
    using s(1) holds_path_Body [OF h] v(3) by (simp add: Unmarshal_def)
qed

theorem Unmarshal_Marshal_witness:
  "\<exists>m1. Marshal sample_env MagicNumberPathJson 0 1 (PathString (str ''n'')) (VObj 5) new_message = (Ok (), m1)
      \<and> fst (Unmarshal sample_env m1) = Ok (VObj 5)"
  using Unmarshal_Marshal [where e = sample_env and mag = MagicNumberPathJson and m = new_message
      and p = "str ''n''" and v = "VObj 5" and bi = sample_codec and chunks = "[[5]]" and fl = 0 and ix = 1]
  by (simp add: sample_codec_def)

text \<open>
  A head is ten bytes and parses back to itself whatever the receiving object held, with the
  compression mark added exactly when the sender compresses; this holds for both byte orders.
\<close>

theorem head_roundtrip:
  assumes "head_bytes e h = Ok (b, c)" and "sint (h_size h) \<le> sint (MaxDataSize (opts e))"
  shows "length b = 10 \<and> c = auto_compress e h
    \<and> Parse e b h' = (Ok (), h'\<lparr>h_magic := h_magic h,
        h_flag := (if c then Set (h_flag h) FlagCompressed else h_flag h),
        h_size := h_size h, h_index := h_index h\<rparr>)"
  using Parse_head_bytes [OF assms, of h'] length_head_bytes [OF assms(1)] assms(1)
  by (auto simp: wire_flag_def messageHeadSize_def head_bytes_def Let_def split: option.splits)

theorem head_roundtrip_witness:
  "Parse sample_env [0xf1, 20, 0, 0, 1, 0, 0, 0, 0, 3] (new_message :: message)
     = (Ok (), new_message\<lparr>h_magic := 0xf1, h_flag := 20, h_size := 256, h_index := 3\<rparr>)"
  using head_roundtrip [where e = sample_env and h = "head_zero\<lparr>h_magic := 0xf1, h_flag := 4, h_size := 256, h_index := 3\<rparr>"
      and h' = new_message and b = "[0xf1, 20, 0, 0, 1, 0, 0, 0, 0, 3]" and c = True]
  by (simp add: head_bytes_def head_zero_def Magics_init_entries(2) [unfolded MagicNumberCodeJson_def]
      auto_compress_def Has_def Set_def FlagCompressed_def PutUint32_def be_put_def)

lemma flag_pow:
  "f \<in> set [FlagConfirm, FlagNoreply, FlagHeartbeat, FlagBroadcast, FlagCompressed, FlagEncrypted,
     FlagFragmented] \<longleftrightarrow> (\<exists>n<7. f = 2 ^ n)"
proof -
  have "n < 7 \<longleftrightarrow> n \<in> set [0, 1, 2, 3, 4, 5, 6]" for n :: nat
    by (simp, presburger)
  then show ?thesis by (simp add: flag_defs conj_disj_distribR ex_disj_distrib)
qed

lemma pow_inj: "n < 8 \<Longrightarrow> m < 8 \<Longrightarrow> (2 ^ n :: flag) = 2 ^ m \<longleftrightarrow> n = m"
  using bit_exp_iff [where ?'a = "8 word" and m = n and n = n]
    bit_exp_iff [where ?'a = "8 word" and m = m and n = n] by auto

text \<open>
  The flag operations are those of a set of named bits: after \<open>Set\<close> exactly the named flag has been
  added, after \<open>Delete\<close> exactly the named flag is gone, and no two of the seven flags interfere.
\<close>

theorem flags_are_independent:
  assumes "f \<in> set [FlagConfirm, FlagNoreply, FlagHeartbeat, FlagBroadcast, FlagCompressed,
      FlagEncrypted, FlagFragmented]"
    and "g \<in> set [FlagConfirm, FlagNoreply, FlagHeartbeat, FlagBroadcast, FlagCompressed,
      FlagEncrypted, FlagFragmented]"
  shows "(Has (Set x g) f \<longleftrightarrow> f = g \<or> Has x f) \<and> (Has (Delete x g) f \<longleftrightarrow> f \<noteq> g \<and> Has x f)"
proof -
  obtain n m where nm: "n < 7" "m < 7" "f = 2 ^ n" "g = 2 ^ m"
    using assms flag_pow by metis
  then have "f = g \<longleftrightarrow> n = m" using pow_inj [of n m] by simp
  then show ?thesis using nm Has_Set_bit [of n x m] Has_Delete_bit [of n x m] by auto
qed

theorem flags_are_independent_witness:
  "Has (Set FlagConfirm FlagHeartbeat) FlagConfirm \<and> Has FlagConfirm FlagConfirm"
  using flags_are_independent [of FlagConfirm FlagHeartbeat FlagConfirm] by (simp add: Has_def FlagConfirm_def)

fun register_all :: "(byte \<times> magic_type \<times> codec option \<times> byte_order) list \<Rightarrow> magics \<Rightarrow> magics" where
  "register_all [] ms = ms"
| "register_all ((k, mt, bi, b) # rs) ms = register_all rs (magics_Register k mt bi b ms)"

lemma register_all_extends: "ms \<subseteq>\<^sub>m register_all rs ms"
proof (induction rs arbitrary: ms)
  case (Cons r rs)
  obtain k mt bi b where r: "r = (k, mt, bi, b)" by (cases r)
  show ?case using map_le_trans [OF Register_extends Cons.IH] by (simp add: r)
qed simp

lemma register_all_keys: "keys_ok ms \<Longrightarrow> keys_ok (register_all rs ms)"
  by (induction rs ms rule: register_all.induct) (auto intro: keys_ok_Register)

text \<open>
  Magic numbers are stable: whatever is registered later, a registered number keeps its mode,
  serialisation and byte order, every entry carries its own number, the three numbers of the
  package stay, and a head written with a registered number is recognised by the parser.
\<close>

theorem registrations_are_stable:
  "magics_Register k mt bi b ms \<subseteq>\<^sub>m register_all rs (magics_Register k mt bi b ms)
   \<and> magics_Has (register_all rs (magics_Register k mt bi b ms)) k
   \<and> Magics_init j p \<subseteq>\<^sub>m register_all rs (Magics_init j p)
   \<and> keys_ok (register_all rs (Magics_init j p))
   \<and> magics_Register k mt bi b (Magics_init j p) = (if k \<in> {0xf0, 0xf1, 0xf2} then Magics_init j p
        else (Magics_init j p)(k \<mapsto> \<lparr>Key = k, Type = mt, Binder = bi, Binary = b\<rparr>))"
proof -
  have "magics_Has (register_all rs (magics_Register k mt bi b ms)) k"
    using register_all_extends [of "magics_Register k mt bi b ms" rs] Register_Has [of k mt bi b ms]
    by (metis domIff magics_Has_def map_le_def)
  moreover have "Magics_init j p k \<noteq> None \<longleftrightarrow> k \<in> {0xf0, 0xf1, 0xf2}"
    using Magics_init_dom [of j p] by (auto simp: magic_number_defs dom_def)
  ultimately show ?thesis
    using register_all_extends register_all_keys [OF keys_ok_init]
    by (simp add: magics_Register_def)
qed

lemma Reset_OkD:
  assumes "Reset e b m0 = (Ok (), m)" and "wf_slice b"
  shows "wf_slice (mbytes m)" and "Magics e (h_magic m) \<noteq> None" and "code m = code m0"
proof -
  have "messageHeadSize \<le> slen b"
    using assms by (auto simp: Reset_def split: if_splits)
  obtain m1 where p: "Parse e (take messageHeadSize (view b)) m0 = (Ok (), m1)"
    and d: "decompress e (m1\<lparr>mbytes := \<lparr>arr = drop messageHeadSize (arr b),
                                   slen = slen b - messageHeadSize\<rparr>\<rparr>) = (Ok (), m)"
    using assms(1) by (auto simp: Reset_def and_then_Ok_iff split: if_splits)
  have "code m1 = code m0"
    using p by (auto simp: Parse_def Let_def split: if_splits option.splits)
  moreover have "wf_slice \<lparr>arr = drop messageHeadSize (arr b), slen = slen b - messageHeadSize\<rparr>"
    using assms(2) by (simp add: wf_slice_def)
  ultimately show "wf_slice (mbytes m)" "Magics e (h_magic m) \<noteq> None" "code m = code m0"
    using d Parse_OkD(4) [OF p] by (auto simp: decompress_def split: if_splits sum.splits)
qed

text \<open>
  What a receiver may rely on: once a datagram with at least four bytes of content was
  accepted, reading its code, path and body does not panic, the body is a suffix of the content,
  and in path mode a path that is delivered lies in the content right behind the length.
\<close>

theorem accepted_message_is_safe:
  assumes "Reset e b old = (Ok (), m)" "wf_slice b" "code old = 0" "4 \<le> slen (mbytes m)"
  shows "fst (Path e m) \<notin> {Panic, Blocked} \<and> fst (Body e m) \<notin> {Panic, Blocked}
    \<and> (\<forall>d. fst (Body e m) = Ok d \<longrightarrow> (\<exists>pre. view (mbytes m) = pre @ d))
    \<and> (\<forall>r q. fst (Path e m) = Ok (r, q) \<and> map_option Type (Magics e (h_magic m)) = Some MagicTypePath \<longrightarrow>
        (\<exists>p rest. view (mbytes m) = take 4 (view (mbytes m)) @ p @ rest \<and> p \<noteq> [] \<and> split_query p = (r, q)))"
proof -
  note r = Reset_OkD [OF assms(1,2)]
  obtain mg where mg: "Magics e (h_magic m) = Some mg" using r(2) by blast
  define c where "c = Uint32 (Binary mg) (take 4 (view (mbytes m)))"
  have C: "Code e m = (Ok c, m\<lparr>code := c\<rparr>)"
    using r assms(3,4) mg by (intro Code_fresh [where mg = mg]) (auto simp: c_def)
  have len: "length (view (mbytes m)) = slen (mbytes m)" using r(1) by simp
  have body: "\<exists>n m'. Body e m = (Ok (drop n (view (mbytes m))), m')"
    using C mg len by (auto simp: Body_def Let_def intro: exI [of _ "slen (mbytes m)"])
  have "\<exists>p rest. view (mbytes m) = take 4 (view (mbytes m)) @ p @ rest \<and> p \<noteq> [] \<and> split_query p = (a, q)"
    if "fst (Path e m) = Ok (a, q)" "Type mg = MagicTypePath" for a q
  proof -
    let ?p = "take (nat (sint c)) (drop 4 (view (mbytes m)))"
    have "0 < sint c" "sint c + 4 \<le> int (slen (mbytes m))" "split_query ?p = (a, q)"
      using that C mg by (auto simp: Path_def Let_def split: if_splits)
    moreover from this len have "?p \<noteq> []" by auto
    moreover have "view (mbytes m) = take 4 (view (mbytes m)) @ ?p @ drop (nat (sint c)) (drop 4 (view (mbytes m)))"
      by (metis append_take_drop_id)
    ultimately show ?thesis by blast
  qed
  moreover have "fst (Path e m) \<notin> {Panic, Blocked}"
    using C mg by (auto simp: Path_def Let_def split: sum.split)
  moreover from body obtain n m' where "Body e m = (Ok (drop n (view (mbytes m))), m')" by blast
  moreover have "\<exists>pre. view (mbytes m) = pre @ drop n (view (mbytes m))"
    by (metis append_take_drop_id)
  ultimately show ?thesis using mg by auto
qed

theorem accepted_message_is_safe_witness:
  "fst (Path sample_env (snd (Reset sample_env
      \<lparr>arr = [0xf0, 0, 0, 0, 0, 6, 0, 0, 0, 1, 0, 0, 0, 1, 97, 98], slen = 16\<rparr> new_message))) \<notin> {Panic, Blocked}"
  using accepted_message_is_safe [where e = sample_env and old = new_message
      and b = "\<lparr>arr = [0xf0, 0, 0, 0, 0, 6, 0, 0, 0, 1, 0, 0, 0, 1, 97, 98], slen = 16\<rparr>"
      and m = "new_message\<lparr>h_magic := 0xf0, h_flag := 0, h_size := 6, h_index := 1,
        mbytes := \<lparr>arr = [0, 0, 0, 1, 97, 98], slen = 6\<rparr>\<rparr>"]
  by (simp add: Reset_def Parse_def magics_Get_def messageHeadSize_def view_def wf_slice_def
      Magics_init_entries(1) [unfolded MagicNumberPathJson_def] decompress_def Let_def Uint32_def
      be_get_def be_join_def)

text \<open>
  The pool never leaks a previous message: whatever was taken and put back before, the object
  it hands out has an empty head, no cached code and no bytes, and it is ready to be filled;
  the capacity it keeps is bounded by the option.
\<close>

theorem pool_hands_out_clean:
  assumes "(pool_step e)\<^sup>*\<^sup>* [] pool" and "Require e k pool = (m, pool')"
  shows "clean e m \<and> view (mbytes m) = [] \<and> (4 \<le> Capacity (opts e) \<longrightarrow> room_ok e m)"
proof -
  have "clean_pool e []" by (simp add: clean_pool_def)
  from Require_clean [OF pl.run_keeps [OF assms(1) this] assms(2)] have "clean e m" by blast
  moreover from this have "view (mbytes m) = []" by (simp add: clean_def view_def)
  ultimately show ?thesis using clean_room by blast
qed

lemma sample_release:
  "pool_step sample_env [] [new_message\<lparr>mbytes := \<lparr>arr = [1, 2, 3], slen = 0\<rparr>\<rparr>]"
  by (rule pool_step.release [where i = "Some (new_message\<lparr>h_flag := 1, code := 7,
        mbytes := \<lparr>arr = [1, 2, 3], slen = 3\<rparr>\<rparr>)" and x = "Ok ()"])
    (simp add: Release_def message_Release_def head_Release_def scap_def Let_def new_message_def nil_slice_def)

theorem pool_hands_out_clean_witness:
  "clean sample_env (fst (Require sample_env (Some 0) [new_message\<lparr>mbytes := \<lparr>arr = [1, 2, 3], slen = 0\<rparr>\<rparr>]))"
  using pool_hands_out_clean [OF r_into_rtranclp [where r = "pool_step sample_env", OF sample_release]] by (metis prod.collapse)

end
