(* ===== verification/TransportProperties.thy ===== *)
theory TransportProperties
  imports MessageProperties Tcp Udp Wss
begin

text \<open>
  What the connections promise: messages arrive whole and in order over tcp, udp and websocket;
  where udp packets go; the connections of the websocket listener; and the inputs on which the
  code goes wrong.
\<close>

section \<open>tcp\<close>

text \<open>Writing several messages one after the other.\<close>

fun tcp_writes :: "env \<Rightarrow> message list \<Rightarrow> tcp_conn \<Rightarrow> (unit, tcp_conn) run" where
  "tcp_writes e [] c = (Ok (), c)"
| "tcp_writes e (m # ms) c = and_then (tcp_WriteMessage e c m) (\<lambda>_ c. tcp_writes e ms c)"

lemma tcp_writes_wire:
  "\<forall>m \<in> set ms. wf_message e m \<Longrightarrow> room (tc_out c) = None \<Longrightarrow>
   \<exists>c'. tcp_writes e ms c = (Ok (), c')
     \<and> wrote (tc_out c') = wrote (tc_out c) @ concat (map (wire e) ms)"
proof (induction ms arbitrary: c)
  case (Cons m ms)
  then have w: "tcp_WriteMessage e c m =
      (Ok (), c\<lparr>tc_out := (tc_out c)\<lparr>wrote := wrote (tc_out c) @ wire e m\<rparr>\<rparr>)"
    by (simp add: tcp_WriteMessage_wire)
  show ?case
    using Cons.IH [of "c\<lparr>tc_out := (tc_out c)\<lparr>wrote := wrote (tc_out c) @ wire e m\<rparr>\<rparr>"] Cons.prems
    by (simp add: w)
qed simp

text \<open>
  C13. A tcp connection is a lossless, ordered message channel: any sequence of messages written on
  one side, whatever their bodies (none included), is read on the other as the same sequence of
  heads and bodies, with nothing left over, as long as no message is above the compression
  threshold.
\<close>

theorem tcp_stream:
  assumes ok: "\<forall>m \<in> set ms. tcp_ok e m" and hl: "HeadLen (opts e) = 10"
  shows "\<exists>c1 c2. tcp_writes e ms (tcp_NewConn r buffer_writer) = (Ok (), c1)
    \<and> reads (tcp_recv e) (length ms)
        (tcp_NewConn \<lparr>s_bytes = wrote (tc_out c1) @ rest, s_end = er\<rparr> w) = Some (map packet_of ms, c2)
    \<and> s_bytes (tc_in c2) = rest"
proof -
  have "\<forall>m \<in> set ms. wf_message e m" using ok by (simp add: tcp_ok_def)
  from tcp_writes_wire [OF this, of "tcp_NewConn r buffer_writer"] obtain c1
    where c1: "tcp_writes e ms (tcp_NewConn r buffer_writer) = (Ok (), c1)"
      "wrote (tc_out c1) = concat (map (wire e) ms)"
    by (auto simp: tcp_NewConn_def buffer_writer_def)
  let ?c = "tcp_NewConn \<lparr>s_bytes = wrote (tc_out c1) @ rest, s_end = er\<rparr> w"
  have "tcp_inv e ?c" "s_bytes (tc_in ?c) = concat (map (wire e) ms) @ rest"
    using hl c1(2) by (simp_all add: tcp_inv_def tcp_NewConn_def messageHeadSize_def)
  from tcp.reads_puts [OF this(1) ok this(2)] show ?thesis using c1(1) by blast
qed

text \<open>A small message of the sample environment.\<close>

definition sample_message :: "byte list \<Rightarrow> message" where
  "sample_message d = marshalled MagicNumberPathJson 4 3 \<lparr>arr = d, slen = length d\<rparr> new_message"

lemma sample_message_ok:
  "length d \<le> 8 \<Longrightarrow> tcp_ok sample_env (sample_message d) \<and> datagram_ok sample_env (sample_message d)"
  by (auto simp: sample_message_def tcp_ok_def datagram_ok_def wf_message_marshalled wf_slice_def
      fits_def auto_compress_def Has_def FlagCompressed_def sample_gunzip_gzip)
    (simp_all add: marshalled_def sint_word_of_nat)

theorem tcp_stream_witness:
  "\<exists>c1 c2. tcp_writes sample_env [sample_message [1, 2], sample_message []]
        (tcp_NewConn \<lparr>s_bytes = [], s_end = ErrEOF\<rparr> buffer_writer) = (Ok (), c1)
    \<and> reads (tcp_recv sample_env) 2
        (tcp_NewConn \<lparr>s_bytes = wrote (tc_out c1) @ [9], s_end = ErrEOF\<rparr> buffer_writer)
      = Some ([packet_of (sample_message [1, 2]), packet_of (sample_message [])], c2)
    \<and> s_bytes (tc_in c2) = [9]"
  using tcp_stream [where e = sample_env and ms = "[sample_message [1, 2], sample_message []]"
      and r = "\<lparr>s_bytes = [], s_end = ErrEOF\<rparr>" and w = buffer_writer and rest = "[9]" and er = ErrEOF]
  by (simp add: sample_message_ok messageHeadSize_def numeral_2_eq_2)

lemma Write_short:
  assumes n: "0 < sint (h_size m)" and len: "length (s_bytes r) < nat (sint (h_size m))"
  shows "fst (Write e r m) = Err ErrShortBuffer"
proof -
  obtain s where s: "read_slice e (sint (h_size m)) (mbytes m) = Ok s"
    using read_slice_ok [of "sint (h_size m)"] n by force
  then show ?thesis
    using n len by (auto simp: Write_def Let_def read_full_def)
qed

lemma tcp_readMsgTrue_outcome:
  "h_size m \<noteq> 0 \<Longrightarrow>
   fst (tcp_readMsgTrue e c m) = as_text ''READ BODY ERR'' (done_with (fst (Write e (tc_in c) m)))"
  by (simp add: tcp_readMsgTrue_def split: prod.split)

text \<open>
  C37. A tcp frame whose body the sender compressed cannot be received: the head announces the size
  of the plain body while the shorter compressed body follows, so \<open>ReadMessage\<close> runs into the end
  of the stream and reports a short buffer, for every receiving object.
\<close>

theorem tcp_compressed_frame_fails:
  assumes wf: "wf_message e m" and fit: "fits e m" and big: "auto_compress e m"
    and shorter: "length (gzip e (view (mbytes m))) < slen (mbytes m)"
    and inv: "tcp_inv e c" and bytes: "s_bytes (tc_in c) = wire e m"
  shows "fst (tcp_ReadMessage e c obj) = Err (ErrText ''READ BODY ERR'' ErrShortBuffer)"
proof -
  obtain mg where mg: "Magics e (h_magic m) = Some mg" using wf by (auto simp: wf_message_def)
  have b: "s_bytes (tc_in c) = wire_head e mg m @ gzip e (view (mbytes m))"
    using bytes mg big by (simp add: wire_def wire_body_def)
  have pos: "0 < sint (h_size m)" "sint (h_size m) = int (slen (mbytes m))"
    using wf_message_size [OF wf] shorter by simp_all
  then have "h_size m \<noteq> 0" by auto
  then show ?thesis
    using Write_short [of "parsed e m obj" "(tc_in c)\<lparr>s_bytes := gzip e (view (mbytes m))\<rparr>" e] pos shorter
    by (simp add: tcp_ReadMessage_head [OF inv b mg fit] tcp_readMsgTrue_outcome parsed_def)
qed

theorem tcp_compressed_frame_fails_witness:
  "fst (tcp_ReadMessage sample_env
      (tcp_NewConn \<lparr>s_bytes = wire sample_env (sample_message (replicate 20 7)), s_end = ErrEOF\<rparr> buffer_writer)
      new_message) = Err (ErrText ''READ BODY ERR'' ErrShortBuffer)"
proof (rule tcp_compressed_frame_fails)
  let ?m = "sample_message (replicate 20 7)"
  show "wf_message sample_env ?m"
    by (simp add: sample_message_def wf_message_marshalled wf_slice_def Has_def FlagCompressed_def)
  show "fits sample_env ?m" "auto_compress sample_env ?m"
    by (simp_all add: sample_message_def marshalled_def fits_def auto_compress_def Has_def FlagCompressed_def)
  show "length (gzip sample_env (view (mbytes ?m))) < slen (mbytes ?m)"
    by (simp add: sample_message_def marshalled_def view_def sample_gzip_def)
  show "tcp_inv sample_env (tcp_NewConn \<lparr>s_bytes = wire sample_env ?m, s_end = ErrEOF\<rparr> buffer_writer)"
    by (simp add: tcp_inv_def tcp_NewConn_def)
  show "s_bytes (tc_in (tcp_NewConn \<lparr>s_bytes = wire sample_env ?m, s_end = ErrEOF\<rparr> buffer_writer))
      = wire sample_env ?m"
    by (simp add: tcp_NewConn_def)
qed

lemma be_put_ff: "be_put 0xffffffff = [255, 255, 255, 255]"
  by code_simp

text \<open>
  C38. A peer can make the reader panic: a head with a negative size passes \<open>Parse\<close>, whose only
  check is an upper bound, and then slicing with that size panics inside \<open>ReadMessage\<close>.
\<close>

theorem tcp_negative_size_panics:
  assumes inv: "tcp_inv e c" and mg: "Magics e mag = Some mg" and sz: "sint sz < 0"
    and lim: "0 \<le> sint (MaxDataSize (opts e))"
    and bytes: "s_bytes (tc_in c) = [mag, fl] @ PutUint32 (Binary mg) sz @ PutUint32 (Binary mg) ix @ rest"
  shows "fst (Parse e (take 10 (s_bytes (tc_in c))) obj) = Ok ()
    \<and> fst (tcp_ReadMessage e c obj) = Panic"
proof -
  let ?h = "[mag, fl] @ PutUint32 (Binary mg) sz @ PutUint32 (Binary mg) ix"
  define h where "h = (case tc_head c of None \<Rightarrow> replicate (HeadLen (opts e)) 0 | Some h \<Rightarrow> h)"
  have h: "length h = messageHeadSize"
    using inv by (auto simp: h_def tcp_inv_def split: option.split)
  have b: "s_bytes (tc_in c) = ?h @ rest" and l: "length ?h = messageHeadSize"
    using bytes by (simp_all add: messageHeadSize_def)
  have ok: "Parse e ?h x = (Ok (), x\<lparr>h_magic := mag, h_flag := fl, h_size := sz, h_index := ix\<rparr>)"
    for x :: message
    using sz lim by (simp only: Parse_fields [OF mg]) (simp add: Let_def)
  have "sz \<noteq> 0" using sz by auto
  then have "fst (Write e r (x\<lparr>h_magic := mag, h_flag := fl, h_size := sz, h_index := ix\<rparr>)) = Panic"
    for r and x :: message
    using sz by (simp add: Write_def read_slice_def reslice_def Let_def)
  moreover have "tcp_ReadMessage e c obj = tcp_readMsgTrue e
      (c\<lparr>tc_head := Some ?h, tc_in := (tc_in c)\<lparr>s_bytes := rest\<rparr>\<rparr>)
      (obj\<lparr>h_magic := mag, h_flag := fl, h_size := sz, h_index := ix\<rparr>)"
    unfolding tcp_ReadMessage_def h_def [symmetric]
    using l by (simp add: h read_full_exact [OF b l] ok [simplified] Let_def)
  moreover have "take 10 (s_bytes (tc_in c)) = ?h" using b l by (simp add: messageHeadSize_def)
  ultimately show ?thesis
    using \<open>sz \<noteq> 0\<close> ok [of obj] by (simp add: tcp_readMsgTrue_outcome)
qed

theorem tcp_negative_size_panics_witness:
  "fst (tcp_ReadMessage sample_env
      (tcp_NewConn \<lparr>s_bytes = [0xf0, 0, 255, 255, 255, 255, 0, 0, 0, 0], s_end = ErrEOF\<rparr> buffer_writer)
      new_message) = Panic"
  using tcp_negative_size_panics [where e = sample_env and mag = "0xf0" and sz = "0xffffffff" and fl = 0 and ix = 0
      and rest = "[]" and obj = new_message
      and c = "tcp_NewConn \<lparr>s_bytes = [0xf0, 0, 255, 255, 255, 255, 0, 0, 0, 0], s_end = ErrEOF\<rparr> buffer_writer"]
  by (simp add: tcp_inv_def tcp_NewConn_def Magics_init_entries(1) [unfolded MagicNumberPathJson_def]
      PutUint32_def be_put_ff, simp add: be_put_def)

text \<open>
  A frame without a body, received into an object from the pool, is dispatched by what the
  previous message left behind: in code mode the object's stale array decides which path the
  message is for, since the code is read from the capacity and not from the length.
\<close>

theorem tcp_empty_frame_reads_stale_code:
  assumes inv: "tcp_inv e c" and mg: "Magics e mag = Some mg" "Type mg = MagicTypeCode"
    and obj: "clean e obj" "4 \<le> scap (mbytes obj)"
    and lim: "0 \<le> sint (MaxDataSize (opts e))"
    and bytes: "s_bytes (tc_in c) = [mag, fl] @ PutUint32 (Binary mg) 0 @ PutUint32 (Binary mg) ix @ rest"
    and stale: "TrPath e (Uint32 (Binary mg) (take 4 (arr (mbytes obj)))) = Inr p"
  shows "\<exists>m c'. tcp_ReadMessage e c obj = (Ok (), (m, c')) \<and> view (mbytes m) = [] \<and> fst (Path e m) = Ok (p, [])"
proof -
  let ?m = "obj\<lparr>h_magic := mag, h_flag := fl, h_size := 0, h_index := ix\<rparr>"
  let ?h = "[mag, fl] @ PutUint32 (Binary mg) 0 @ PutUint32 (Binary mg) ix"
  define h where "h = (case tc_head c of None \<Rightarrow> replicate (HeadLen (opts e)) 0 | Some h \<Rightarrow> h)"
  have h: "length h = messageHeadSize"
    using inv by (auto simp: h_def tcp_inv_def split: option.split)
  have b: "s_bytes (tc_in c) = ?h @ rest" and l: "length ?h = messageHeadSize"
    using bytes by (simp_all add: messageHeadSize_def)
  have ok: "Parse e ?h obj = (Ok (), ?m)"
    using lim by (simp only: Parse_fields [OF mg(1)]) (simp add: Let_def)
  have "tcp_ReadMessage e c obj = tcp_readMsgTrue e
      (c\<lparr>tc_head := Some ?h, tc_in := (tc_in c)\<lparr>s_bytes := rest\<rparr>\<rparr>) ?m"
    unfolding tcp_ReadMessage_def h_def [symmetric]
    using l by (simp add: h read_full_exact [OF b l] ok [simplified] Let_def)
  then have r: "tcp_ReadMessage e c obj =
      (Ok (), (?m, c\<lparr>tc_head := Some ?h, tc_in := (tc_in c)\<lparr>s_bytes := rest\<rparr>\<rparr>))"
    by (simp add: tcp_readMsgTrue_def)
  have "Code e ?m = (Ok (Uint32 (Binary mg) (take 4 (arr (mbytes obj)))),
      ?m\<lparr>code := Uint32 (Binary mg) (take 4 (arr (mbytes obj)))\<rparr>)"
    using obj mg by (simp add: Code_def clean_def reslice_def view_def Let_def)
  then have "fst (Path e ?m) = Ok (p, [])" using mg stale by (simp add: Path_def)
  moreover have "view (mbytes ?m) = []" using obj(1) by (simp add: clean_def view_def)
  ultimately show ?thesis using r by blast
qed

theorem tcp_empty_frame_reads_stale_code_witness:
  "\<exists>m c'. tcp_ReadMessage sample_env
      (tcp_NewConn \<lparr>s_bytes = [0xf1, 0, 0, 0, 0, 0, 0, 0, 0, 1], s_end = ErrEOF\<rparr> buffer_writer)
      (new_message\<lparr>mbytes := \<lparr>arr = [0, 0, 0, 7, 55], slen = 0\<rparr>\<rparr>) = (Ok (), (m, c'))
    \<and> view (mbytes m) = [] \<and> fst (Path sample_env m) = Ok (str ''login'', [])"
  using tcp_empty_frame_reads_stale_code [where e = sample_env and mag = "0xf1" and fl = 0 and ix = 1
      and rest = "[]" and obj = "new_message\<lparr>mbytes := \<lparr>arr = [0, 0, 0, 7, 55], slen = 0\<rparr>\<rparr>"
      and c = "tcp_NewConn \<lparr>s_bytes = [0xf1, 0, 0, 0, 0, 0, 0, 0, 0, 1], s_end = ErrEOF\<rparr> buffer_writer"
      and p = "str ''login''"]
  by (simp add: tcp_inv_def tcp_NewConn_def Magics_init_entries(2) [unfolded MagicNumberCodeJson_def]
      PutUint32_def be_put_def clean_def scap_def Uint32_def be_get_def be_join_def)

section \<open>udp\<close>

text \<open>
  C20. In every state the listener can reach, by packets, accepts, reads, writes and closes in any
  order and split at the lock, the table of peers is sound: an address leads to an open
  connection object of that very address whose queue is within its bound, and no two addresses
  share an object.
\<close>

theorem udp_runs_keep_table:
  assumes new: "udp_New cfg = Ok l0" and run: "(udp_step cfg e)\<^sup>*\<^sup>* l0 l"
  shows "(\<forall>k p. conns_get l k = Some p \<longrightarrow> good_conn l k p)
    \<and> (\<forall>k k' p. conns_get l k = Some p \<and> conns_get l k' = Some p \<longrightarrow> k' = k)"
  using udp.run_keeps [OF run udp_inv_New [OF new]] conns_get_inj good_connD by blast

lemma sample_udp_step:
  "udp_step \<lparr>ConnChanSize = 1, MsgChanSize = 1\<rparr> sample_env (new_udp 1)
     (snd (udp_packet \<lparr>ConnChanSize = 1, MsgChanSize = 1\<rparr> [1] [2, 3]
       (new_udp 1)))"
  by (rule udp_step.u_packet) (rule surjective_pairing)

theorem udp_runs_keep_table_witness:
  "good_conn (snd (udp_packet \<lparr>ConnChanSize = 1, MsgChanSize = 1\<rparr> [1] [2, 3]
       (new_udp 1))) [1] 0"
  using udp_runs_keep_table [OF _ r_into_rtranclp [where r = "udp_step \<lparr>ConnChanSize = 1, MsgChanSize = 1\<rparr> sample_env",
      OF sample_udp_step]]
  by (simp add: conns_get_def udp_packet_def udp_dispatch_def lock_defs udp_New_def new_udp_def newConn_def
      try_send_def make_chan_def udp_deliver_def Let_def)

text \<open>
  What the loop does, without locks, pointers and the announcement queue: a map from addresses
  to packet queues and the number of new peers that can still be announced. A packet of a
  known peer joins its queue or is dropped when that is full; a new peer gets a queue if it can
  be announced, else the packet is dropped; an empty packet is nothing.
\<close>

fun route :: "udp_options \<Rightarrow> bytes \<times> bytes \<Rightarrow> (bytes \<rightharpoonup> bytes chan) \<times> nat \<Rightarrow> (bytes \<rightharpoonup> bytes chan) \<times> nat" where
  "route cfg (k, d) (peers, n) =
     (if d = [] then (peers, n)
      else case peers k of
        Some c \<Rightarrow> (peers(k \<mapsto> offer d c), n)
      | None \<Rightarrow> if 0 < n then (peers(k \<mapsto> offer d (make_chan (msg_room cfg))), n - 1) else (peers, n))"

text \<open>The packets in front of the first stop or failure, and whether there is one.\<close>

fun heard :: "(bool \<times> udp_event) list \<Rightarrow> (bytes \<times> bytes) list" where
  "heard ((False, Datagram k d) # evs) = (k, d) # heard evs"
| "heard _ = []"

definition loop_ends :: "(bool \<times> udp_event) list \<Rightarrow> bool" where
  "loop_ends evs \<longleftrightarrow> (\<exists>ev \<in> set evs. fst ev \<or> (\<exists>er. snd ev = ReadFault er))"

definition routes :: "udp_listener \<Rightarrow> (bytes \<rightharpoonup> bytes chan) \<times> nat" where
  "routes l = (peer_chan l, conn_room l)"

lemma udp_packet_routes:
  assumes "udp_inv l" "udp_open l" "0 \<le> sint (MsgChanSize cfg)"
  shows "\<exists>l'. udp_packet cfg k d l = (Ok (), l') \<and> udp_inv l' \<and> udp_open l' \<and> routes l' = route cfg (k, d) (routes l)"
proof (cases "d = []")
  case False
  from udp_packet_routed [OF assms(1,2) False assms(3)] obtain l' where l': "udp_packet cfg k d l = (Ok (), l')" "udp_open l'"
      "peer_chan l' k = peer_spec cfg k d l" "\<forall>k'. k' \<noteq> k \<longrightarrow> peer_chan l' k' = peer_chan l k'"
      "conn_room l' = (if peer_chan l k = None then conn_room l - 1 else conn_room l)" by blast
  have "peer_chan l' = (peer_chan l)(k := peer_spec cfg k d l)" using l'(3,4) by auto
  then have "routes l' = route cfg (k, d) (routes l)"
    using l'(5) False by (auto simp: routes_def peer_spec_def conn_room_def fun_upd_idem split: option.split)
  then show ?thesis using l' udp_packet_inv [OF assms(1) l'(1)] by blast
qed (use assms in \<open>simp add: udp_packet_def routes_def\<close>)

lemma readLoop_routes:
  assumes "udp_inv l" and "udp_open l" and "0 \<le> sint (MsgChanSize cfg)"
  shows "\<exists>l'. readLoop cfg evs l = (if loop_ends evs then Ok () else Blocked, l') \<and> udp_inv l' \<and> udp_open l'
    \<and> routes l' = fold (route cfg) (heard evs) (routes l)"
  using assms
proof (induction evs arbitrary: l rule: heard.induct)
  case (1 k d evs)
  obtain l1 where l1: "udp_packet cfg k d l = (Ok (), l1)" "udp_inv l1" "udp_open l1"
      "routes l1 = route cfg (k, d) (routes l)"
    using udp_packet_routes [OF 1(2-4)] by blast
  show ?case using 1(1) [OF l1(2,3) 1(4)] l1(1,4) by (simp add: loop_ends_def)
qed (auto simp: loop_ends_def)

text \<open>
  C18. The receive loop of the udp listener is that routing: over any sequence of packets it ends only
  on a stop or a read failure, never panics and never waits for anything but the next packet;
  and the queues it leaves are those of the routing, so that every packet goes to its sender's
  connection and nowhere else, or is dropped when a queue is full.
\<close>

theorem readLoop_refines_routing:
  assumes "udp_inv l" and "udp_open l" and "0 \<le> sint (MsgChanSize cfg)"
  shows "\<exists>l'. readLoop cfg evs l = (if loop_ends evs then Ok () else Blocked, l') \<and> udp_inv l' \<and> udp_open l'
    \<and> routes l' = fold (route cfg) (heard evs) (routes l)"
  using assms by (rule readLoop_routes)

theorem readLoop_refines_routing_witness:
  "\<exists>l'. readLoop \<lparr>ConnChanSize = 1, MsgChanSize = 2\<rparr>
        [(False, Datagram [1] [9]), (False, Datagram [2] [8]), (False, Datagram [1] []), (False, ReadFault ErrNetClosed),
         (False, Datagram [1] [7])] (new_udp 1) = (Ok (), l')
    \<and> peer_chan l' [1] = Some \<lparr>items = [[9]], ccap = 2, closed = False\<rparr> \<and> peer_chan l' [2] = None
    \<and> conn_room l' = 0"
proof -
  let ?o = "\<lparr>ConnChanSize = 1, MsgChanSize = 2\<rparr>"
  have "udp_open (new_udp 1)" "routes (new_udp 1) = (Map.empty, 1)"
    by (auto simp: udp_open_def new_udp_def make_chan_def routes_def peer_chan_def conns_get_def conn_room_def)
  then show ?thesis
    using readLoop_refines_routing [OF udp_inv_new, of 1 ?o "[(False, Datagram [1] [9]), (False, Datagram [2] [8]),
        (False, Datagram [1] []), (False, ReadFault ErrNetClosed), (False, Datagram [1] [7])]"]
    by (auto simp: loop_ends_def offer_def make_chan_def routes_def)
qed

text \<open>A sequence of packets, each with its sender, as what the loop reads.\<close>

definition packets :: "(bytes \<times> bytes) list \<Rightarrow> (bool \<times> udp_event) list" where
  "packets ps = map (\<lambda>(k, d). (False, Datagram k d)) ps"

lemma packets_simps [simp]: "packets [] = []" "packets ((k, d) # ps) = (False, Datagram k d) # packets ps"
  by (simp_all add: packets_def)

lemma udp_deliver_keeps:
  "udp_deliver p d l = (x, l') \<Longrightarrow> ul_conns l' = ul_conns l"
  by (auto simp: udp_deliver_def split: option.splits prod.splits outcome.splits)

lemma udp_deliver_obj:
  "udp_deliver q d l = (Ok (), l') \<Longrightarrow> ul_objs l p = Some c \<Longrightarrow> \<not> closed (uc_msgs c) \<Longrightarrow>
   ul_objs l' p = Some (if q = p then c\<lparr>uc_msgs := offer d (uc_msgs c)\<rparr> else c)"
  by (auto simp: udp_deliver_def try_send_def offer_def split: option.splits prod.splits if_splits)

lemma udp_dispatch_keeps:
  assumes "udp_inv l" "udp_open l" "conns_get l k = Some p" "udp_dispatch cfg k' l = (Ok r, l')"
  shows "conns_get l' k = Some p \<and> ul_objs l' p = ul_objs l p \<and> (r = Some p \<longrightarrow> k' = k)
    \<and> (k' = k \<longrightarrow> r = Some p)"
proof (cases "conns_get l k'")
  case (Some q)
  then show ?thesis
    using assms udp_dispatch_known [OF assms(2) Some, of cfg] conns_get_inj [OF assms(1,3), of k'] by auto
next
  case None
  have "p < ul_next l" using good_connD [OF assms(1,3)] assms(1) by (auto simp: good_conn_def udp_inv_def)
  moreover have "k' \<noteq> k" using None assms(3) by auto
  ultimately show ?thesis
    using assms(2-4) None
    by (auto simp: udp_dispatch_def lock_defs udp_open_def conns_get_def newConn_def Let_def
        try_send_def split: option.splits if_splits)
qed

lemma udp_packet_obj:
  assumes inv: "udp_inv l" and op: "udp_open l" and k: "conns_get l k = Some p"
    and c: "ul_objs l p = Some c" and d: "d \<noteq> []" and r: "udp_packet cfg k' d l = (Ok (), l')"
  shows "conns_get l' k = Some p
    \<and> ul_objs l' p = Some (if k' = k then c\<lparr>uc_msgs := offer d (uc_msgs c)\<rparr> else c)"
proof -
  have op_c: "\<not> closed (uc_msgs c)" using good_connD [OF inv k] c by (auto simp: good_conn_def)
  obtain y l1 where y: "udp_dispatch cfg k' l = (Ok y, l1)"
    and r1: "(case y of None \<Rightarrow> (Ok (), l1) | Some q \<Rightarrow> udp_deliver q d l1) = (Ok (), l')"
    using r d by (auto simp: udp_packet_def and_then_Ok_iff)
  note ks = udp_dispatch_keeps [OF inv op k y]
  show ?thesis
  proof (cases y)
    case None
    then show ?thesis using r1 ks c by auto
  next
    case (Some q)
    then have del: "udp_deliver q d l1 = (Ok (), l')" using r1 by simp
    have "ul_objs l1 p = Some c" using ks c by simp
    from udp_deliver_obj [OF del this op_c] show ?thesis
      using udp_deliver_keeps [OF del] ks Some by (auto simp: conns_get_def)
  qed
qed

lemma readLoop_obj:
  assumes "udp_inv l" "udp_open l" "conns_get l k = Some p" "ul_objs l p = Some c"
    and "\<forall>(k, d) \<in> set ps. d \<noteq> []" and "0 \<le> sint (MsgChanSize cfg)"
    and "length (items (uc_msgs c)) + length (List.filter (\<lambda>x. fst x = k) ps) \<le> ccap (uc_msgs c)"
  shows "\<exists>l'. readLoop cfg (packets ps) l = (Blocked, l') \<and> ul_objs l' p = Some (c\<lparr>uc_msgs := (uc_msgs c)\<lparr>items :=
      items (uc_msgs c) @ map snd (List.filter (\<lambda>x. fst x = k) ps)\<rparr>\<rparr>)"
  using assms
proof (induction ps arbitrary: l c)
  case (Cons q ps)
  obtain k' d where q: "q = (k', d)" by fastforce
  then have d: "d \<noteq> []" using Cons.prems(5) by auto
  obtain l1 where l1: "udp_packet cfg k' d l = (Ok (), l1)" "udp_open l1"
    using udp_packet_routed [OF Cons.prems(1,2) d Cons.prems(6), of k'] by blast
  have i1: "udp_inv l1" by (rule udp_packet_inv [OF Cons.prems(1) l1(1)])
  note ob = udp_packet_obj [OF Cons.prems(1-4) d l1(1)]
  let ?c = "if k' = k then c\<lparr>uc_msgs := offer d (uc_msgs c)\<rparr> else c"
  have "\<exists>l'. readLoop cfg (packets ps) l1 = (Blocked, l') \<and> ul_objs l' p = Some (?c\<lparr>uc_msgs := (uc_msgs ?c)\<lparr>items :=
      items (uc_msgs ?c) @ map snd (List.filter (\<lambda>x. fst x = k) ps)\<rparr>\<rparr>)"
    by (rule Cons.IH) (use i1 l1 ob Cons.prems(5-7) q in \<open>auto simp: offer_def split: if_splits\<close>)
  then show ?case using l1(1) q Cons.prems(7) by (auto simp: offer_def)
qed simp

text \<open>
  C19. Over udp, what a connected peer sends arrives at its connection whole and in order, compressed
  bodies included, however the packets of other peers are mixed in between and as long as the
  peer's own queue has room.
\<close>

theorem udp_peer_stream:
  assumes inv: "udp_inv l" "udp_open l" and peer: "conns_get l k = Some p" "ul_objs l p = Some c"
    and fresh: "items (uc_msgs c) = []" "uc_head c = None" "HeadLen (opts e) = 10"
    and ps: "\<forall>(k, d) \<in> set ps. d \<noteq> []"
    and mine: "map snd (List.filter (\<lambda>x. fst x = k) ps) = map (wire e) ms"
    and ok: "\<forall>m \<in> set ms. datagram_ok e m" and room: "length ms \<le> ccap (uc_msgs c)"
      "0 \<le> sint (MsgChanSize cfg)"
  shows "\<exists>l' c'. readLoop cfg (packets ps) l = (Blocked, l')
    \<and> reads (udp_recv e) (length ms) (p, l') = Some (map packet_of ms, c') \<and> udp_pending c' = []"
proof -
  have len: "length (List.filter (\<lambda>x. fst x = k) ps) = length ms"
    using mine by (metis length_map)
  have "length (items (uc_msgs c)) + length (List.filter (\<lambda>x. fst x = k) ps) \<le> ccap (uc_msgs c)"
    using fresh(1) room(1) len by simp
  from readLoop_obj [OF inv peer ps room(2) this] obtain l'
    where l': "readLoop cfg (packets ps) l = (Blocked, l')"
      "ul_objs l' p = Some (c\<lparr>uc_msgs := (uc_msgs c)\<lparr>items := map (wire e) ms\<rparr>\<rparr>)"
    using fresh(1) mine by auto
  have "udp_pending (p, l') = concat (map (\<lambda>m. [wire e m]) ms) @ []"
    using l'(2) by (simp add: udp_pending_def)
  moreover have "udp_conn_inv e (p, l')"
    using l'(2) fresh by (simp add: udp_conn_inv_def head_ok_def messageHeadSize_def)
  ultimately show ?thesis using udp_tr.reads_puts [OF _ ok, of "(p, l')" "[]"] l'(1) by blast
qed

text \<open>A listener with one peer, whose connection was made by its first packet and is idle.\<close>

definition sample_listener :: udp_listener where
  "sample_listener = (new_udp 1)
     \<lparr>ul_conns := Some [[1] \<mapsto> 0], ul_next := 1,
      ul_objs := [0 \<mapsto> \<lparr>uc_key = [1], uc_msgs = make_chan 4, uc_head = None\<rparr>]\<rparr>"

lemma sample_listener_inv:
  "udp_inv sample_listener" "udp_open sample_listener" "conns_get sample_listener [1] = Some 0"
  "ul_objs sample_listener 0 = Some \<lparr>uc_key = [1], uc_msgs = make_chan 4, uc_head = None\<rparr>"
  by (simp_all add: sample_listener_def udp_inv_def conns_get_def good_conn_def udp_open_def new_udp_def
      make_chan_def)

theorem udp_peer_stream_witness:
  "\<exists>l' c'. readLoop \<lparr>ConnChanSize = 1, MsgChanSize = 4\<rparr>
        (packets [([1], wire sample_env (sample_message [5])), ([2], [8, 8]), ([1], wire sample_env (sample_message [6]))])
        sample_listener = (Blocked, l')
    \<and> reads (udp_recv sample_env) 2 (0, l')
      = Some ([packet_of (sample_message [5]), packet_of (sample_message [6])], c') \<and> udp_pending c' = []"
proof -
  have "wire sample_env (sample_message [x]) \<noteq> []" for x
    using length_wire [of sample_env "sample_message [x]"] sample_message_ok [of "[x]"]
    by (auto simp: datagram_ok_def messageHeadSize_def)
  then show ?thesis
    using udp_peer_stream [OF sample_listener_inv, where e = sample_env
        and cfg = "\<lparr>ConnChanSize = 1, MsgChanSize = 4\<rparr>" and ms = "[sample_message [5], sample_message [6]]"
        and ps = "[([1], wire sample_env (sample_message [5])), ([2], [8, 8]),
          ([1], wire sample_env (sample_message [6]))]"]
    by (simp add: make_chan_def sample_message_ok messageHeadSize_def numeral_2_eq_2)
qed

text \<open>
  \<open>Listener.Close\<close> hangs whenever a connection is alive: it holds the mutex while the
  connection's \<open>Close\<close> asks for it again.
\<close>

theorem udp_listener_Close_blocks:
  assumes "udp_open l" and "ul_objs l p = Some c"
  shows "fst (udp_Close (p # ps) l) = Blocked"
  using assms
  by (simp add: udp_Close_def udp_open_def chan_close_def mu_lock_def udp_conn_Close_def removeConn_def)

theorem udp_listener_Close_blocks_witness: "fst (udp_Close [0] sample_listener) = Blocked"
  using udp_listener_Close_blocks [OF sample_listener_inv(2,4), of "[]"] by simp

text \<open>
  A packet that was assigned to a connection before that connection is closed, and is delivered
  after, panics in the receive loop of the listener (a send on a closed channel): every peer is
  cut off. Such a run exists for every live peer, since the loop releases the mutex in between.
\<close>

theorem udp_late_delivery_panics:
  assumes inv: "udp_inv l" and op: "udp_open l" and k: "conns_get l k = Some p"
  shows "\<exists>l1 l2. udp_dispatch cfg k l = (Ok (Some p), l1) \<and> udp_conn_Close p l1 = (Ok (), l2)
    \<and> fst (udp_deliver p d l2) = Panic"
proof -
  obtain c where c: "ul_objs l p = Some c" "\<not> closed (uc_msgs c)"
    using good_connD [OF inv k] by (auto simp: good_conn_def)
  obtain l2 where "udp_conn_Close p l = (Ok (), l2)"
    "ul_objs l2 p = Some (c\<lparr>uc_msgs := (uc_msgs c)\<lparr>closed := True\<rparr>\<rparr>)"
    using c op by (simp add: udp_conn_Close_def removeConn_def lock_defs udp_open_def chan_close_def)
  then show ?thesis using udp_dispatch_known [OF op k] by (simp add: udp_deliver_def)
qed

theorem udp_late_delivery_panics_witness:
  "\<exists>l1 l2. udp_dispatch \<lparr>ConnChanSize = 1, MsgChanSize = 4\<rparr> [1] sample_listener = (Ok (Some 0), l1)
    \<and> udp_conn_Close 0 l1 = (Ok (), l2) \<and> fst (udp_deliver 0 [7] l2) = Panic"
  using udp_late_delivery_panics [OF sample_listener_inv(1-3)] by blast

section \<open>Websocket and Socket.IO\<close>

text \<open>Writing several messages as frames.\<close>

fun wss_writes :: "env \<Rightarrow> message list \<Rightarrow> wss_conn \<Rightarrow> (unit, wss_conn) run" where
  "wss_writes e [] c = (Ok (), c)"
| "wss_writes e (m # ms) c =
     (case wss_WriteMessage e DefaultTransform c m of
        (x, (m, c)) \<Rightarrow> and_then (x, c) (\<lambda>_ c. wss_writes e ms c))"

lemma wss_WriteMessage_wire:
  assumes "datagram_ok e m" "sx_fault (wc_ctx c) = None"
  shows "wss_WriteMessage e DefaultTransform c m = (Ok (), (m, c\<lparr>wc_ctx := (wc_ctx c)\<lparr>sx_out :=
    sx_out (wc_ctx c) @ [(BinaryMessage, wire e m)]\<rparr>\<rparr>))"
proof -
  have "wire e m \<noteq> []"
    using assms(1) length_wire [of e m] by (auto simp: datagram_ok_def messageHeadSize_def)
  then show ?thesis
    using assms by (simp add: wss_WriteMessage_def transform_WriteMessage_def ws_write_def Bytes_wire
        datagram_ok_def buffer_writer_def)
qed

lemma wss_writes_wire:
  "\<forall>m \<in> set ms. datagram_ok e m \<Longrightarrow> sx_fault (wc_ctx c) = None \<Longrightarrow>
   \<exists>c'. wss_writes e ms c = (Ok (), c')
     \<and> sx_out (wc_ctx c') = sx_out (wc_ctx c) @ map (\<lambda>m. (BinaryMessage, wire e m)) ms"
proof (induction ms arbitrary: c)
  case (Cons m ms)
  let ?c = "c\<lparr>wc_ctx := (wc_ctx c)\<lparr>sx_out := sx_out (wc_ctx c) @ [(BinaryMessage, wire e m)]\<rparr>\<rparr>"
  show ?case
    using Cons.IH [of ?c] Cons.prems by (simp add: wss_WriteMessage_wire)
qed simp

text \<open>
  With the default converter a websocket connection is a lossless, ordered message channel,
  compressed bodies included: the frames one side writes are read as the same sequence of heads
  and bodies.
\<close>

theorem wss_stream:
  assumes ok: "\<forall>m \<in> set ms. datagram_ok e m" and w: "sx_fault (wc_ctx c) = None" "sx_out (wc_ctx c) = []"
  shows "\<exists>c1 c2. wss_writes e ms c = (Ok (), c1)
    \<and> reads (wss_recv e) (length ms) (r\<lparr>wc_in := sx_out (wc_ctx c1) @ rest\<rparr>) = Some (map packet_of ms, c2)
    \<and> wc_in c2 = rest"
proof -
  from wss_writes_wire [OF ok w(1)] w(2) obtain c1 where c1: "wss_writes e ms c = (Ok (), c1)"
    "sx_out (wc_ctx c1) = map (\<lambda>m. (BinaryMessage, wire e m)) ms" by auto
  have "wc_in (r\<lparr>wc_in := sx_out (wc_ctx c1) @ rest\<rparr>) = concat (map (\<lambda>m. [(BinaryMessage, wire e m)]) ms) @ rest"
    using c1(2) by simp
  from wss.reads_puts [OF TrueI ok this] show ?thesis using c1(1) by blast
qed

definition sample_ctx :: sock_ctx where
  "sample_ctx = \<lparr>sx_id = 1, sx_conn = True, sx_out = [], sx_fault = None, sx_errs = []\<rparr>"

theorem wss_stream_witness:
  "\<exists>c1 c2. wss_writes sample_env [sample_message [1], sample_message [2]]
        \<lparr>wc_in = [], wc_end = ErrEOF, wc_ctx = sample_ctx\<rparr> = (Ok (), c1)
    \<and> reads (wss_recv sample_env) 2
        (\<lparr>wc_in = [], wc_end = ErrEOF, wc_ctx = sample_ctx\<rparr>\<lparr>wc_in := sx_out (wc_ctx c1) @ [(CloseMessage, [])]\<rparr>)
      = Some ([packet_of (sample_message [1]), packet_of (sample_message [2])], c2)
    \<and> wc_in c2 = [(CloseMessage, [])]"
  using wss_stream [where e = sample_env and ms = "[sample_message [1], sample_message [2]]"
      and c = "\<lparr>wc_in = [], wc_end = ErrEOF, wc_ctx = sample_ctx\<rparr>"
      and r = "\<lparr>wc_in = [], wc_end = ErrEOF, wc_ctx = sample_ctx\<rparr>" and rest = "[(CloseMessage, [])]"]
  by (simp add: sample_message_ok sample_ctx_def numeral_2_eq_2)

text \<open>
  Every connection the websocket listener upgrades is either queued for \<open>Accept\<close>, behind those
  already waiting, or answered with an error and closed, the latter exactly when the queue is
  full; requests that are refused for the state of the process or for their path touch nothing.
\<close>

theorem ServeHTTP_queues_or_closes:
  assumes open_ch: "\<not> closed (wl_connChan l)"
  shows "\<exists>acts l'. ServeHTTP stopped is_head path up l = (Ok acts, l')
    \<and> (let served = (\<not> stopped \<and> (wl_route l = [] \<or> path = wl_route l));
           room = (length (items (wl_connChan l)) < ccap (wl_connChan l)) in
       items (wl_connChan l') = items (wl_connChan l)
         @ (case up of Inr conn \<Rightarrow> if served \<and> room then [conn] else [] | Inl _ \<Rightarrow> [])
       \<and> (\<forall>conn. CloseConn conn \<in> set acts \<longleftrightarrow> served \<and> up = Inr conn \<and> \<not> room)
       \<and> (acts = [] \<longleftrightarrow> served \<and> room \<and> (\<exists>conn. up = Inr conn)))"
proof -
  have other: "CloseConn conn \<notin> set (HTTPErrorHandler is_head er)" "HTTPErrorHandler is_head er \<noteq> []" for conn er
    by (simp_all add: HTTPErrorHandler_def)
  show ?thesis
    using open_ch other by (cases up) (auto simp: ServeHTTP_def try_send_def Let_def)
qed

theorem ServeHTTP_queues_or_closes_witness:
  "\<exists>acts l'. ServeHTTP False False (str ''/ws'') (Inr 7)
      \<lparr>wl_err = None, wl_route = str ''/ws'', wl_connChan = make_chan 1\<rparr> = (Ok acts, l')
    \<and> items (wl_connChan l') = [7] \<and> acts = []"
  using ServeHTTP_queues_or_closes [where stopped = False and is_head = False and path = "str ''/ws''"
      and up = "Inr 7" and l = "\<lparr>wl_err = None, wl_route = str ''/ws'', wl_connChan = make_chan 1\<rparr>"]
  by (simp add: make_chan_def Let_def)

text \<open>
  Events built for Socket.IO are understood: one without an acknowledgement number arrives as a
  message that wants no reply, one with a number arrives with that number as its index, in both
  cases with the data as its body; the path is the event name with a slash in front of it.
  Without a number the data must not itself start with a digit.
\<close>

theorem sio_event_roundtrip:
  assumes rdy: "event_ready e m" and nm: "of_char CHR '','' \<notin> set name" "length name < 2 ^ 31 - 1"
    and d: "d = [] \<or> \<not> is_digit (hd d)" and n: "0 < n" "n < 2 ^ 63"
  shows "(\<exists>m'. sio_ReadMessage e t x m (BuildEventPacket name d []) = (Ok (), (m', x))
        \<and> is_event e (str ''/'' @ name) d FlagNoreply 0 m')
    \<and> (\<exists>m'. sio_ReadMessage e t x m (BuildEventPacket name data [word_of_nat n]) = (Ok (), (m', x))
        \<and> is_event e (str ''/'' @ name) data 0 (word_of_nat n) m')"
proof
  show "\<exists>m'. sio_ReadMessage e t x m (BuildEventPacket name d []) = (Ok (), (m', x))
        \<and> is_event e (str ''/'' @ name) d FlagNoreply 0 m'"
    using sio_event_read [OF rdy nm parse_ack_none [OF d]]
    by (simp add: BuildEventPacket_def event_tail_def)
  have "parse_ack (show_nat n @ str '','' @ data) = (data, int n)" by (rule parse_ack_number [OF n(2)])
  from sio_event_read [OF rdy nm this, of t x]
  show "\<exists>m'. sio_ReadMessage e t x m (BuildEventPacket name data [word_of_nat n]) = (Ok (), (m', x))
        \<and> is_event e (str ''/'' @ name) data 0 (word_of_nat n) m'"
    using n show_int_pos [OF n] by (simp add: BuildEventPacket_def event_tail_def sint_word_of_nat64)
qed

theorem sio_event_roundtrip_witness:
  "\<exists>m'. sio_ReadMessage sample_env (NewSocketIO []) sample_ctx new_message
        (BuildEventPacket (str ''chat'') [34, 104, 34] [word_of_nat 12]) = (Ok (), (m', sample_ctx))
      \<and> is_event sample_env (str ''/'' @ str ''chat'') [34, 104, 34] 0 (word_of_nat 12) m'"
proof -
  have rdy: "event_ready sample_env new_message" by (simp add: event_ready_def)
  show ?thesis
    using sio_event_roundtrip [OF rdy, where name = "str ''chat''" and d = "[]" and n = 12
        and t = "NewSocketIO []" and x = sample_ctx and data = "[34, 104, 34]"] by simp
qed

lemma sio_WriteMessage_head:
  assumes "sio_WriteMessage e m = (Ok b, m')"
  shows "h_flag m' = h_flag m"
proof -
  have c: "Code e x = (r, x') \<Longrightarrow> h_flag x' = h_flag x" for x r x'
    by (auto simp: Code_def Let_def split: option.splits outcome.splits if_splits)
  have p: "Path e x = (Ok r, x') \<Longrightarrow> h_flag x' = h_flag x" for x r x'
    by (auto simp: Path_def and_then_Ok_iff Let_def dest!: c split: option.splits if_splits sum.splits)
  have d: "Body e x = (Ok r, x') \<Longrightarrow> h_flag x' = h_flag x" for x r x'
    by (auto simp: Body_def and_then_Ok_iff Let_def dest!: c split: option.splits if_splits)
  show ?thesis
    using assms by (auto simp: sio_WriteMessage_def and_then_Ok_iff dest!: p d)
qed

lemma handleAck_slash: "handleAck x m (str ''/'' @ d) = (Err (ErrNew ''invalid ack id''), (m, x))"
  by (simp add: handleAck_def)

lemma sio_ReadMessage_ack: "sio_ReadMessage e t x m (str ''3'' @ rest) = handleAck x m rest"
  by (simp add: sio_ReadMessage_def)

lemma sio_ReadMessage_binary:
  "sio_ReadMessage e t x m (str ''5'' @ rest) = handleBinaryEvent e x m rest"
  by (simp add: sio_ReadMessage_def)

text \<open>
  What the package writes to acknowledge an event, it refuses to read: every packet of
  \<open>BuildAckPacket\<close>, and every confirmation \<open>WriteMessage\<close> writes, is rejected as having an invalid
  number, since the reader looks for the number in front of the slash and the writer puts it
  behind. The packets of \<open>BuildBinaryEventPacket\<close> are rejected likewise.
\<close>

theorem sio_ack_is_rejected:
  assumes out: "sio_WriteMessage e sent = (Ok b, sent')" and conf: "Has (h_flag sent) FlagConfirm"
  shows "sio_ReadMessage e t x m b = (Err (ErrNew ''invalid ack id''), (m, x))
    \<and> sio_ReadMessage e t x m (BuildAckPacket a d) = (Err (ErrNew ''invalid ack id''), (m, x))
    \<and> sio_ReadMessage e t x m (BuildBinaryEventPacket n ev d aid)
        = (Err (ErrNew ''invalid attachments count''), (m, x))"
proof -
  obtain body where "b = str ''3/'' @ show_int (sint (h_index sent')) @ str '','' @ body"
    using out conf sio_WriteMessage_head [OF out]
    by (auto simp: sio_WriteMessage_def and_then_Ok_iff split: if_splits)
  then have b: "b = str ''3'' @ (str ''/'' @ show_int (sint (h_index sent')) @ str '','' @ body)"
    by simp
  have a: "BuildAckPacket a d = str ''3'' @ (str ''/'' @ show_int (sint a) @ str '','' @ d)"
    by (simp add: BuildAckPacket_def)
  have c: "BuildBinaryEventPacket n ev d aid
      = str ''5'' @ (str ''-'' @ show_int (sint n) @ str ''/'' @ event_tail ev d aid)"
    by (simp add: BuildBinaryEventPacket_def)
  show ?thesis
    unfolding a b c sio_ReadMessage_ack sio_ReadMessage_binary
    by (simp only: handleAck_slash) (simp add: handleBinaryEvent_def)
qed

definition sample_confirm :: message where
  "sample_confirm = new_message\<lparr>h_magic := MagicNumberPathJson, h_flag := FlagConfirm, h_size := 6,
     h_index := 1, mbytes := \<lparr>arr = [0, 0, 0, 1, 97, 98], slen = 6\<rparr>\<rparr>"

lemma sample_confirm_written:
  "sio_WriteMessage sample_env sample_confirm = (Ok (str ''3/1,b''), sample_confirm\<lparr>code := 1\<rparr>)"
proof -
  have "holds_path sample_env \<lparr>Key = MagicNumberPathJson, Type = MagicTypePath, Binder = Some sample_codec,
      Binary = BigEndian\<rparr> [97] [98] sample_confirm"
    by (simp add: holds_path_def sample_confirm_def wf_slice_def view_def path_prefix_def PutUint32_def
        be_put_def)
  from holds_path_Path [OF this] holds_path_Body [OF this]
  have p: "Path sample_env sample_confirm = (Ok (split_query [97]), sample_confirm\<lparr>code := 1\<rparr>)"
    and "Body sample_env sample_confirm = (Ok [98], sample_confirm\<lparr>code := 1\<rparr>)" by simp_all
  have b: "Body sample_env (sample_confirm\<lparr>code := 1\<rparr>) = (Ok [98], sample_confirm\<lparr>code := 1\<rparr>)"
    by (simp add: Body_def sample_confirm_def Code_def view_def)
  have "Has FlagConfirm FlagConfirm" by (simp add: Has_def FlagConfirm_def)
  then show ?thesis
    by (simp add: sio_WriteMessage_def p b split_query_def)
      (simp add: sample_confirm_def show_int_def show_nat.simps digit_def)
qed

theorem sio_ack_is_rejected_witness:
  "sio_ReadMessage sample_env (NewSocketIO []) sample_ctx new_message (str ''3/1,b'')
    = (Err (ErrNew ''invalid ack id''), (new_message, sample_ctx))"
  using sio_ack_is_rejected [OF sample_confirm_written, of "NewSocketIO []" sample_ctx new_message]
  by (simp add: sample_confirm_def Has_def FlagConfirm_def)

end
