(* ===== verification/SocketProperties.thy ===== *)
theory SocketProperties
  imports Manager Sample
begin

text \<open>
  What the sockets and their manager promise: the invariant of every run, what the calls do to a
  socket, the life of a connection with its reconnections, dispatch and reply, dialling; and
  the runs on which the code does not do what its comments say.
\<close>

section \<open>Every run\<close>

text \<open>
  C5. In every state the manager can reach, by any order of calls, loop turns, heartbeats and
  reconnections: the table leads from an id to the socket with that id and holds exactly the
  sockets that are not released, the counter is their number, and the configured limit on
  connections is kept.
\<close>

theorem manager_table_and_count:
  assumes "(ss_step e)\<^sup>*\<^sup>* (sockets_New opt) s" and "0 \<le> Capacity (opts e)"
  shows "(\<forall>i p. sockets_Get i s = Some p \<longleftrightarrow>
        (\<exists>k. ss_heap s p = Some k \<and> sk_id k = i \<and> sk_status k \<noteq> SocketStatusReleased))
    \<and> ss_count s = word_of_nat (card (dom (ss_sockets s)))
    \<and> (0 < sint (ConnectMaxSize (ss_opts s)) \<longrightarrow>
        int (card (dom (ss_sockets s))) \<le> sint (ConnectMaxSize (ss_opts s)))"
proof -
  have "ss_inv e s" by (rule ss.run_keeps [OF assms(1) ss_inv_New [OF assms(2)]])
  then show ?thesis by (simp add: ss_inv_def table_inv_def count_inv_def sockets_Get_def)
qed

text \<open>One accepted connection.\<close>

definition sample_manager :: sockets where
  "sample_manager = snd (Create False 5 (sockets_New (Config_default\<lparr>WriteChanSize := 2\<rparr>)))"

lemma sample_manager_step:
  "ss_step sample_env (sockets_New (Config_default\<lparr>WriteChanSize := 2\<rparr>)) sample_manager"
proof -
  let ?n = "sockets_New (Config_default\<lparr>WriteChanSize := 2\<rparr>)"
  have "ss_index ?n \<noteq> - 1" by (simp add: sockets_New_def)
  then show ?thesis
    unfolding sample_manager_def by (rule ss_step.create) (rule surjective_pairing)
qed

lemmas sample_manager_run =
  r_into_rtranclp [where r = "ss_step sample_env", OF sample_manager_step]

lemma sample_manager_eq:
  "sample_manager = created 5 (sockets_New (Config_default\<lparr>WriteChanSize := 2\<rparr>))"
  unfolding sample_manager_def
  by (subst Create_ok) (simp_all add: sockets_New_def Config_default_def)

lemma sample_manager_heap:
  "ss_heap sample_manager 0 = Some (fresh_socket 1 2\<lparr>sk_conn := Some 5, sk_stop := Some False,
     sk_status := SocketStatusConnected, sk_heartbeat := 0\<rparr>)"
  "ss_sockets sample_manager = [1 \<mapsto> 0]" "ss_tasks sample_manager = [TRead 0, TWrite 0]"
  "ss_pool sample_manager = []" "ss_count sample_manager = 1"
  by (simp_all add: sample_manager_eq created_def sockets_New_def go_start_def sock_Emit_def
      Config_default_def Let_def)

theorem manager_table_and_count_witness:
  "sockets_Get 1 sample_manager = Some 0 \<and> ss_count sample_manager = 1"
  using manager_table_and_count [OF sample_manager_run] sample_manager_heap
  by (simp add: sockets_Get_def)

text \<open>
  C11. In every reachable state each socket is in one of four states, with what belongs to it:
  connected or closing with an open stop channel and a connection, reconnecting with a closed
  channel, no connection, an address and exactly one reconnection under way, or released with
  an empty queue. No other socket has a reconnection under way, and no write queue exceeds its
  capacity.
\<close>

theorem manager_socket_states:
  assumes run: "(ss_step e)\<^sup>*\<^sup>* (sockets_New opt) s" and cap: "0 \<le> Capacity (opts e)"
    and k: "ss_heap s p = Some k"
  shows "(case sk_status k of
        SocketStatusConnected \<Rightarrow> sk_stop k = Some False \<and> sk_conn k \<noteq> None
      | SocketStatusClosing \<Rightarrow> sk_stop k = Some False \<and> sk_conn k \<noteq> None
      | SocketStatusReconnecting \<Rightarrow> sk_stop k = Some True \<and> sk_conn k = None \<and> sk_address k \<noteq> []
      | SocketStatusReleased \<Rightarrow> sk_stop k = Some True \<and> sk_conn k = None \<and> items (sk_cwrite k) = []
      | _ \<Rightarrow> False)
    \<and> length (items (sk_cwrite k)) \<le> ccap (sk_cwrite k)
    \<and> count_list (ss_tasks s) (TReconnect p)
        = (if sk_status k = SocketStatusReconnecting then 1 else 0)"
proof -
  have inv: "ss_inv e s" by (rule ss.run_keeps [OF run ss_inv_New [OF cap]])
  show ?thesis
    using ss_inv_facts(3,4) [OF inv, of p] k by (simp add: sock_ok_def reconnecting_def)
qed

theorem manager_socket_states_witness:
  "sk_conn (sock 0 sample_manager) \<noteq> None \<and> count_list (ss_tasks sample_manager) (TReconnect 0) = 0"
  using manager_socket_states [OF sample_manager_run _ sample_manager_heap(1)]
  by (simp add: sample_manager_heap(1))

lemma disconnect_server_state:
  assumes inv: "ss_inv e s" and k: "ss_heap s p = Some k" and v: "isValidStatus (sk_status k)"
    and srv: "sock_Type k = SocketTypeServer"
  obtains c pool where "sk_conn k = Some c" "disconnect e p s = (Ok True,
      released p (k\<lparr>sk_status := SocketStatusDisconnected, sk_stop := Some True, sk_conn := None\<rparr>) pool
        (cut p c k SocketStatusDisconnected s))"
proof -
  note ok = ss_inv_facts(3) [OF inv k]
  obtain c where c: "sk_status k \<in> {SocketStatusConnected, SocketStatusClosing}"
    "sk_stop k = Some False" "sk_conn k = Some c"
    using isValid_ok [OF ok v] by blast
  have addr: "sk_address k = []" using srv by (simp add: sock_Type_def split: if_splits)
  let ?s = "cut p c k SocketStatusDisconnected s"
  have cp: "clean_pool e (ss_pool ?s)" using ss_inv_facts(2) [OF inv] by simp
  obtain pool where r: "release e p ?s = (Ok (), released p
      (k\<lparr>sk_status := SocketStatusDisconnected, sk_stop := Some True, sk_conn := None\<rparr>) pool ?s)"
    using release_ok [OF cut_heap ss_inv_facts(1) [OF inv] cp] by blast
  have "disconnect e p s = (Ok True,
      released p (k\<lparr>sk_status := SocketStatusDisconnected, sk_stop := Some True, sk_conn := None\<rparr>) pool ?s)"
    using disconnect_cut [OF k c, of e] addr r by (simp add: recovered_def)
  then show ?thesis using c(3) by (rule that [rotated])
qed

lemma disconnect_server_effect:
  assumes inv: "ss_inv e s" and k: "ss_heap s p = Some k" and v: "isValidStatus (sk_status k)"
    and srv: "sock_Type k = SocketTypeServer"
  shows "\<exists>c t. sk_conn k = Some c \<and> disconnect e p s = (Ok True, t)
    \<and> sk_status (sock p t) = SocketStatusReleased \<and> sk_stop (sock p t) = Some True
    \<and> items (sk_cwrite (sock p t)) = [] \<and> sk_data (sock p t) = None
    \<and> ss_closed t = ss_closed s @ [c]
    \<and> ss_calls t = ss_calls s @ map (\<lambda>f. \<lparr>c_fun = f, c_sock = Some p, c_arg = ANil\<rparr>)
        (ss_emitter s EventTypeDisconnect)
    \<and> sockets_Get (sk_id k) t = None \<and> ss_count t = ss_count s - 1 \<and> ss_tasks t = ss_tasks s
    \<and> disconnect e p t = (Ok False, t)"
proof -
  obtain c pool where c: "sk_conn k = Some c" and d: "disconnect e p s = (Ok True,
      released p (k\<lparr>sk_status := SocketStatusDisconnected, sk_stop := Some True, sk_conn := None\<rparr>) pool
        (cut p c k SocketStatusDisconnected s))" (is "_ = (_, ?t)")
    by (rule disconnect_server_state [OF assms])
  have "disconnect e p ?t = (Ok False, ?t)"
    by (rule disconnect_invalid) (simp add: sock_def released_def isValidStatus_def)
  with c d show ?thesis by (simp add: sock_def released_def sockets_Get_def)
qed

text \<open>
  C21. Losing a server connection: the stop channel and the connection are closed, every listener of
  the disconnect event is called once with the socket, the queued messages go back to the pool,
  the socket is released and out of the table, the counter drops by one, the call reports true,
  and a further disconnect changes nothing.
\<close>

theorem disconnect_server_releases:
  assumes inv: "ss_inv e s" and k: "ss_heap s p = Some k" and v: "isValidStatus (sk_status k)"
    and srv: "sock_Type k = SocketTypeServer"
  shows "\<exists>c t. sk_conn k = Some c \<and> disconnect e p s = (Ok True, t)
    \<and> sk_status (sock p t) = SocketStatusReleased \<and> sk_stop (sock p t) = Some True
    \<and> items (sk_cwrite (sock p t)) = [] \<and> sk_data (sock p t) = None
    \<and> ss_closed t = ss_closed s @ [c]
    \<and> ss_calls t = ss_calls s @ map (\<lambda>f. \<lparr>c_fun = f, c_sock = Some p, c_arg = ANil\<rparr>)
        (ss_emitter s EventTypeDisconnect)
    \<and> sockets_Get (sk_id k) t = None \<and> ss_count t = ss_count s - 1 \<and> ss_tasks t = ss_tasks s
    \<and> disconnect e p t = (Ok False, t)"
  using assms by (rule disconnect_server_effect)

lemma sample_manager_inv: "ss_inv sample_env sample_manager"
  by (rule ss.run_keeps [OF sample_manager_run ss_inv_New]) simp

theorem disconnect_server_releases_witness:
  "\<exists>c t. disconnect sample_env 0 sample_manager = (Ok True, t) \<and> sockets_Get 1 t = None
    \<and> ss_closed t = ss_closed sample_manager @ [c]"
  using disconnect_server_releases [OF sample_manager_inv sample_manager_heap(1)]
  by (auto simp: isValidStatus_def sock_Type_def fresh_socket_def)

lemma live_in_table:
  "ss_inv e s \<Longrightarrow> ss_heap s p = Some k \<Longrightarrow> sk_status k \<noteq> SocketStatusReleased \<Longrightarrow>
   ss_sockets s (sk_id k) = Some p"
  by (simp add: ss_inv_def table_inv_def)

lemma connect_effect:
  assumes "ss_heap u p = Some k"
  shows "ss_heap (connect p c u) p = Some (k\<lparr>sk_conn := Some c, sk_stop := Some False,
      sk_status := SocketStatusConnected, sk_heartbeat := 0\<rparr>)"
    "ss_tasks (connect p c u) = ss_tasks u @ [TRead p, TWrite p]" "ss_count (connect p c u) = ss_count u"
    "ss_sockets (connect p c u) = ss_sockets u" "ss_closed (connect p c u) = ss_closed u"
    "ss_emitter (connect p c u) = ss_emitter u" "gl_opts (connect p c u) = gl_opts u"
  using assms by (simp_all add: connect_def go_start_def sock_Emit_def upd_def)

lemma released_effect:
  "ss_heap (released p k pool u) p = Some (k\<lparr>sk_status := SocketStatusReleased, sk_data := None,
      sk_cwrite := (sk_cwrite k)\<lparr>items := []\<rparr>\<rparr>)"
  "ss_tasks (released p k pool u) = ss_tasks u" "ss_count (released p k pool u) = ss_count u - 1"
  "ss_sockets (released p k pool u) = (ss_sockets u)(sk_id k := None)"
  by (simp_all add: released_def)

lemma go_start_keeps [simp]:
  "ss_heap (go_start ts s) = ss_heap s" "ss_count (go_start ts s) = ss_count s"
  "ss_sockets (go_start ts s) = ss_sockets s" "ss_pool (go_start ts s) = ss_pool s"
  "ss_tasks (go_start ts s) = ss_tasks s @ ts" "ss_closed (go_start ts s) = ss_closed s"
  "ss_emitter (go_start ts s) = ss_emitter s" "gl_opts (go_start ts s) = gl_opts s"
  by (simp_all add: go_start_def)

lemma disconnect_client_effect:
  assumes inv: "ss_inv e s" and k: "ss_heap s p = Some k" and v: "isValidStatus (sk_status k)"
    and cl: "sock_Type k = SocketTypeClient"
  shows "\<exists>t c. disconnect e p s = (Ok False, t) \<and> sk_conn k = Some c \<and> ss_closed t = ss_closed s @ [c]
    \<and> sk_status (sock p t) = SocketStatusReconnecting \<and> sockets_Get (sk_id k) t = Some p
    \<and> sk_conn (sock p t) = None \<and> ss_heap t p = Some (sock p t) \<and> sk_address (sock p t) = sk_address k
    \<and> sk_cwrite (sock p t) = sk_cwrite k \<and> sk_data (sock p t) = sk_data k
    \<and> ss_count t = ss_count s \<and> ss_tasks t = ss_tasks s @ [TReconnect p]
    \<and> (\<forall>c'. \<exists>u. reconnect_done e p (Some c') t = (Ok (), u) \<and> ss_closed u = ss_closed t
          \<and> ss_heap u p = Some (sock p u) \<and> sk_address (sock p u) = sk_address k
          \<and> sk_status (sock p u) = SocketStatusConnected \<and> sk_conn (sock p u) = Some c'
          \<and> sk_stop (sock p u) = Some False \<and> sk_cwrite (sock p u) = sk_cwrite k
          \<and> ss_tasks u = ss_tasks s @ [TRead p, TWrite p] \<and> ss_count u = ss_count s)
    \<and> (\<exists>u. reconnect_done e p None t = (Ok (), u)
          \<and> sk_status (sock p u) = SocketStatusReleased \<and> sockets_Get (sk_id k) u = None
          \<and> ss_count u = ss_count s - 1 \<and> ss_tasks u = ss_tasks s)"
proof -
  note ok = ss_inv_facts(3) [OF inv k]
  obtain c where c: "sk_status k \<in> {SocketStatusConnected, SocketStatusClosing}"
    "sk_stop k = Some False" "sk_conn k = Some c"
    using isValid_ok [OF ok v] by blast
  have addr: "sk_address k \<noteq> []" using cl by (simp add: sock_Type_def split: if_splits)
  let ?t = "go_start [TReconnect p] (cut p c k SocketStatusReconnecting s)"
  let ?k = "k\<lparr>sk_status := SocketStatusReconnecting, sk_stop := Some True, sk_conn := None\<rparr>"
  have d: "disconnect e p s = (Ok False, ?t)" using disconnect_cut [OF k c, of e] addr by simp
  have "\<not> reconnecting s p" using c k by (auto simp: reconnecting_def)
  then have "TReconnect p \<notin> set (ss_tasks s)"
    using ss_inv_facts(4) [OF inv, of p] by (simp add: count_list_0_iff)
  then have rm: "remove1 (TReconnect p) (ss_tasks s @ [TReconnect p]) = ss_tasks s"
    by (simp add: remove1_append)
  have tbl: "ss_sockets s (sk_id k) = Some p"
    by (rule live_in_table [OF inv k]) (use c in auto)
  define u where "u = ?t\<lparr>ss_tasks := remove1 (TReconnect p) (ss_tasks ?t)\<rparr>"
  have u: "ss_heap u p = Some ?k" "ss_tasks u = ss_tasks s" "ss_count u = ss_count s"
    "clean_pool e (ss_pool u)" "ss_sockets u = ss_sockets s" "ss_closed u = ss_closed ?t"
    using ss_inv_facts(2) [OF inv] rm by (simp_all add: u_def)
  obtain pool where "release e p u = (Ok (), released p ?k pool u)"
    using release_ok [OF u(1) ss_inv_facts(1) [OF inv] u(4)] by blast
  then have gone: "reconnect_done e p None ?t = (Ok (), released p ?k pool u)"
    by (simp add: reconnect_done_def u_def)
  have again: "reconnect_done e p (Some c') ?t = (Ok (), connect p c' u)" for c'
    by (simp add: reconnect_done_def u_def)
  have t: "ss_heap ?t p = Some ?k" "ss_sockets ?t = ss_sockets s" "ss_count ?t = ss_count s"
    "ss_tasks ?t = ss_tasks s @ [TReconnect p]" by simp_all
  have conn: "\<exists>v. reconnect_done e p (Some c') ?t = (Ok (), v) \<and> ss_closed v = ss_closed ?t
      \<and> ss_heap v p = Some (sock p v) \<and> sk_address (sock p v) = sk_address k
      \<and> sk_status (sock p v) = SocketStatusConnected \<and> sk_conn (sock p v) = Some c'
      \<and> sk_stop (sock p v) = Some False \<and> sk_cwrite (sock p v) = sk_cwrite k
      \<and> ss_tasks v = ss_tasks s @ [TRead p, TWrite p] \<and> ss_count v = ss_count s" for c'
    using again [of c'] connect_effect(1) [OF u(1), of c'] connect_effect(2,3,5) [OF u(1), of c'] u(2,3,6) by simp
  have rel: "\<exists>v. reconnect_done e p None ?t = (Ok (), v)
      \<and> sk_status (sock p v) = SocketStatusReleased \<and> sockets_Get (sk_id k) v = None
      \<and> ss_count v = ss_count s - 1 \<and> ss_tasks v = ss_tasks s"
    using gone released_effect [of p ?k pool u] u by (simp add: sockets_Get_def)
  show ?thesis
    by (intro exI [of _ ?t] exI [of _ c]) (use c(3) d t conn rel tbl in \<open>simp add: sockets_Get_def\<close>)
qed

lemma disconnect_clientE:
  assumes "ss_inv e s" "ss_heap s p = Some k" "isValidStatus (sk_status k)"
    "sock_Type k = SocketTypeClient"
  obtains t c where "disconnect e p s = (Ok False, t)" "sk_conn k = Some c" "ss_closed t = ss_closed s @ [c]"
    "ss_heap t p = Some (sock p t)" "sk_status (sock p t) = SocketStatusReconnecting"
    "sk_conn (sock p t) = None" "sk_address (sock p t) = sk_address k"
    "ss_tasks t = ss_tasks s @ [TReconnect p]" "ss_inv e t"
  using disconnect_client_effect [OF assms] disconnect_keeps [OF assms(1,2)] that by blast

lemma reconnectE:
  assumes "ss_inv e t" "ss_heap t p = Some k" "TReconnect p \<in> set (ss_tasks t)"
  obtains u where "reconnect_done e p (Some c') t = (Ok (), u)" "ss_closed u = ss_closed t"
    "ss_heap u p = Some (k\<lparr>sk_conn := Some c', sk_stop := Some False,
      sk_status := SocketStatusConnected, sk_heartbeat := 0\<rparr>)" "ss_inv e u"
proof -
  define t' where "t' = t\<lparr>ss_tasks := remove1 (TReconnect p) (ss_tasks t)\<rparr>"
  have r: "reconnect_done e p (Some c') t = (Ok (), connect p c' t')"
    by (simp add: reconnect_done_def t'_def)
  have "ss_heap t' p = Some k" "ss_closed t' = ss_closed t" using assms(2) by (simp_all add: t'_def)
  then show ?thesis
    using that [OF r] connect_effect(1,5) [of t' p k c'] reconnect_done_keeps [OF assms(1,3) r] by simp
qed

text \<open>
  C22. Losing a client connection: the socket stays in the table with its queue and its data, one
  reconnection is started, and then either the new connection takes its place and both loops are
  started on it with the queue as it was, or, when the search for a server is given up, the
  socket is released and leaves the table.
\<close>

theorem disconnect_client_reconnects:
  assumes inv: "ss_inv e s" and k: "ss_heap s p = Some k" and v: "isValidStatus (sk_status k)"
    and cl: "sock_Type k = SocketTypeClient"
  shows "\<exists>t. disconnect e p s = (Ok False, t)
    \<and> sk_status (sock p t) = SocketStatusReconnecting \<and> sockets_Get (sk_id k) t = Some p
    \<and> sk_cwrite (sock p t) = sk_cwrite k \<and> sk_data (sock p t) = sk_data k
    \<and> ss_count t = ss_count s \<and> ss_tasks t = ss_tasks s @ [TReconnect p]
    \<and> (\<forall>c'. \<exists>u. reconnect_done e p (Some c') t = (Ok (), u)
          \<and> sk_status (sock p u) = SocketStatusConnected \<and> sk_conn (sock p u) = Some c'
          \<and> sk_stop (sock p u) = Some False \<and> sk_cwrite (sock p u) = sk_cwrite k
          \<and> ss_tasks u = ss_tasks s @ [TRead p, TWrite p] \<and> ss_count u = ss_count s)
    \<and> (\<exists>u. reconnect_done e p None t = (Ok (), u)
          \<and> sk_status (sock p u) = SocketStatusReleased \<and> sockets_Get (sk_id k) u = None
          \<and> ss_count u = ss_count s - 1 \<and> ss_tasks u = ss_tasks s)"
  using disconnect_client_effect [OF assms] by blast

definition sample_client :: sockets where
  "sample_client = snd (Connect False (str ''h:1'') (Inr 5) (sockets_New (Config_default\<lparr>WriteChanSize := 2\<rparr>)))"

lemma sample_client_eq:
  "sample_client = upd 0 (\<lambda>k. k\<lparr>sk_address := str ''h:1''\<rparr>) sample_manager"
proof -
  have "Create False 5 (sockets_New (Config_default\<lparr>WriteChanSize := 2\<rparr>)) = (Ok 0, sample_manager)"
    unfolding sample_manager_eq
    by (subst Create_ok) (simp_all add: sockets_New_def Config_default_def)
  then show ?thesis by (simp add: sample_client_def Connect_def)
qed

lemma sample_client_heap:
  "ss_heap sample_client 0 = Some (fresh_socket 1 2\<lparr>sk_conn := Some 5, sk_stop := Some False,
     sk_status := SocketStatusConnected, sk_heartbeat := 0, sk_address := str ''h:1''\<rparr>)"
  "gl_opts sample_client = Config_default\<lparr>WriteChanSize := 2\<rparr>"
  "ss_tasks sample_client = [TRead 0, TWrite 0]"
  by (simp_all add: sample_client_eq upd_def sample_manager_heap)
    (simp add: sample_manager_eq created_def sockets_New_def go_start_def sock_Emit_def Let_def)

lemma sample_client_inv: "ss_inv sample_env sample_client"
  unfolding sample_client_def
  by (rule Connect_keeps [OF ss_inv_New [of sample_env "Config_default\<lparr>WriteChanSize := 2\<rparr>"], OF _ _ surjective_pairing])
    (simp_all add: sockets_New_def)

theorem disconnect_client_reconnects_witness:
  "\<exists>t. disconnect sample_env 0 sample_client = (Ok False, t)
    \<and> sk_status (sock 0 t) = SocketStatusReconnecting \<and> ss_tasks t = [TRead 0, TWrite 0, TReconnect 0]"
  using disconnect_client_reconnects [OF sample_client_inv sample_client_heap(1)]
  by (auto simp: isValidStatus_def sock_Type_def sample_client_heap(3))

section \<open>Sending\<close>

lemma sock_Write_cases:
  assumes inv: "ss_inv e s" and k: "ss_heap s p = Some k"
  shows "sock_Write pick p m safe s =
    (if sk_status k \<noteq> SocketStatusConnected then (Err (ErrNew ''socket not ready''), s)
     else if length (items (sk_cwrite k)) < ccap (sk_cwrite k)
     then (Ok (), upd p (\<lambda>k. k\<lparr>sk_cwrite := (sk_cwrite k)\<lparr>items := items (sk_cwrite k) @ [m]\<rparr>\<rparr>) s)
     else if safe \<noteq> [] \<and> \<not> hd safe then (Err (ErrNew ''socket write channel full''), s)
     else (Blocked, s))"
proof (cases "sk_status k = SocketStatusConnected")
  case True
  then have "sk_stop k = Some False" "\<not> closed (sk_cwrite k)"
    using ss_inv_facts(3) [OF inv k] by (simp_all add: sock_ok_def)
  moreover have "upd p (\<lambda>x. x\<lparr>sk_cwrite := sk_cwrite k\<rparr>) s = s"
    using k by (simp add: upd_def fun_upd_idem)
  ultimately show ?thesis
    using True k by (simp add: sock_Write_def IsReady_def Write_select_def Let_def upd_def)
next
  case False
  then show ?thesis using k by (simp add: sock_Write_def IsReady_def)
qed

text \<open>
  \<open>Write\<close> in full: a socket that is not connected refuses and stays as it is; a connected one
  with room takes the message at the end of its queue; with a full queue the caller waits, or
  gets an error in the unsafe mode, and nothing changes either way.
\<close>

theorem sock_Write_spec:
  assumes inv: "ss_inv e s" and k: "ss_heap s p = Some k"
  shows "sock_Write pick p m safe s =
    (if sk_status k \<noteq> SocketStatusConnected then (Err (ErrNew ''socket not ready''), s)
     else if length (items (sk_cwrite k)) < ccap (sk_cwrite k)
     then (Ok (), upd p (\<lambda>k. k\<lparr>sk_cwrite := (sk_cwrite k)\<lparr>items := items (sk_cwrite k) @ [m]\<rparr>\<rparr>) s)
     else if safe \<noteq> [] \<and> \<not> hd safe then (Err (ErrNew ''socket write channel full''), s)
     else (Blocked, s))"
  using assms by (rule sock_Write_cases)

theorem sock_Write_spec_witness:
  "sock_Write True 0 new_message [] sample_manager = (Ok (), upd 0 (\<lambda>k. k\<lparr>sk_cwrite :=
      (sk_cwrite k)\<lparr>items := items (sk_cwrite k) @ [new_message]\<rparr>\<rparr>) sample_manager)"
  using sock_Write_spec [OF sample_manager_inv sample_manager_heap(1), of True new_message "[]"]
  by (simp add: fresh_socket_def make_chan_def)

lemma Marshal_result:
  assumes "room_ok e m"
  shows "fst (Marshal e mag fl ix a v m) \<notin> {Panic, Blocked}"
proof (cases "Magics e mag")
  case None
  then show ?thesis by (simp add: Marshal_def format_def magics_Get_def Let_def)
next
  case (Some mg)
  show ?thesis
    using Marshal_layout [OF Some assms, where a = a and v = v and fl = fl and ix = ix]
    by (auto split: sum.splits)
qed

lemma give_back_effect:
  assumes "0 \<le> Capacity (opts e)"
  shows "\<exists>t. give_back e m er s = (Err er, t) \<and> ss_heap t = ss_heap s
    \<and> (Pool (opts e) \<longrightarrow> length (ss_pool t) = Suc (length (ss_pool s)))"
proof -
  obtain m' where "message_Release e m = (Ok (), m')" using message_Release_ok [OF assms] by blast
  then show ?thesis by (simp add: give_back_def Release_def)
qed

text \<open>
  C26. Sending loses no message object: it never panics; on success the socket was connected and the
  marshalled message is the last of its queue; on any error the sockets are as they were and the
  object is back in the pool; it waits only in the safe mode, on a connected socket whose queue is
  full.
\<close>

theorem SendWithMagic_delivers_or_returns:
  assumes inv: "ss_inv e s" and k: "ss_heap s p = Some k" and cap: "4 \<le> Capacity (opts e)"
  shows "case SendWithMagic e pk pick p mag fl ix a v safe s of
      (Ok _, t) \<Rightarrow> IsReady k \<and> ss_pool t = snd (Require e pk (ss_pool s))
        \<and> (\<exists>m1. Marshal e mag fl ix a v (fst (Require e pk (ss_pool s))) = (Ok (), m1)
              \<and> items (sk_cwrite (sock p t)) = items (sk_cwrite k) @ [m1])
    | (Err er, t) \<Rightarrow> ss_heap t = ss_heap s
        \<and> (Pool (opts e) \<longrightarrow> length (ss_pool t) = Suc (length (snd (Require e pk (ss_pool s)))))
    | (Blocked, t) \<Rightarrow> IsReady k \<and> ccap (sk_cwrite k) \<le> length (items (sk_cwrite k))
        \<and> (safe = [] \<or> hd safe)
    | (Panic, t) \<Rightarrow> False"
proof -
  obtain m pool where rq: "Require e pk (ss_pool s) = (m, pool)" by fastforce
  have "clean e m" using Require_clean [OF ss_inv_facts(2) [OF inv] rq] by blast
  from Marshal_result [OF clean_room [OF this cap]] obtain y m1
    where mm: "Marshal e mag fl ix a v m = (y, m1)" and y: "y \<notin> {Panic, Blocked}"
    by (metis prod.collapse)
  let ?s = "s\<lparr>ss_pool := pool\<rparr>"
  have u: "ss_inv e ?s"
    using Require_clean [OF ss_inv_facts(2) [OF inv] rq] inv by (simp add: ss_inv_pool)
  have ku: "ss_heap ?s p = Some k" using k by simp
  have c0: "0 \<le> Capacity (opts e)" using cap by simp
  obtain g where g: "\<And>er. give_back e m1 er ?s = (Err er, g er)"
      "\<And>er. ss_heap (g er) = ss_heap s"
      "\<And>er. Pool (opts e) \<longrightarrow> length (ss_pool (g er)) = Suc (length pool)"
    using give_back_effect [OF c0, of m1 _ ?s] by simp metis
  show ?thesis
  proof (cases y)
    case (Err er)
    then show ?thesis using g by (simp add: SendWithMagic_def rq mm)
  next
    case (Ok a)
    show ?thesis
      using sock_Write_cases [OF u ku, of pick m1 safe] g Ok k
      by (auto simp: SendWithMagic_def rq mm IsReady_def upd_def sock_def split: if_splits)
  qed (use y in auto)
qed

theorem SendWithMagic_delivers_or_returns_witness:
  "\<exists>t. SendWithMagic sample_env None True 0 MagicNumberCodeJson 0 3 (PathString (str ''nowhere'')) (VBytes [])
      [] sample_manager = (Err (ErrWrap ''socket send marshal error'' (ErrLib 4)), t)
    \<and> ss_heap t = ss_heap sample_manager \<and> length (ss_pool t) = 1"
proof -
  have "layout sample_env \<lparr>Key = MagicNumberCodeJson, Type = MagicTypeCode, Binder = Some sample_codec,
      Binary = BigEndian\<rparr> (PathString (str ''nowhere'')) (VBytes []) = Inl (ErrLib 4)"
    by (simp add: layout_def layout_prefix_def)
  then have "fst (Marshal sample_env MagicNumberCodeJson 0 3 (PathString (str ''nowhere'')) (VBytes []) new_message)
      = Err (ErrLib 4)"
    using Marshal_layout [where e = sample_env and mag = MagicNumberCodeJson and m = new_message
        and a = "PathString (str ''nowhere'')" and v = "VBytes []" and fl = 0 and ix = 3] by simp
  then obtain m1 where m1: "Marshal sample_env MagicNumberCodeJson 0 3 (PathString (str ''nowhere''))
      (VBytes []) new_message = (Err (ErrLib 4), m1)" by (metis prod.collapse)
  obtain t where "SendWithMagic sample_env None True 0 MagicNumberCodeJson 0 3 (PathString (str ''nowhere''))
      (VBytes []) [] sample_manager = (Err (ErrWrap ''socket send marshal error'' (ErrLib 4)), t)"
    using give_back_effect [of sample_env m1 "ErrWrap ''socket send marshal error'' (ErrLib 4)"
        "sample_manager\<lparr>ss_pool := []\<rparr>"] sample_manager_heap(4) m1
    by (auto simp: SendWithMagic_def Require_def)
  then show ?thesis
    using SendWithMagic_delivers_or_returns [OF sample_manager_inv sample_manager_heap(1), where pk = None
        and pick = True and mag = MagicNumberCodeJson and fl = 0 and ix = 3 and safe = "[]"
        and a = "PathString (str ''nowhere'')" and v = "VBytes []"] sample_manager_heap(4)
    by (simp add: Require_def)
qed

section \<open>Closing and heartbeats\<close>

text \<open>Beats of the heart of one socket.\<close>

fun beats :: "env \<Rightarrow> nat \<Rightarrow> i32 list \<Rightarrow> sockets \<Rightarrow> (unit, sockets) run" where
  "beats e p [] s = (Ok (), s)"
| "beats e p (v # vs) s = and_then (sock_Heartbeat e v p s) (\<lambda>_ s. beats e p vs s)"

lemma Heartbeat_under:
  assumes k: "ss_heap s p = Some k" and v: "isValidStatus (sk_status k)"
    and under: "\<not> (sint (SocketConnectTime (gl_opts s)) > 0
        \<and> sint (sk_heartbeat k + v) > sint (SocketConnectTime (gl_opts s)))"
  shows "sock_Heartbeat e v p s = (Ok (sk_heartbeat k + v),
    sock_Emit EventTypeHeartbeat [AInt v] p (upd p (\<lambda>k. k\<lparr>sk_heartbeat := sk_heartbeat k + v\<rparr>) s))"
proof -
  have u: "gl_opts (upd p f s) = gl_opts s" for f by (simp add: upd_def)
  have h: "sock p (upd p (\<lambda>k. k\<lparr>sk_heartbeat := sk_heartbeat k + v\<rparr>) s) = k\<lparr>sk_heartbeat := sk_heartbeat k + v\<rparr>"
    using k by (simp add: upd_def sock_def)
  have m: "sock p (sock_Emit ev a q t) = sock p t" for ev a q t by (simp add: sock_def)
  show ?thesis
    using under v k by (auto simp: sock_Heartbeat_def u h m Let_def)
qed

lemma Heartbeat_over:
  assumes inv: "ss_inv e s" and k: "ss_heap s p = Some k" and v: "isValidStatus (sk_status k)"
    and over: "sint (SocketConnectTime (gl_opts s)) > 0"
      "sint (sk_heartbeat k + v) > sint (SocketConnectTime (gl_opts s))"
  shows "sock_Heartbeat e v p s = and_then
    (disconnect e p (upd p (\<lambda>k. k\<lparr>sk_heartbeat := sk_heartbeat k + v\<rparr>) s))
    (\<lambda>_ s. (Ok (sk_heartbeat (sock p s)), s))"
proof -
  have u: "gl_opts (upd p f s) = gl_opts s" for f by (simp add: upd_def)
  have h: "sock p (upd p (\<lambda>k. k\<lparr>sk_heartbeat := sk_heartbeat k + v\<rparr>) s) = k\<lparr>sk_heartbeat := sk_heartbeat k + v\<rparr>"
    using k by (simp add: upd_def sock_def)
  show ?thesis
    using over v k by (simp add: sock_Heartbeat_def u h Let_def)
qed

lemma sint_plus:
  fixes a b :: i32
  assumes "- (2 ^ 31) \<le> sint a + sint b" "sint a + sint b < 2 ^ 31"
  shows "sint (a + b) = sint a + sint b"
  using assms by (simp add: sint_word_ariths signed_take_bit_int_eq_self)

lemma sint_minus:
  fixes a b :: i32
  assumes "- (2 ^ 31) \<le> sint a - sint b" "sint a - sint b < 2 ^ 31"
  shows "sint (a - b) = sint a - sint b"
  using assms by (simp add: sint_word_ariths signed_take_bit_int_eq_self)

text \<open>The state after \<open>Close\<close> with a delay.\<close>

lemma Close_effect:
  assumes "ss_heap s p = Some k" "sk_status k = SocketStatusConnected"
  shows "ss_heap (Close p ds s) p = Some (k\<lparr>sk_status := SocketStatusClosing,
      sk_heartbeat := SocketConnectTime (gl_opts s) - (case ds of [] \<Rightarrow> 0 | d # _ \<Rightarrow> d)\<rparr>)"
    "gl_opts (Close p ds s) = gl_opts s" "ss_tasks (Close p ds s) = ss_tasks s"
  using assms by (auto simp: Close_def upd_def sock_def Let_def split: list.split)

text \<open>
  A server socket that is closed with a delay stops accepting messages at once, is not kept alive
  any more by what it receives, survives a beat no longer than the delay, and is disconnected and
  released by a longer one, as long as a connection timeout is configured and the sums stay
  within 32 bits.
\<close>

theorem Close_delays_disconnect:
  assumes inv: "ss_inv e s" and k: "ss_heap s p = Some k" "sk_status k = SocketStatusConnected"
    and srv: "sock_Type k = SocketTypeServer"
    and tm: "0 < sint (SocketConnectTime (gl_opts s))" "0 \<le> sint d" "0 \<le> sint v"
      "sint d \<le> sint (SocketConnectTime (gl_opts s))"
      "sint (SocketConnectTime (gl_opts s)) - sint d + sint v < 2 ^ 31"
  shows "\<not> IsReady (sock p (Close p [d] s))
    \<and> sk_heartbeat (sock p (KeepAlive p (Close p [d] s))) = sk_heartbeat (sock p (Close p [d] s))
    \<and> (\<exists>h t. sock_Heartbeat e v p (Close p [d] s) = (Ok h, t)
        \<and> sk_status (sock p t) = (if sint v \<le> sint d then SocketStatusClosing else SocketStatusReleased)
        \<and> sockets_Get (sk_id k) t = (if sint v \<le> sint d then Some p else None))"
proof -
  let ?s = "Close p [d] s" and ?T = "SocketConnectTime (gl_opts s)"
  let ?k = "k\<lparr>sk_status := SocketStatusClosing, sk_heartbeat := ?T - d\<rparr>"
  have ks: "ss_heap ?s p = Some ?k" "gl_opts ?s = gl_opts s" using Close_effect [OF k, of "[d]"] by simp_all
  have ic: "ss_inv e ?s" by (rule Close_keeps [OF inv k(1)])
  have "sint (?T - d) = sint ?T - sint d"
    using tm sint_lt [of ?T] by (intro sint_minus) simp_all
  then have h: "sint (?T - d + v) = sint ?T - sint d + sint v"
    using tm by (subst sint_plus) simp_all
  have valid: "isValidStatus (sk_status ?k)" by (simp add: isValidStatus_def)
  have beat: "\<exists>h t. sock_Heartbeat e v p ?s = (Ok h, t)
        \<and> sk_status (sock p t) = (if sint v \<le> sint d then SocketStatusClosing else SocketStatusReleased)
        \<and> sockets_Get (sk_id k) t = (if sint v \<le> sint d then Some p else None)"
  proof (cases "sint v \<le> sint d")
    case True
    have "ss_sockets ?s (sk_id k) = Some p" using live_in_table [OF ic ks(1)] by simp
    moreover have "sock_Heartbeat e v p ?s = (Ok (?T - d + v), sock_Emit EventTypeHeartbeat [AInt v] p
        (upd p (\<lambda>k. k\<lparr>sk_heartbeat := sk_heartbeat k + v\<rparr>) ?s))"
      using Heartbeat_under [OF ks(1) valid, of v e] True h ks(2) by simp
    ultimately show ?thesis
      using True ks(1) by (simp add: sock_def upd_def sock_Emit_def sockets_Get_def)
  next
    case False
    let ?u = "upd p (\<lambda>k. k\<lparr>sk_heartbeat := sk_heartbeat k + v\<rparr>) ?s"
    have "ss_inv e ?u" using ic by (auto intro!: upd_keeps)
    moreover have "ss_heap ?u p = Some (?k\<lparr>sk_heartbeat := ?T - d + v\<rparr>)" using ks(1) by (simp add: upd_def)
    ultimately obtain t where "disconnect e p ?u = (Ok True, t)" "sk_status (sock p t) = SocketStatusReleased"
      "sockets_Get (sk_id k) t = None"
      using disconnect_server_effect [of e ?u p "?k\<lparr>sk_heartbeat := ?T - d + v\<rparr>"] srv
      by (auto simp: isValidStatus_def sock_Type_def)
    then show ?thesis
      using Heartbeat_over [OF ic ks(1) valid, of v] False h ks(2) tm(1) by simp
  qed
  have "sk_heartbeat (sock p (KeepAlive p ?s)) = sk_heartbeat (sock p ?s)"
    using ks(1) by (auto simp: KeepAlive_def sock_def Let_def split: option.split)
  then show ?thesis using beat ks(1) by (simp add: IsReady_def)
qed

lemma sample_manager_opts: "gl_opts sample_manager = Config_default\<lparr>WriteChanSize := 2\<rparr>"
  by (simp add: sample_manager_eq created_def sockets_New_def go_start_def sock_Emit_def Let_def)

theorem Close_delays_disconnect_witness:
  "\<exists>h t. sock_Heartbeat sample_env 10 0 (Close 0 [5] sample_manager) = (Ok h, t)
    \<and> sk_status (sock 0 t) = SocketStatusReleased \<and> sockets_Get 1 t = None"
  using Close_delays_disconnect [OF sample_manager_inv sample_manager_heap(1), where d = 5 and v = 10]
  by (simp add: sample_manager_opts Config_default_def sock_Type_def fresh_socket_def)

lemma beats_no_timeout:
  assumes "sint (SocketConnectTime (gl_opts s)) \<le> 0"
  shows "ss_heap s p = Some k \<Longrightarrow> isValidStatus (sk_status k) \<Longrightarrow>
    \<exists>h t. beats e p vs s = (Ok (), t) \<and> ss_heap t p = Some (k\<lparr>sk_heartbeat := h\<rparr>)
      \<and> ss_sockets t = ss_sockets s"
  using assms
proof (induction vs arbitrary: s k)
  case (Cons v vs)
  let ?s = "sock_Emit EventTypeHeartbeat [AInt v] p (upd p (\<lambda>k. k\<lparr>sk_heartbeat := sk_heartbeat k + v\<rparr>) s)"
  have "sock_Heartbeat e v p s = (Ok (sk_heartbeat k + v), ?s)"
    using Cons.prems by (intro Heartbeat_under) auto
  moreover have "ss_heap ?s p = Some (k\<lparr>sk_heartbeat := sk_heartbeat k + v\<rparr>)"
    using Cons.prems(1) by (simp add: upd_def)
  moreover have "ss_sockets ?s = ss_sockets s" "gl_opts ?s = gl_opts s"
    by (simp_all add: upd_def sock_Emit_def)
  ultimately show ?case
    using Cons.IH [of ?s "k\<lparr>sk_heartbeat := sk_heartbeat k + v\<rparr>"] Cons.prems by simp
next
  case Nil
  then show ?case by (intro exI [of _ "sk_heartbeat k"] exI [of _ s]) simp
qed

text \<open>
  Without a connection timeout (\<open>SocketConnectTime\<close> zero or negative) a socket that is closed is
  never disconnected: whatever heartbeats follow, it stays in the closing state and in the table,
  neither usable nor gone.
\<close>

theorem Close_without_timeout_never_ends:
  assumes inv: "ss_inv e s" and k: "ss_heap s p = Some k" "sk_status k = SocketStatusConnected"
    and off: "sint (SocketConnectTime (gl_opts s)) \<le> 0"
  shows "\<exists>t. beats e p vs (Close p delay s) = (Ok (), t) \<and> sk_status (sock p t) = SocketStatusClosing
    \<and> sockets_Get (sk_id k) t = Some p \<and> sk_conn (sock p t) = sk_conn k"
proof -
  have kc: "ss_heap (Close p delay s) p = Some (k\<lparr>sk_status := SocketStatusClosing,
      sk_heartbeat := SocketConnectTime (gl_opts s) - (case delay of [] \<Rightarrow> 0 | d # _ \<Rightarrow> d)\<rparr>)"
    "gl_opts (Close p delay s) = gl_opts s"
    using Close_effect [OF k] by simp_all
  have ic: "ss_inv e (Close p delay s)" by (rule Close_keeps [OF inv k(1)])
  have "ss_sockets (Close p delay s) (sk_id k) = Some p" using live_in_table [OF ic kc(1)] by simp
  then show ?thesis
    using beats_no_timeout [OF _ kc(1), where e = e and vs = vs] off kc(2)
    by (auto simp: isValidStatus_def sockets_Get_def)
qed

lemma sample_no_timeout_inv: "ss_inv sample_env (sample_manager\<lparr>gl_opts := Config_default\<lparr>SocketConnectTime := 0\<rparr>\<rparr>)"
  using sample_manager_inv by simp

theorem Close_without_timeout_never_ends_witness:
  "\<exists>t. beats sample_env 0 [10, 1000] (Close 0 []
        (sample_manager\<lparr>gl_opts := Config_default\<lparr>SocketConnectTime := 0\<rparr>\<rparr>)) = (Ok (), t)
    \<and> sk_status (sock 0 t) = SocketStatusClosing"
  using Close_without_timeout_never_ends [OF sample_no_timeout_inv, where p = 0 and vs = "[10, 1000]" and delay = "[]"]
    sample_manager_heap(1) by auto

text \<open>
  A client socket that the application closes comes back: the heartbeat that ends it starts a
  reconnection, and when the server answers the socket is connected again, although \<open>Close\<close> is
  documented as closing without reconnecting.
\<close>

theorem Close_of_client_reconnects:
  assumes inv: "ss_inv e s" and k: "ss_heap s p = Some k" "sk_status k = SocketStatusConnected"
    and cl: "sock_Type k = SocketTypeClient"
    and tm: "0 < sint (SocketConnectTime (gl_opts s))" "0 < sint v"
      "sint (SocketConnectTime (gl_opts s)) + sint v < 2 ^ 31"
  shows "\<exists>h t u. sock_Heartbeat e v p (Close p [] s) = (Ok h, t)
    \<and> TReconnect p \<in> set (ss_tasks t) \<and> sk_status (sock p t) = SocketStatusReconnecting
    \<and> reconnect_done e p (Some c') t = (Ok (), u) \<and> sk_status (sock p u) = SocketStatusConnected
    \<and> sk_conn (sock p u) = Some c'"
proof -
  let ?s = "Close p [] s" and ?T = "SocketConnectTime (gl_opts s)"
  let ?k = "k\<lparr>sk_status := SocketStatusClosing, sk_heartbeat := ?T\<rparr>"
  let ?u = "upd p (\<lambda>k. k\<lparr>sk_heartbeat := sk_heartbeat k + v\<rparr>) ?s"
  have ks: "ss_heap ?s p = Some ?k" "gl_opts ?s = gl_opts s" using Close_effect [OF k, of "[]"] by simp_all
  have ic: "ss_inv e ?s" by (rule Close_keeps [OF inv k(1)])
  have h: "sint (?T + v) = sint ?T + sint v" using tm by (intro sint_plus) simp_all
  let ?h = "?k\<lparr>sk_heartbeat := ?T + v\<rparr>"
  have u: "ss_inv e ?u" using ic by (auto intro!: upd_keeps)
  have hu: "ss_heap ?u p = Some ?h" using ks(1) by (simp add: upd_def)
  have clu: "sock_Type ?h = SocketTypeClient" using cl by (simp add: sock_Type_def)
  have vu: "isValidStatus (sk_status ?h)" by (simp add: isValidStatus_def)
  obtain t c where T: "disconnect e p ?u = (Ok False, t)" "sk_conn ?h = Some c" "ss_closed t = ss_closed ?u @ [c]"
    "ss_heap t p = Some (sock p t)" "sk_status (sock p t) = SocketStatusReconnecting"
    "sk_conn (sock p t) = None" "sk_address (sock p t) = sk_address ?h"
    "ss_tasks t = ss_tasks ?u @ [TReconnect p]" "ss_inv e t"
    by (rule disconnect_clientE [OF u hu vu clu])
  have t: "disconnect e p ?u = (Ok False, t)" "ss_heap t p = Some (sock p t)"
    "sk_status (sock p t) = SocketStatusReconnecting" "TReconnect p \<in> set (ss_tasks t)" "ss_inv e t"
    using T by (simp_all del: sock_Some)
  obtain u where u: "reconnect_done e p (Some c') t = (Ok (), u)" "ss_heap u p = Some ((sock p t)
      \<lparr>sk_conn := Some c', sk_stop := Some False, sk_status := SocketStatusConnected, sk_heartbeat := 0\<rparr>)"
    using reconnectE [OF t(5,2,4)] by metis
  have "sock_Heartbeat e v p ?s = (Ok (sk_heartbeat (sock p t)), t)"
    using Heartbeat_over [OF ic ks(1), of v] t(1) h ks(2) tm by (simp add: isValidStatus_def)
  then show ?thesis using t(1,3,4) u(1) sock_Some [OF u(2)] by simp
qed

theorem Close_of_client_reconnects_witness:
  "\<exists>h t u. sock_Heartbeat sample_env 10 0 (Close 0 [] sample_client) = (Ok h, t)
    \<and> TReconnect 0 \<in> set (ss_tasks t) \<and> sk_status (sock 0 t) = SocketStatusReconnecting
    \<and> reconnect_done sample_env 0 (Some 9) t = (Ok (), u) \<and> sk_status (sock 0 u) = SocketStatusConnected
    \<and> sk_conn (sock 0 u) = Some 9"
  using Close_of_client_reconnects [OF sample_client_inv sample_client_heap(1), where v = 10 and c' = 9]
  by (simp add: sample_client_heap(2) Config_default_def sock_Type_def)

text \<open>
  The read loop of a lost connection can cut the next one: when a client has reconnected before
  its old read loop returns from the connection that is gone, the end of that loop closes the new
  connection, and the socket reconnects once more.
\<close>

theorem stale_reader_cuts_new_connection:
  assumes inv: "ss_inv e s" and k: "ss_heap s p = Some k" "sk_conn k = Some c"
    and v: "isValidStatus (sk_status k)" and cl: "sock_Type k = SocketTypeClient"
  shows "\<exists>t u w. disconnect e p s = (Ok False, t) \<and> reconnect_done e p (Some c') t = (Ok (), u)
    \<and> sk_status (sock p u) = SocketStatusConnected \<and> sk_conn (sock p u) = Some c'
    \<and> readMsg_end e ErrNetClosed p u = (Ok False, w)
    \<and> sk_status (sock p w) = SocketStatusReconnecting \<and> sk_conn (sock p w) = None
    \<and> ss_closed w = ss_closed s @ [c, c']"
proof -
  obtain t c0 where T: "disconnect e p s = (Ok False, t)" "sk_conn k = Some c0" "ss_closed t = ss_closed s @ [c0]"
    "ss_heap t p = Some (sock p t)" "sk_status (sock p t) = SocketStatusReconnecting"
    "sk_conn (sock p t) = None" "sk_address (sock p t) = sk_address k"
    "ss_tasks t = ss_tasks s @ [TReconnect p]" "ss_inv e t"
    by (rule disconnect_clientE [OF inv k(1) v cl])
  have t: "disconnect e p s = (Ok False, t)" "ss_closed t = ss_closed s @ [c]"
      "ss_heap t p = Some (sock p t)" "sk_address (sock p t) = sk_address k"
      "TReconnect p \<in> set (ss_tasks t)" "ss_inv e t"
    using T k(2) by (simp_all del: sock_Some)
  obtain u where u: "reconnect_done e p (Some c') t = (Ok (), u)" "ss_closed u = ss_closed t"
      "ss_heap u p = Some ((sock p t)\<lparr>sk_conn := Some c', sk_stop := Some False,
         sk_status := SocketStatusConnected, sk_heartbeat := 0\<rparr>)" "ss_inv e u"
    by (rule reconnectE [OF t(6,3,5)])
  have cl': "sock_Type ((sock p t)\<lparr>sk_conn := Some c', sk_stop := Some False,
      sk_status := SocketStatusConnected, sk_heartbeat := 0\<rparr>) = SocketTypeClient"
    using cl t(4) by (simp add: sock_Type_def)
  let ?k = "(sock p t)\<lparr>sk_conn := Some c', sk_stop := Some False,
      sk_status := SocketStatusConnected, sk_heartbeat := 0\<rparr>"
  have vu: "isValidStatus (sk_status ?k)" by (simp add: isValidStatus_def)
  obtain w c1 where W: "disconnect e p u = (Ok False, w)" "sk_conn ?k = Some c1" "ss_closed w = ss_closed u @ [c1]"
    "ss_heap w p = Some (sock p w)" "sk_status (sock p w) = SocketStatusReconnecting"
    "sk_conn (sock p w) = None" "sk_address (sock p w) = sk_address ?k"
    "ss_tasks w = ss_tasks u @ [TReconnect p]" "ss_inv e w"
    by (rule disconnect_clientE [OF u(4,3) vu cl'])
  have w: "disconnect e p u = (Ok False, w)" "ss_closed w = ss_closed u @ [c']"
      "sk_status (sock p w) = SocketStatusReconnecting" "sk_conn (sock p w) = None"
    using W by (simp_all del: sock_Some)
  have "readMsg_end e ErrNetClosed p u = (Ok False, end_task (TRead p) w)"
    using w(1) by (simp add: readMsg_end_def)
  moreover have "sock p (end_task (TRead p) w) = sock p w" "ss_closed (end_task (TRead p) w) = ss_closed w"
    by (simp_all add: end_task_def sock_def)
  ultimately show ?thesis
    using t(1,2) u(1,2) w(2-4) sock_Some [OF u(3)]
    by (intro exI [of _ t] exI [of _ u] exI [of _ "end_task (TRead p) w"]) simp
qed

theorem stale_reader_cuts_new_connection_witness:
  "\<exists>t u w. disconnect sample_env 0 sample_client = (Ok False, t)
    \<and> reconnect_done sample_env 0 (Some 9) t = (Ok (), u)
    \<and> readMsg_end sample_env ErrNetClosed 0 u = (Ok False, w)
    \<and> ss_closed w = ss_closed sample_client @ [5, 9]"
  using stale_reader_cuts_new_connection [OF sample_client_inv sample_client_heap(1), where c = 5 and c' = 9]
  by (auto simp: isValidStatus_def sock_Type_def)

lemma beats_idle:
  assumes "0 \<le> sint v" "0 < sint (SocketConnectTime (gl_opts s))"
  shows "ss_heap s p = Some k \<Longrightarrow> sk_status k = SocketStatusConnected \<Longrightarrow> 0 \<le> sint (sk_heartbeat k) \<Longrightarrow>
    sint (sk_heartbeat k) + int n * sint v \<le> sint (SocketConnectTime (gl_opts s)) \<Longrightarrow> ss_inv e s \<Longrightarrow>
    \<exists>t h. beats e p (replicate n v) s = (Ok (), t) \<and> ss_heap t p = Some (k\<lparr>sk_heartbeat := h\<rparr>)
      \<and> sint h = sint (sk_heartbeat k) + int n * sint v \<and> gl_opts t = gl_opts s \<and> ss_inv e t"
  using assms
proof (induction n arbitrary: s k)
  case 0
  then show ?case by (intro exI [of _ s] exI [of _ "sk_heartbeat k"]) simp
next
  case (Suc n)
  let ?T = "SocketConnectTime (gl_opts s)"
  let ?s = "sock_Emit EventTypeHeartbeat [AInt v] p (upd p (\<lambda>k. k\<lparr>sk_heartbeat := sk_heartbeat k + v\<rparr>) s)"
  let ?k = "k\<lparr>sk_heartbeat := sk_heartbeat k + v\<rparr>"
  have le: "sint (sk_heartbeat k) + sint v \<le> sint ?T"
    using Suc.prems(4,6) by (simp add: algebra_simps) (smt (verit) mult_nonneg_nonneg of_nat_0_le_iff)
  then have h: "sint (sk_heartbeat k + v) = sint (sk_heartbeat k) + sint v"
    using Suc.prems(3,6) sint_lt [of ?T] by (intro sint_plus) simp_all
  have "sock_Heartbeat e v p s = (Ok (sk_heartbeat k + v), ?s)"
    using Suc.prems(1,2) le h by (intro Heartbeat_under) (auto simp: isValidStatus_def)
  moreover have "\<exists>t h. beats e p (replicate n v) ?s = (Ok (), t) \<and> ss_heap t p = Some (?k\<lparr>sk_heartbeat := h\<rparr>)
      \<and> sint h = sint (sk_heartbeat ?k) + int n * sint v \<and> gl_opts t = gl_opts ?s \<and> ss_inv e t"
  proof (rule Suc.IH)
    show "ss_heap ?s p = Some ?k" using Suc.prems(1) by (simp add: upd_def)
    show "sk_status ?k = SocketStatusConnected" using Suc.prems(2) by simp
    show "0 \<le> sint (sk_heartbeat ?k)" using h Suc.prems(3,6) by simp
    have g: "gl_opts ?s = gl_opts s" by (simp add: upd_def sock_Emit_def)
    have "sint (sk_heartbeat ?k) + int n * sint v \<le> sint ?T"
      using Suc.prems(4) h by (simp add: distrib_right)
    then show "sint (sk_heartbeat ?k) + int n * sint v \<le> sint (SocketConnectTime (gl_opts ?s))"
      by (simp only: g)
    show "ss_inv e ?s" using Suc.prems(5) by (auto intro!: ss_inv_sock_Emit upd_keeps)
    show "0 \<le> sint v" "0 < sint (SocketConnectTime (gl_opts ?s))" using Suc.prems(6,7) by (simp_all add: g)
  qed
  moreover have "gl_opts ?s = gl_opts s" by (simp add: upd_def sock_Emit_def)
  ultimately show ?case using h by (simp add: algebra_simps)
qed

text \<open>
  A server socket that receives nothing lives exactly as long as the timeout says: while the beats
  do not add up to more than \<open>SocketConnectTime\<close> it stays connected and counts them, and the beat
  that goes beyond releases it.
\<close>

theorem idle_socket_times_out:
  assumes inv: "ss_inv e s" and k: "ss_heap s p = Some k" "sk_status k = SocketStatusConnected"
    "sk_heartbeat k = 0" and srv: "sock_Type k = SocketTypeServer"
    and v: "0 < sint v" "sint (SocketConnectTime (gl_opts s)) + sint v < 2 ^ 31"
    and n: "int n * sint v \<le> sint (SocketConnectTime (gl_opts s))"
      "sint (SocketConnectTime (gl_opts s)) < int (Suc n) * sint v"
    and on: "0 < sint (SocketConnectTime (gl_opts s))"
  shows "\<exists>t h u x. beats e p (replicate n v) s = (Ok (), t) \<and> sk_status (sock p t) = SocketStatusConnected
    \<and> sint (sk_heartbeat (sock p t)) = int n * sint v
    \<and> sock_Heartbeat e v p t = (Ok x, u) \<and> sk_status (sock p u) = SocketStatusReleased
    \<and> sockets_Get (sk_id k) u = None"
proof -
  have "0 \<le> sint v" using v by simp
  from beats_idle [OF this on k(1,2) _ _ inv, of n] n(1) k(3) obtain t h
    where t: "beats e p (replicate n v) s = (Ok (), t)" "ss_heap t p = Some (k\<lparr>sk_heartbeat := h\<rparr>)"
      "sint h = int n * sint v" "gl_opts t = gl_opts s" "ss_inv e t" by auto
  have "0 \<le> int n * sint v" using v by (intro mult_nonneg_nonneg) simp_all
  then have h: "sint (h + v) = sint h + sint v"
    using t(3) n(1) v by (intro sint_plus) linarith+
  let ?k = "k\<lparr>sk_heartbeat := h\<rparr>"
  have valid: "isValidStatus (sk_status ?k)" using k(2) by (simp add: isValidStatus_def)
  let ?u = "upd p (\<lambda>k. k\<lparr>sk_heartbeat := sk_heartbeat k + v\<rparr>) t"
  have iu: "ss_inv e ?u" using t(5) by (auto intro!: upd_keeps)
  have ku: "ss_heap ?u p = Some (?k\<lparr>sk_heartbeat := h + v\<rparr>)" using t(2) by (simp add: upd_def)
  have vu: "isValidStatus (sk_status (?k\<lparr>sk_heartbeat := h + v\<rparr>))" using valid by simp
  have su: "sock_Type (?k\<lparr>sk_heartbeat := h + v\<rparr>) = SocketTypeServer" using srv by (simp add: sock_Type_def)
  obtain u where u: "disconnect e p ?u = (Ok True, u)" "sk_status (sock p u) = SocketStatusReleased"
    "sockets_Get (sk_id (?k\<lparr>sk_heartbeat := h + v\<rparr>)) u = None"
    using disconnect_server_effect [OF iu ku vu su] by blast
  have "sint (SocketConnectTime (gl_opts t)) < sint (h + v)"
    using n(2) t(3,4) h by (simp add: algebra_simps)
  then have "sock_Heartbeat e v p t = (Ok (sk_heartbeat (sock p u)), u)"
    using Heartbeat_over [OF t(5,2) valid, of v] u(1) on t(4) by simp
  then show ?thesis using t u k(2) by simp
qed

theorem idle_socket_times_out_witness:
  "\<exists>t h u x. beats sample_env 0 (replicate 3 10) sample_manager = (Ok (), t)
    \<and> sk_status (sock 0 t) = SocketStatusConnected
    \<and> sock_Heartbeat sample_env 10 0 t = (Ok x, u) \<and> sk_status (sock 0 u) = SocketStatusReleased"
  using idle_socket_times_out [OF sample_manager_inv sample_manager_heap(1), where v = 10 and n = 3]
  by (auto simp: sample_manager_opts Config_default_def sock_Type_def fresh_socket_def)

section \<open>Dialling\<close>

lemma below_limit: "int n \<le> sint (x :: i32) \<Longrightarrow> n < 2 ^ 31"
  using sint_lt [of x] by simp

lemma tryConnect_bounded:
  assumes "0 < sint (ClientReconnectMax opt)"
  shows "int n + int j = sint (ClientReconnectMax opt) \<Longrightarrow>
    \<exists>r ds. tryConnect opt dial cancelled (word_of_nat n) ws = Some (r, ws @ ds) \<and> length ds \<le> j
      \<and> ds = map (\<lambda>i. backoff opt (word_of_nat (n + i))) [0..<length ds]
      \<and> (\<forall>i<length ds. \<exists>er. dial (word_of_nat (n + i)) = Inl er)
      \<and> (\<forall>c. r = Inr c \<longrightarrow> dial (word_of_nat (n + length ds)) = Inr c \<and> length ds < j)
      \<and> (\<forall>er. r = Inl er \<longrightarrow> length ds = j
          \<or> (ds \<noteq> [] \<and> cancelled (word_of_nat (n + length ds - 1))))"
proof (induction j arbitrary: n ws)
  case 0
  have "n < 2 ^ 31" using "0" by (intro below_limit [where x = "ClientReconnectMax opt"]) simp
  then have "sint (word_of_nat n :: i32) = int n" by (rule sint_word_of_nat)
  then show ?case using "0" assms by (subst tryConnect.simps) simp
next
  case (Suc j)
  have "int n < sint (ClientReconnectMax opt)" using Suc.prems by simp
  then have "n < 2 ^ 31" by (intro below_limit [where x = "ClientReconnectMax opt"]) simp
  then have sn: "sint (word_of_nat n :: i32) = int n" by (rule sint_word_of_nat)
  have go: "\<not> (sint (ClientReconnectMax opt) > 0
      \<and> sint (word_of_nat n :: i32) \<ge> sint (ClientReconnectMax opt))"
    using Suc.prems sn by simp
  show ?case
  proof (cases "dial (word_of_nat n)")
    case (Inr c)
    then show ?thesis using go by (subst tryConnect.simps) (simp add: exI [of _ "[]"])
  next
    case (Inl er)
    let ?b = "backoff opt (word_of_nat n)"
    show ?thesis
    proof (cases "cancelled (word_of_nat n)")
      case True
      then show ?thesis
        using go Inl by (subst tryConnect.simps) (simp add: exI [of _ "[?b]"])
    next
      case False
      have "int (Suc n) + int j = sint (ClientReconnectMax opt)" using Suc.prems by simp
      from Suc.IH [OF this, of "ws @ [?b]"] obtain r ds
        where r: "tryConnect opt dial cancelled (word_of_nat (Suc n)) (ws @ [?b]) = Some (r, (ws @ [?b]) @ ds)"
          "length ds \<le> j" "ds = map (\<lambda>i. backoff opt (word_of_nat (Suc n + i))) [0..<length ds]"
          "\<forall>i<length ds. \<exists>er. dial (word_of_nat (Suc n + i)) = Inl er"
          "\<forall>c. r = Inr c \<longrightarrow> dial (word_of_nat (Suc n + length ds)) = Inr c \<and> length ds < j"
          "\<forall>er. r = Inl er \<longrightarrow> length ds = j \<or> (ds \<noteq> [] \<and> cancelled (word_of_nat (Suc n + length ds - 1)))"
        by blast
      have step: "tryConnect opt dial cancelled (word_of_nat n) ws = Some (r, ws @ (?b # ds))"
        using go Inl False r(1) by (subst tryConnect.simps) (simp add: add.commute)
      have "?b # ds = map (\<lambda>i. backoff opt (word_of_nat (n + i))) [0..<length (?b # ds)]"
        using r(3) by (simp add: upt_conv_Cons map_Suc_upt [symmetric] comp_def ac_simps del: upt_Suc)
      moreover have "\<forall>i<length (?b # ds). \<exists>er. dial (word_of_nat (n + i)) = Inl er"
        using r(4) Inl by (auto simp: less_Suc_eq_0_disj ac_simps)
      ultimately show ?thesis using step r(2,5,6) by (intro exI [of _ r] exI [of _ "?b # ds"]) auto
    qed
  qed
qed

text \<open>
  C31. Dialling with a limit always ends: after at most \<open>ClientReconnectMax\<close> attempts it returns the
  connection of the first attempt that succeeds, or an error when the limit is reached or the
  context ends; before each further attempt it waits for the back-off of the attempts made.
\<close>

theorem tryConnect_ends_within_limit:
  assumes "0 < sint (ClientReconnectMax opt)"
  shows "\<exists>r ds. tryConnect opt dial cancelled 0 [] = Some (r, ds)
      \<and> int (length ds) \<le> sint (ClientReconnectMax opt)
      \<and> ds = map (\<lambda>i. backoff opt (word_of_nat i)) [0..<length ds]
      \<and> (\<forall>i<length ds. \<exists>er. dial (word_of_nat i) = Inl er)
      \<and> (\<forall>c. r = Inr c \<longrightarrow> dial (word_of_nat (length ds)) = Inr c
            \<and> int (length ds) < sint (ClientReconnectMax opt))
      \<and> (\<forall>er. r = Inl er \<longrightarrow> int (length ds) = sint (ClientReconnectMax opt)
            \<or> (ds \<noteq> [] \<and> cancelled (word_of_nat (length ds - 1))))"
proof -
  let ?j = "nat (sint (ClientReconnectMax opt))"
  have "int 0 + int ?j = sint (ClientReconnectMax opt)" using assms by simp
  from tryConnect_bounded [OF assms this, of dial cancelled "[]"] obtain r ds
    where r: "tryConnect opt dial cancelled (word_of_nat 0) [] = Some (r, [] @ ds)" "length ds \<le> ?j"
      "ds = map (\<lambda>i. backoff opt (word_of_nat (0 + i))) [0..<length ds]"
      "\<forall>i<length ds. \<exists>er. dial (word_of_nat (0 + i)) = Inl er"
      "\<forall>c. r = Inr c \<longrightarrow> dial (word_of_nat (0 + length ds)) = Inr c \<and> length ds < ?j"
      "\<forall>er. r = Inl er \<longrightarrow> length ds = ?j \<or> (ds \<noteq> [] \<and> cancelled (word_of_nat (0 + length ds - 1)))"
    by blast
  then show ?thesis
    using assms by (intro exI [of _ r] exI [of _ ds]) auto
qed

theorem tryConnect_ends_within_limit_witness:
  "\<exists>ds. tryConnect Config_default (\<lambda>n. if n = 2 then Inr 7 else Inl (ErrLib 9)) (\<lambda>_. False) 0 []
      = Some (Inr 7, ds) \<and> length ds \<le> 2"
proof -
  let ?dial = "\<lambda>n :: i32. if n = 2 then Inr (7 :: nat) else Inl (ErrLib 9)"
  have mx: "sint (ClientReconnectMax Config_default) = 10" by (simp add: Config_default_def)
  then have "0 < sint (ClientReconnectMax Config_default)" by simp
  from tryConnect_ends_within_limit [OF this, of ?dial "\<lambda>_. False"] mx obtain r ds
    where r: "tryConnect Config_default ?dial (\<lambda>_. False) 0 [] = Some (r, ds)"
      "\<forall>i<length ds. \<exists>er. ?dial (word_of_nat i) = Inl er"
      "\<forall>c. r = Inr c \<longrightarrow> ?dial (word_of_nat (length ds)) = Inr c"
      "\<forall>er. r = Inl er \<longrightarrow> int (length ds) = 10"
    by auto
  have le: "\<not> 2 < length ds" using r(2) [rule_format, of 2] by auto
  then obtain c where c: "r = Inr c" using r(4) by (cases r) auto
  then have "c = 7" using r(3) by (auto split: if_splits)
  then show ?thesis using r(1) c le by auto
qed

lemma tryConnect_some:
  assumes "tryConnect opt dial cancelled n ws = Some y"
  shows "0 < sint (ClientReconnectMax opt) \<or> (\<exists>i c. dial i = Inr c) \<or> (\<exists>i. cancelled i)"
proof (rule tryConnect.raw_induct [OF _ assms, where P = "\<lambda>opt dial cancelled n ws y.
    0 < sint (ClientReconnectMax opt) \<or> (\<exists>i c. dial i = Inr c) \<or> (\<exists>i. cancelled i)"])
  fix tc :: "config \<Rightarrow> (i32 \<Rightarrow> err + nat) \<Rightarrow> (i32 \<Rightarrow> bool) \<Rightarrow> i32 \<Rightarrow> i32 list
      \<Rightarrow> ((err + nat) \<times> i32 list) option"
    and opt dial cancelled n ws y
  assume ih: "\<And>opt dial cancelled n ws y. tc opt dial cancelled n ws = Some y \<Longrightarrow>
      0 < sint (ClientReconnectMax opt) \<or> (\<exists>i c. dial i = Inr c) \<or> (\<exists>i. cancelled i)"
    and body: "(if sint (ClientReconnectMax opt) > 0 \<and> sint n \<ge> sint (ClientReconnectMax opt)
      then Some (Inl (ErrNew ''max retry reached''), ws)
      else case dial n of
        Inl _ \<Rightarrow> if cancelled n then Some (Inl (ErrNew ''context canceled''), ws @ [backoff opt n])
          else tc opt dial cancelled (n + 1) (ws @ [backoff opt n])
      | Inr conn \<Rightarrow> Some (Inr conn, ws)) = Some y"
  show "0 < sint (ClientReconnectMax opt) \<or> (\<exists>i c. dial i = Inr c) \<or> (\<exists>i. cancelled i)"
  proof (cases "dial n")
    case (Inl er)
    then show ?thesis using body ih [of opt dial cancelled "n + 1" "ws @ [backoff opt n]" y]
      by (auto split: if_splits)
  qed auto
qed

lemma tryConnect_first:
  assumes "sint (ClientReconnectMax opt) \<le> 0" "\<And>i. \<not> cancelled i" "dial (word_of_nat (n + j)) = Inr c"
  shows "\<forall>i<j. \<exists>er. dial (word_of_nat (n + i)) = Inl er \<Longrightarrow>
    \<exists>ds. tryConnect opt dial cancelled (word_of_nat n) ws = Some (Inr c, ws @ ds) \<and> length ds = j"
  using assms
proof (induction j arbitrary: n ws)
  case 0
  then show ?case by (subst tryConnect.simps) simp
next
  case (Suc j)
  obtain er where er: "dial (word_of_nat n) = Inl er" using Suc.prems(1) by force
  let ?b = "backoff opt (word_of_nat n)"
  have "\<forall>i<j. \<exists>er. dial (word_of_nat (Suc n + i)) = Inl er"
  proof (intro allI impI)
    fix i assume "i < j"
    then have "Suc i < Suc j" by simp
    from Suc.prems(1) [rule_format, OF this] show "\<exists>er. dial (word_of_nat (Suc n + i)) = Inl er"
      by (simp add: ac_simps)
  qed
  moreover have "dial (word_of_nat (Suc n + j)) = Inr c" using Suc.prems(4) by (simp add: ac_simps)
  ultimately obtain ds where "tryConnect opt dial cancelled (word_of_nat (Suc n)) (ws @ [?b]) = Some (Inr c, (ws @ [?b]) @ ds)"
    "length ds = j"
    using Suc.IH [of "Suc n" "ws @ [?b]"] Suc.prems(2,3) by blast
  then have "tryConnect opt dial cancelled (word_of_nat n) ws = Some (Inr c, ws @ (?b # ds))"
    using er Suc.prems(2,3) by (subst tryConnect.simps) (simp add: add.commute)
  then show ?case using \<open>length ds = j\<close> by (intro exI [of _ "?b # ds"]) simp
qed

text \<open>
  Without a limit (\<open>ClientReconnectMax\<close> zero or negative) and without cancellation, dialling returns
  exactly when some attempt succeeds, with the connection of the first one that does; when none
  does it never returns.
\<close>

theorem tryConnect_unlimited:
  assumes "sint (ClientReconnectMax opt) \<le> 0" and "\<And>i. \<not> cancelled i"
  shows "((\<forall>i. \<exists>er. dial i = Inl er) \<longrightarrow> tryConnect opt dial cancelled 0 [] = None)
    \<and> (\<forall>j c. dial (word_of_nat j) = Inr c \<and> (\<forall>i<j. \<exists>er. dial (word_of_nat i) = Inl er) \<longrightarrow>
        (\<exists>ds. tryConnect opt dial cancelled 0 [] = Some (Inr c, ds) \<and> length ds = j))"
proof -
  have "tryConnect opt dial cancelled 0 [] = None" if "\<forall>i. \<exists>er. dial i = Inl er"
  proof (cases "tryConnect opt dial cancelled 0 []")
    case (Some y)
    have "dial i \<noteq> Inr c" for i c using that by (metis Inl_Inr_False)
    then show ?thesis using tryConnect_some [OF Some] assms by auto
  qed
  moreover have "\<exists>ds. tryConnect opt dial cancelled 0 [] = Some (Inr c, ds) \<and> length ds = j"
    if "dial (word_of_nat j) = Inr c" "\<forall>i<j. \<exists>er. dial (word_of_nat i) = Inl er" for j c
    using tryConnect_first [where n = 0 and ws = "[]" and j = j, OF assms] that by simp
  ultimately show ?thesis by blast
qed

theorem tryConnect_unlimited_witness:
  "tryConnect (Config_default\<lparr>ClientReconnectMax := 0\<rparr>) (\<lambda>_. Inl (ErrLib 9) :: err + nat) (\<lambda>_. False) 0 [] = None"
  using tryConnect_unlimited [of "Config_default\<lparr>ClientReconnectMax := 0\<rparr>" "\<lambda>_. False" "\<lambda>_. Inl (ErrLib 9)"]
  by simp

section \<open>Dispatch and reply\<close>

lemma split_query_cut: "split_query (fst (split_query p)) = (fst (split_query p), [])"
proof (cases "index_byte p (of_char CHR ''?'' :: byte)")
  case None
  then have "split_query p = (p, [])" by (intro split_query_plain) simp
  then show ?thesis by simp
next
  case (Some i)
  then have "of_char CHR ''?'' \<notin> set (take i p)" using index_byte_SomeD by fastforce
  then show ?thesis using Some split_query_plain [of "take i p"] by (simp add: split_query_def)
qed

lemma reply_flag_facts:
  "Has (reply_flag f) FlagConfirm" "Has (reply_flag f) FlagHeartbeat \<longleftrightarrow> Has f FlagHeartbeat"
  "\<not> Has (reply_flag f) FlagCompressed"
  by (auto simp: reply_flag_def Has_def Set_def FlagConfirm_def FlagHeartbeat_def FlagCompressed_def)

text \<open>A send whose arguments marshal into any object of the pool, on a queue with room.\<close>

lemma Send_queues:
  assumes inv: "ss_inv e s" and k: "ss_heap s p = Some k" "IsReady k"
      "length (items (sk_cwrite k)) < ccap (sk_cwrite k)"
    and ms: "\<And>m0. clean e m0 \<Longrightarrow> \<exists>m1. Marshal e mag fl ix a v m0 = (Ok (), m1) \<and> P m1"
  obtains m pool where "SendWithMagic e pk pick p mag fl ix a v safe s
      = (Ok (), upd p (\<lambda>k. k\<lparr>sk_cwrite := (sk_cwrite k)\<lparr>items := items (sk_cwrite k) @ [m]\<rparr>\<rparr>)
          (s\<lparr>ss_pool := pool\<rparr>))" "P m" "clean_pool e pool"
proof -
  obtain m0 pool where rq: "Require e pk (ss_pool s) = (m0, pool)" by fastforce
  have c0: "clean e m0" "clean_pool e pool" using Require_clean [OF ss_inv_facts(2) [OF inv] rq] by auto
  obtain m where m: "Marshal e mag fl ix a v m0 = (Ok (), m)" "P m" using ms [OF c0(1)] by blast
  let ?s = "s\<lparr>ss_pool := pool\<rparr>"
  have u: "ss_inv e ?s" using c0(2) inv by (simp add: ss_inv_pool)
  have ku: "ss_heap ?s p = Some k" using k by simp
  have w: "sock_Write pick p m safe ?s
      = (Ok (), upd p (\<lambda>k. k\<lparr>sk_cwrite := (sk_cwrite k)\<lparr>items := items (sk_cwrite k) @ [m]\<rparr>\<rparr>) ?s)"
    using sock_Write_cases [OF u ku, of pick m safe] k(2,3) by (simp add: IsReady_def)
  have "SendWithMagic e pk pick p mag fl ix a v safe s
      = (Ok (), upd p (\<lambda>k. k\<lparr>sk_cwrite := (sk_cwrite k)\<lparr>items := items (sk_cwrite k) @ [m]\<rparr>\<rparr>) ?s)"
    by (simp add: SendWithMagic_def rq m(1) w)
  then show ?thesis by (rule that [OF _ m(2) c0(2)])
qed

text \<open>Sending bytes under a path: what is queued.\<close>

lemma Send_path_queues:
  assumes inv: "ss_inv e s" and k: "ss_heap s p = Some k" "IsReady k"
      "length (items (sk_cwrite k)) < ccap (sk_cwrite k)"
    and mg: "Magics e mag = Some mg" "Type mg = MagicTypePath" and cap: "4 \<le> Capacity (opts e)"
    and a: "a \<noteq> []" "length a < 2 ^ 31"
  obtains m pool where "SendWithMagic e pk pick p mag fl ix (PathString a) (VBytes v) safe s
      = (Ok (), upd p (\<lambda>k. k\<lparr>sk_cwrite := (sk_cwrite k)\<lparr>items := items (sk_cwrite k) @ [m]\<rparr>\<rparr>)
          (s\<lparr>ss_pool := pool\<rparr>))"
    "holds_path e mg a v m" "h_magic m = mag" "h_flag m = fl" "h_index m = ix"
    "h_size m = word_of_nat (slen (mbytes m))" "clean_pool e pool"
proof -
  let ?P = "\<lambda>m. holds_path e mg a v m \<and> h_magic m = mag \<and> h_flag m = fl \<and> h_index m = ix
    \<and> h_size m = word_of_nat (slen (mbytes m))"
  have "\<exists>m1. Marshal e mag fl ix (PathString a) (VBytes v) m0 = (Ok (), m1) \<and> ?P m1" if m0: "clean e m0" for m0
    using Marshal_holds_path [OF mg clean_room [OF m0 cap] _ a, of fl ix v] m0
    by (auto simp: clean_def marshalled_def)
  from Send_queues [OF inv k this, of pk pick safe] show ?thesis using that by blast
qed

text \<open>Answering a request with bytes: what is queued.\<close>

lemma reply_queues:
  assumes inv: "ss_inv e s" and k: "ss_heap s p = Some k" "IsReady k"
      "length (items (sk_cwrite k)) < ccap (sk_cwrite k)"
    and mg: "Magics e (h_magic m) = Some mg" "Type mg = MagicTypePath"
    and req: "\<not> Has (h_flag m) FlagConfirm" "\<not> Has (h_flag m) FlagNoreply"
    and conf: "Confirm e m = (Ok r, m\<lparr>code := c\<rparr>)" "r \<noteq> []" "length r < 2 ^ 31"
    and opt: "4 \<le> Capacity (opts e)" "keys_ok (Magics e)"
  obtains m1 pool where "handler_reply e pk pick h p m (VBytes v) s
      = (Ok (), upd p (\<lambda>k. k\<lparr>sk_cwrite := (sk_cwrite k)\<lparr>items := items (sk_cwrite k) @ [m1]\<rparr>\<rparr>)
          (s\<lparr>ss_pool := pool\<rparr>))"
    "holds_path e mg r v m1" "h_magic m1 = h_magic m" "h_flag m1 = reply_flag (h_flag m)"
    "h_index m1 = h_index m" "h_size m1 = word_of_nat (slen (mbytes m1))" "clean_pool e pool"
proof -
  have key: "Key mg = h_magic m" using opt(2) mg(1) by (simp add: keys_ok_def)
  obtain m1 pool where send: "SendWithMagic e pk pick p (h_magic m) (reply_flag (h_flag m)) (h_index m)
        (PathString r) (VBytes v) [] s
      = (Ok (), upd p (\<lambda>k. k\<lparr>sk_cwrite := (sk_cwrite k)\<lparr>items := items (sk_cwrite k) @ [m1]\<rparr>\<rparr>)
          (s\<lparr>ss_pool := pool\<rparr>))" (is "_ = (_, ?t)")
    and m1: "holds_path e mg r v m1" "h_magic m1 = h_magic m" "h_flag m1 = reply_flag (h_flag m)"
      "h_index m1 = h_index m" "h_size m1 = word_of_nat (slen (mbytes m1))" "clean_pool e pool"
    by (rule Send_path_queues [OF inv k mg opt(1) conf(2,3)])
  have "handler_reply e pk pick h p m (VBytes v) s = (Ok (), ?t)"
    using req conf(1) mg key send by (simp add: handler_reply_def reply_data_def magics_Get_def)
  then show ?thesis by (rule that [OF _ m1])
qed

text \<open>
  A reply goes back to where the request came from: when a handler answers a path-mode request that
  wants a reply with bytes, the message queued on the socket carries the request's path without
  its query, its index and its magic number, is marked as a confirmation and as a heartbeat
  exactly when the request was one, has the bytes as its body, and will not itself be answered.
\<close>

theorem reply_returns_to_sender:
  assumes inv: "ss_inv e s" and k: "ss_heap s p = Some k" "IsReady k"
      "length (items (sk_cwrite k)) < ccap (sk_cwrite k)"
    and req: "holds_path e mg path body m" "\<not> Has (h_flag m) FlagConfirm" "\<not> Has (h_flag m) FlagNoreply"
    and opt: "S2CConfirm (opts e) = []" "4 \<le> Capacity (opts e)" "keys_ok (Magics e)"
    and dest: "fst (split_query path) \<noteq> []"
  shows "\<exists>t m1. handler_reply e pk pick h p m (VBytes v) s = (Ok (), t)
    \<and> items (sk_cwrite (sock p t)) = items (sk_cwrite k) @ [m1]
    \<and> fst (Path e m1) = Ok (fst (split_query path), []) \<and> fst (Body e m1) = Ok v
    \<and> h_index m1 = h_index m \<and> h_magic m1 = h_magic m
    \<and> Has (h_flag m1) FlagConfirm \<and> (Has (h_flag m1) FlagHeartbeat \<longleftrightarrow> Has (h_flag m) FlagHeartbeat)
    \<and> (\<forall>pk' pick' h' p' v' s'. handler_reply e pk' pick' h' p' m1 v' s' = (Ok (), s'))"
proof -
  let ?r = "fst (split_query path)"
  have mg: "Magics e (h_magic m) = Some mg" "Type mg = MagicTypePath" and len: "length path < 2 ^ 31"
    using req(1) by (simp_all add: holds_path_def)
  have rlen: "length ?r < 2 ^ 31"
    using len by (auto simp: split_query_def split: option.split)
  have conf: "Confirm e m = (Ok ?r, m\<lparr>code := word_of_nat (length path)\<rparr>)"
    using opt(1) holds_path_Path [OF req(1)] by (cases "split_query path") (simp add: Confirm_def)
  obtain m1 pool where r: "handler_reply e pk pick h p m (VBytes v) s
      = (Ok (), upd p (\<lambda>k. k\<lparr>sk_cwrite := (sk_cwrite k)\<lparr>items := items (sk_cwrite k) @ [m1]\<rparr>\<rparr>)
          (s\<lparr>ss_pool := pool\<rparr>))" (is "_ = (_, ?t)")
    and m1: "holds_path e mg ?r v m1" "h_magic m1 = h_magic m" "h_flag m1 = reply_flag (h_flag m)"
      "h_index m1 = h_index m" "h_size m1 = word_of_nat (slen (mbytes m1))" "clean_pool e pool"
    by (rule reply_queues [OF inv k mg req(2,3) conf dest rlen opt(2,3)])
  moreover have "items (sk_cwrite (sock p ?t)) = items (sk_cwrite k) @ [m1]"
    using k by (simp add: sock_def upd_def)
  moreover have "fst (Path e m1) = Ok (?r, [])" "fst (Body e m1) = Ok v"
    using holds_path_Path [OF m1(1)] holds_path_Body [OF m1(1)] split_query_cut [of path] by simp_all
  moreover have "handler_reply e pk' pick' h' p' m1 v' s' = (Ok (), s')" for pk' pick' h' p' v' s'
    using reply_flag_facts(1) m1(3) by (simp add: handler_reply_def)
  ultimately show ?thesis
    using reply_flag_facts [of "h_flag m"]
    by (intro exI [of _ ?t] exI [of _ m1]) simp
qed

definition sample_request :: message where
  "sample_request = new_message\<lparr>h_magic := MagicNumberPathJson, h_flag := FlagHeartbeat, h_size := 6,
     h_index := 1, mbytes := \<lparr>arr = [0, 0, 0, 1, 97, 98], slen = 6\<rparr>\<rparr>"

lemma sample_request_holds:
  "holds_path sample_env \<lparr>Key = MagicNumberPathJson, Type = MagicTypePath, Binder = Some sample_codec,
      Binary = BigEndian\<rparr> [97] [98] sample_request"
  by (simp add: holds_path_def sample_request_def wf_slice_def view_def path_prefix_def PutUint32_def
      be_put_def)

theorem reply_returns_to_sender_witness:
  "\<exists>t m1. handler_reply sample_env None True new_handler 0 sample_request (VBytes [1, 2]) sample_manager = (Ok (), t)
    \<and> items (sk_cwrite (sock 0 t)) = [m1] \<and> fst (Path sample_env m1) = Ok ([97], [])
    \<and> fst (Body sample_env m1) = Ok [1, 2] \<and> h_index m1 = 1 \<and> Has (h_flag m1) FlagHeartbeat"
proof -
  have "Has FlagHeartbeat FlagHeartbeat" "\<not> Has FlagHeartbeat FlagConfirm" "\<not> Has FlagHeartbeat FlagNoreply"
    by (simp_all add: Has_def FlagHeartbeat_def FlagConfirm_def FlagNoreply_def)
  moreover have "split_query [97] = ([97], [])" by (rule split_query_plain) simp
  ultimately show ?thesis
    using reply_returns_to_sender [OF sample_manager_inv sample_manager_heap(1) _ _ sample_request_holds,
        where pk = None and pick = True and h = new_handler and v = "[1, 2]"]
    by (auto simp: IsReady_def fresh_socket_def make_chan_def sample_request_def keys_ok_init)
qed

text \<open>
  C27. Dispatch: whatever a handler or the registry does, receiving a message never panics; a path nobody
  registered goes to the listeners of the message event, once each, and to nothing else; a handler
  that panics leaves every socket as it was and is reported to the listeners of the error event.
\<close>

theorem dispatch_is_contained:
  assumes req: "holds_path e mg path body m"
  shows "fst (sock_handle e search pk pick p m' s) \<noteq> Panic
    \<and> (search (fst (split_query path)) = None \<longrightarrow>
        sock_handle e search pk pick p m s = (Ok (), s\<lparr>ss_calls := ss_calls s @ map (\<lambda>f.
          \<lparr>c_fun = f, c_sock = Some p, c_arg = AMessage (m\<lparr>code := word_of_nat (length path)\<rparr>)\<rparr>)
            (ss_emitter s EventTypeMessage)\<rparr>))
    \<and> (\<forall>nd h. search (fst (split_query path)) = Some (nd, OwnHandler h)
          \<and> handler_handle h nd p (m\<lparr>code := word_of_nat (length path)\<rparr>) = Panic \<longrightarrow>
        sock_handle e search pk pick p m s = (Ok (), s\<lparr>ss_calls := ss_calls s @ map (\<lambda>f.
          \<lparr>c_fun = f, c_sock = Some p, c_arg = AErr (ErrNew ''server handle error'')\<rparr>)
            (ss_emitter s EventTypeError)\<rparr>))"
proof -
  have "fst (sock_handle e search pk pick p m' s) \<noteq> Panic"
    by (cases "handle_body e search pk pick p m' s"; cases "fst (handle_body e search pk pick p m' s)")
      (auto simp: sock_handle_def)
  moreover obtain r q where rq: "split_query path = (r, q)" by fastforce
  ultimately show ?thesis
    using holds_path_Path [OF req]
    by (auto simp: sock_handle_def handle_body_def Errorf_def sock_Emit_def Emit_def)
qed

theorem dispatch_is_contained_witness:
  "sock_handle sample_env (\<lambda>_. None) None True 0 sample_request (On EventTypeMessage 4 sample_manager)
    = (Ok (), (On EventTypeMessage 4 sample_manager)\<lparr>ss_calls := ss_calls sample_manager @
        [\<lparr>c_fun = 4, c_sock = Some 0, c_arg = AMessage (sample_request\<lparr>code := 1\<rparr>)\<rparr>]\<rparr>)"
proof -
  have "ss_emitter sample_manager ev = []" for ev
    by (simp add: sample_manager_eq created_def sockets_New_def go_start_def sock_Emit_def Emit_def Let_def)
  then have "ss_emitter (On EventTypeMessage 4 sample_manager) EventTypeMessage = [4]"
    "ss_calls (On EventTypeMessage 4 sample_manager) = ss_calls sample_manager"
    by (simp_all add: On_def)
  then show ?thesis
    using dispatch_is_contained [OF sample_request_holds, where search = "\<lambda>_. None" and pk = None
        and pick = True and p = 0 and s = "On EventTypeMessage 4 sample_manager"] by simp
qed

end
