(* ===== verification/Lifecycle.thy ===== *)
theory Lifecycle
  imports Manager Sample
begin

text \<open>
  The life of one socket under concurrency. \<open>Socket\<close> runs each call without interruption; here
  \<open>disconnect\<close>, \<open>connect\<close>, the reconnection and \<open>Close\<close> of \<open>socket.go\<close> are cut into their memory
  accesses, and any number of goroutines (the two loops, the heartbeat, callers) interleave. The
  accesses are taken in program order.
\<close>

section \<open>State\<close>

text \<open>
  Where a goroutine stands in \<open>disconnect\<close>: outside, with the status it has read, after its
  compare-and-swap, with the stop channel closed, with the connection closed, with the event
  emitted, about to release or to start the reconnection, and back with its result.
\<close>

datatype pc =
    Outside
  | Loaded status
  | Won
  | StopClosed
  | ConnClosed
  | Announced
  | Releasing
  | Restarting
  | Returned bool

text \<open>The goroutine that attaches a connection: searching, and in the middle of \<open>connect\<close>.\<close>

datatype attach = Absent | Searching | ConnSet | StopSet

text \<open>
  \<open>lf_conn\<close> says whether there is a connection; \<open>lf_released\<close> and \<open>lf_panics\<close> count the calls of
  \<open>release\<close> and the panics inside \<open>disconnect\<close>.
\<close>

record life =
  lf_status :: status
  lf_stop :: "bool option"
  lf_conn :: bool
  lf_client :: bool
  lf_pc :: "nat \<Rightarrow> pc"
  lf_attach :: attach
  lf_released :: nat
  lf_panics :: nat

definition at :: "nat \<Rightarrow> pc \<Rightarrow> life \<Rightarrow> life" where
  "at a x l = l\<lparr>lf_pc := (lf_pc l)(a := x)\<rparr>"

section \<open>Steps\<close>

text \<open>
  The steps of goroutine \<open>a\<close> in \<open>disconnect\<close>, of the goroutine that attaches a connection, and of
  \<open>Close\<close>. Closing a nil or closed stop channel panics, which the deferred \<open>recover\<close> ends with
  the result false.
\<close>

inductive life_step :: "life \<Rightarrow> life \<Rightarrow> bool" where
  load: "lf_pc l a \<in> {Outside, Returned b} \<Longrightarrow> life_step l (at a (Loaded (lf_status l)) l)"
| invalid: "lf_pc l a = Loaded st \<Longrightarrow> \<not> isValidStatus st \<Longrightarrow> life_step l (at a (Returned False) l)"
| cas_lost: "lf_pc l a = Loaded st \<Longrightarrow> isValidStatus st \<Longrightarrow> lf_status l \<noteq> st \<Longrightarrow>
    life_step l (at a (Returned False) l)"
| cas_won: "lf_pc l a = Loaded st \<Longrightarrow> isValidStatus st \<Longrightarrow> lf_status l = st \<Longrightarrow>
    life_step l (at a Won (l\<lparr>lf_status := SocketStatusDisconnect\<rparr>))"
| close_stop: "lf_pc l a = Won \<Longrightarrow> lf_stop l = Some False \<Longrightarrow>
    life_step l (at a StopClosed (l\<lparr>lf_stop := Some True\<rparr>))"
| stop_panics: "lf_pc l a = Won \<Longrightarrow> lf_stop l \<noteq> Some False \<Longrightarrow>
    life_step l (at a (Returned False) (l\<lparr>lf_panics := Suc (lf_panics l)\<rparr>))"
| conn_close: "lf_pc l a = StopClosed \<Longrightarrow> life_step l (at a ConnClosed (l\<lparr>lf_conn := False\<rparr>))"
| announce: "lf_pc l a = ConnClosed \<Longrightarrow> life_step l (at a Announced l)"
| to_release: "lf_pc l a = Announced \<Longrightarrow> \<not> lf_client l \<Longrightarrow>
    life_step l (at a Releasing (l\<lparr>lf_status := SocketStatusDisconnected\<rparr>))"
| do_release: "lf_pc l a = Releasing \<Longrightarrow>
    life_step l (at a (Returned True)
      (l\<lparr>lf_status := SocketStatusReleased, lf_released := Suc (lf_released l)\<rparr>))"
| to_reconnect: "lf_pc l a = Announced \<Longrightarrow> lf_client l \<Longrightarrow>
    life_step l (at a Restarting (l\<lparr>lf_status := SocketStatusReconnecting\<rparr>))"
| go_reconnect: "lf_pc l a = Restarting \<Longrightarrow>
    life_step l (at a (Returned False) (l\<lparr>lf_attach := Searching\<rparr>))"
| set_conn: "lf_attach l = Searching \<Longrightarrow> life_step l (l\<lparr>lf_conn := True, lf_attach := ConnSet\<rparr>)"
| set_stop: "lf_attach l = ConnSet \<Longrightarrow> life_step l (l\<lparr>lf_stop := Some False, lf_attach := StopSet\<rparr>)"
| set_status: "lf_attach l = StopSet \<Longrightarrow>
    life_step l (l\<lparr>lf_status := SocketStatusConnected, lf_attach := Absent\<rparr>)"
| give_up: "lf_attach l = Searching \<Longrightarrow>
    life_step l (l\<lparr>lf_status := SocketStatusReleased, lf_released := Suc (lf_released l),
                  lf_attach := Absent\<rparr>)"
| close_cas: "lf_status l = SocketStatusConnected \<Longrightarrow>
    life_step l (l\<lparr>lf_status := SocketStatusClosing\<rparr>)"

inductive_cases life_stepE: "life_step l l'"

section \<open>The invariant\<close>

text \<open>
  A socket is owned by at most one goroutine: the one that won the compare-and-swap and has not
  handed it on, or the one that attaches a connection. The status says which.
\<close>

definition owns :: "pc \<Rightarrow> bool" where
  "owns x \<longleftrightarrow> x \<in> {Won, StopClosed, ConnClosed, Announced, Releasing, Restarting}"

lemma owns_simps [simp]:
  "\<not> owns Outside" "\<not> owns (Loaded st)" "owns Won" "owns StopClosed" "owns ConnClosed"
  "owns Announced" "owns Releasing" "owns Restarting" "\<not> owns (Returned b)"
  by (simp_all add: owns_def)

definition owner_status :: "pc \<Rightarrow> status" where
  "owner_status x =
     (case x of Releasing \<Rightarrow> SocketStatusDisconnected | Restarting \<Rightarrow> SocketStatusReconnecting
      | _ \<Rightarrow> SocketStatusDisconnect)"

definition owned :: "life \<Rightarrow> bool" where
  "owned l \<longleftrightarrow> (\<exists>a. owns (lf_pc l a))"

definition life_inv :: "life \<Rightarrow> bool" where
  "life_inv l \<longleftrightarrow>
     lf_panics l = 0
     \<and> (\<forall>a b. owns (lf_pc l a) \<and> owns (lf_pc l b) \<longrightarrow> a = b)
     \<and> (\<forall>a. owns (lf_pc l a) \<longrightarrow> lf_attach l = Absent \<and> lf_status l = owner_status (lf_pc l a)
          \<and> lf_stop l = Some (lf_pc l a \<noteq> Won))
     \<and> (lf_attach l \<noteq> Absent \<longrightarrow> lf_status l = SocketStatusReconnecting)
     \<and> (lf_attach l = StopSet \<longrightarrow> lf_stop l = Some False)
     \<and> (\<not> owned l \<and> lf_attach l = Absent \<longrightarrow>
          lf_status l \<in> {SocketStatusConnected, SocketStatusClosing} \<and> lf_stop l = Some False
          \<or> lf_status l = SocketStatusReleased)
     \<and> lf_released l = (if lf_status l = SocketStatusReleased then 1 else 0)"

text \<open>A freshly connected socket, nobody inside \<open>disconnect\<close>.\<close>

definition connected_life :: "bool \<Rightarrow> life" where
  "connected_life cl =
     \<lparr>lf_status = SocketStatusConnected, lf_stop = Some False, lf_conn = True, lf_client = cl,
      lf_pc = (\<lambda>_. Outside), lf_attach = Absent, lf_released = 0, lf_panics = 0\<rparr>"

lemma life_inv_connected: "life_inv (connected_life cl)"
  by (simp add: life_inv_def connected_life_def owned_def)

text \<open>The facts about a goroutine that owns the socket.\<close>

lemma life_inv_owner:
  assumes "life_inv l" "owns (lf_pc l a)"
  shows "lf_attach l = Absent" "lf_status l = owner_status (lf_pc l a)"
    "lf_stop l = Some (lf_pc l a \<noteq> Won)" "lf_panics l = 0" "lf_released l = 0"
    "b \<noteq> a \<Longrightarrow> \<not> owns (lf_pc l b)"
  using assms by (auto simp: life_inv_def owner_status_def split: pc.splits if_splits)

text \<open>An owner moves on within its ownership, or gives the socket up.\<close>

lemma life_inv_move:
  assumes inv: "life_inv l" and o: "owns (lf_pc l a)" "owns x"
    and t: "lf_pc t = (lf_pc l)(a := x)" "lf_attach t = Absent" "lf_status t = owner_status x"
      "lf_stop t = Some (x \<noteq> Won)" "lf_panics t = 0" "lf_released t = 0"
  shows "life_inv t"
  using life_inv_owner(6) [OF inv o(1)] o t
  by (auto simp: life_inv_def owned_def owner_status_def split: pc.splits)

lemma life_inv_leave:
  assumes inv: "life_inv l" and o: "owns (lf_pc l a)" "\<not> owns x"
    and t: "lf_pc t = (lf_pc l)(a := x)" "lf_panics t = 0"
      "lf_status t = SocketStatusReleased \<and> lf_attach t = Absent \<and> lf_released t = 1
       \<or> lf_status t = SocketStatusReconnecting \<and> lf_attach t = Searching \<and> lf_released t = 0"
  shows "life_inv t"
  using life_inv_owner(6) [OF inv o(1)] o t by (auto simp: life_inv_def owned_def)

text \<open>A goroutine outside the ownership moves without touching it.\<close>

lemma life_inv_other:
  assumes inv: "life_inv l" and o: "\<not> owns (lf_pc l a)" "\<not> owns x"
  shows "life_inv (at a x l)"
proof -
  have "owned (at a x l) = owned l" using o by (auto simp: owned_def at_def)
  then show ?thesis using assms by (auto simp: life_inv_def at_def)
qed

text \<open>The winner of the compare-and-swap becomes the owner: nobody else was.\<close>

lemma life_inv_valid_status:
  assumes inv: "life_inv l" and v: "isValidStatus (lf_status l)"
  shows "\<not> owned l" "lf_attach l = Absent" "lf_stop l = Some False" "lf_released l = 0"
proof -
  show no: "\<not> owned l"
  proof
    assume "owned l"
    then obtain a where a: "owns (lf_pc l a)" by (auto simp: owned_def)
    then show False
      using life_inv_owner(2) [OF inv a] v
      by (auto simp: owner_status_def isValidStatus_def split: pc.splits)
  qed
  show at: "lf_attach l = Absent"
    using inv v by (auto simp: life_inv_def isValidStatus_def)
  show "lf_stop l = Some False" "lf_released l = 0"
    using inv v no at by (auto simp: life_inv_def isValidStatus_def)
qed

lemma life_inv_win:
  assumes inv: "life_inv l" and v: "isValidStatus (lf_status l)"
  shows "life_inv (at a Won (l\<lparr>lf_status := SocketStatusDisconnect\<rparr>))"
  using life_inv_valid_status [OF inv v] inv
  by (auto simp: life_inv_def at_def owned_def owner_status_def)

lemma life_inv_attach:
  assumes inv: "life_inv l" and at: "lf_attach l \<noteq> Absent"
  shows "\<not> owned l" "lf_status l = SocketStatusReconnecting" "lf_released l = 0" "lf_panics l = 0"
    "lf_attach l = StopSet \<Longrightarrow> lf_stop l = Some False"
  using inv at by (auto simp: life_inv_def owned_def)

lemma life_step_keeps:
  assumes "life_step l t" and inv: "life_inv l"
  shows "life_inv t"
  using assms(1)
proof (cases rule: life_step.cases)
  case (load a b)
  then show ?thesis using inv by (auto intro: life_inv_other)
next
  case (cas_won a st)
  then show ?thesis using inv life_inv_win by simp
next
  case (close_stop a)
  then show ?thesis
    using life_inv_owner [OF inv, of a]
    by (auto intro!: life_inv_move [OF inv, of a StopClosed] simp: at_def owner_status_def)
next
  case (conn_close a)
  then show ?thesis
    using life_inv_owner [OF inv, of a]
    by (auto intro!: life_inv_move [OF inv, of a ConnClosed] simp: at_def owner_status_def)
next
  case (announce a)
  then show ?thesis
    using life_inv_owner [OF inv, of a]
    by (auto intro!: life_inv_move [OF inv, of a Announced] simp: at_def owner_status_def)
next
  case (to_release a)
  then show ?thesis
    using life_inv_owner [OF inv, of a]
    by (auto intro!: life_inv_move [OF inv, of a Releasing] simp: at_def owner_status_def)
next
  case (to_reconnect a)
  then show ?thesis
    using life_inv_owner [OF inv, of a]
    by (auto intro!: life_inv_move [OF inv, of a Restarting] simp: at_def owner_status_def)
next
  case (do_release a)
  then show ?thesis
    using life_inv_owner [OF inv, of a]
    by (auto intro!: life_inv_leave [OF inv, of a "Returned True"] simp: at_def)
next
  case (go_reconnect a)
  then show ?thesis
    using life_inv_owner [OF inv, of a]
    by (auto intro!: life_inv_leave [OF inv, of a "Returned False"] simp: at_def owner_status_def)
next
  case set_conn
  then show ?thesis using life_inv_attach [OF inv] inv by (auto simp: life_inv_def owned_def)
next
  case set_stop
  then show ?thesis using life_inv_attach [OF inv] inv by (auto simp: life_inv_def owned_def)
next
  case set_status
  then show ?thesis using life_inv_attach [OF inv] inv by (auto simp: life_inv_def owned_def)
next
  case give_up
  then show ?thesis using life_inv_attach [OF inv] inv by (auto simp: life_inv_def owned_def)
next
  case close_cas
  then show ?thesis
    using life_inv_valid_status [OF inv] inv by (auto simp: life_inv_def owned_def isValidStatus_def)
next
  case (stop_panics a)
  then show ?thesis using life_inv_owner(3) [OF inv, of a] by simp
qed (use inv in \<open>auto intro: life_inv_other\<close>)

interpretation lf: step_invariant life_step life_inv
  by unfold_locales (rule life_step_keeps)

section \<open>The uninterrupted call\<close>

text \<open>The part of a manager's state that this machine is about, and one goroutine running alone.\<close>

definition life_of :: "nat \<Rightarrow> (nat \<Rightarrow> pc) \<Rightarrow> sockets \<Rightarrow> life" where
  "life_of p pcs s =
     \<lparr>lf_status = sk_status (sock p s), lf_stop = sk_stop (sock p s),
      lf_conn = (sk_conn (sock p s) \<noteq> None), lf_client = (sock_Type (sock p s) = SocketTypeClient),
      lf_pc = pcs, lf_attach = (if TReconnect p \<in> set (ss_tasks s) then Searching else Absent),
      lf_released = (if sk_status (sock p s) = SocketStatusReleased then 1 else 0), lf_panics = 0\<rparr>"

lemma life_steps2: "life_step l m \<Longrightarrow> life_step\<^sup>*\<^sup>* m n \<Longrightarrow> life_step\<^sup>*\<^sup>* l n"
  by (rule converse_rtranclp_into_rtranclp)

lemma run_disconnect:
  assumes "lf_pc l a = Outside" "isValidStatus (lf_status l)" "lf_stop l = Some False"
  shows "life_step\<^sup>*\<^sup>* l (at a Announced (l\<lparr>lf_status := SocketStatusDisconnect, lf_stop := Some True,
    lf_conn := False\<rparr>))"
proof -
  let ?l1 = "at a (Loaded (lf_status l)) l"
  let ?l2 = "at a Won (?l1\<lparr>lf_status := SocketStatusDisconnect\<rparr>)"
  let ?l3 = "at a StopClosed (?l2\<lparr>lf_stop := Some True\<rparr>)"
  let ?l4 = "at a ConnClosed (?l3\<lparr>lf_conn := False\<rparr>)"
  have "life_step l ?l1" using assms(1) by (intro life_step.load [where b = True]) simp
  moreover have "life_step ?l1 ?l2"
    using assms(2) by (intro life_step.cas_won [where st = "lf_status l"]) (simp_all add: at_def)
  moreover have "life_step ?l2 ?l3" using assms(3) by (intro life_step.close_stop) (simp_all add: at_def)
  moreover have "life_step ?l3 ?l4" by (intro life_step.conn_close) (simp add: at_def)
  moreover have "life_step ?l4 (at a Announced ?l4)" by (intro life_step.announce) (simp add: at_def)
  ultimately have "life_step\<^sup>*\<^sup>* l (at a Announced ?l4)" by (meson life_steps2 rtranclp.rtrancl_refl)
  moreover have "at a Announced ?l4 = at a Announced (l\<lparr>lf_status := SocketStatusDisconnect,
      lf_stop := Some True, lf_conn := False\<rparr>)"
    by (simp add: at_def)
  ultimately show ?thesis by simp
qed

lemma run_server:
  assumes "lf_pc l a = Announced" "\<not> lf_client l"
  shows "life_step\<^sup>*\<^sup>* l (at a (Returned True)
    (l\<lparr>lf_status := SocketStatusReleased, lf_released := Suc (lf_released l)\<rparr>))"
proof -
  let ?l1 = "at a Releasing (l\<lparr>lf_status := SocketStatusDisconnected\<rparr>)"
  have "life_step l ?l1" using assms by (rule life_step.to_release)
  moreover have "life_step ?l1 (at a (Returned True)
      (?l1\<lparr>lf_status := SocketStatusReleased, lf_released := Suc (lf_released ?l1)\<rparr>))"
    by (rule life_step.do_release) (simp add: at_def)
  ultimately show ?thesis by (auto simp: at_def intro: life_steps2)
qed

lemma run_client:
  assumes "lf_pc l a = Announced" "lf_client l"
  shows "life_step\<^sup>*\<^sup>* l (at a (Returned False)
    (l\<lparr>lf_status := SocketStatusReconnecting, lf_attach := Searching\<rparr>))"
proof -
  let ?l1 = "at a Restarting (l\<lparr>lf_status := SocketStatusReconnecting\<rparr>)"
  have "life_step l ?l1" using assms by (rule life_step.to_reconnect)
  moreover have "life_step ?l1 (at a (Returned False) (?l1\<lparr>lf_attach := Searching\<rparr>))"
    by (rule life_step.go_reconnect) (simp add: at_def)
  ultimately show ?thesis by (auto simp: at_def intro: life_steps2)
qed

text \<open>What \<open>disconnect\<close> leaves, as this machine sees it.\<close>

lemma life_of_disconnect:
  assumes inv: "ss_inv e s" and k: "ss_heap s p = Some k" and v: "isValidStatus (sk_status k)"
  shows "\<exists>b t. disconnect e p s = (Ok b, t) \<and> life_of p pcs t = (life_of p pcs s)
    \<lparr>lf_stop := Some True, lf_conn := False,
     lf_status := (if lf_client (life_of p pcs s) then SocketStatusReconnecting else SocketStatusReleased),
     lf_attach := (if lf_client (life_of p pcs s) then Searching else Absent),
     lf_released := (if lf_client (life_of p pcs s) then 0 else 1)\<rparr>
    \<and> b = (\<not> lf_client (life_of p pcs s))"
proof -
  note ok = ss_inv_facts(3) [OF inv k]
  obtain c where c: "sk_status k \<in> {SocketStatusConnected, SocketStatusClosing}"
    "sk_stop k = Some False" "sk_conn k = Some c"
    using isValid_ok [OF ok v] by blast
  have "\<not> reconnecting s p" using c k by (auto simp: reconnecting_def)
  then have no: "TReconnect p \<notin> set (ss_tasks s)"
    using ss_inv_facts(4) [OF inv, of p] by (simp add: count_list_0_iff)
  show ?thesis
  proof (cases "sk_address k = []")
    case False
    then show ?thesis
      using disconnect_cut [OF k c, of e] k
      by (auto simp: life_of_def go_start_def sock_Type_def sock_def)
  next
    case True
    let ?s = "cut p c k SocketStatusDisconnected s"
    have cp: "clean_pool e (ss_pool ?s)" using ss_inv_facts(2) [OF inv] by simp
    obtain pool where r: "release e p ?s = (Ok (), released p
        (k\<lparr>sk_status := SocketStatusDisconnected, sk_stop := Some True, sk_conn := None\<rparr>) pool ?s)"
      using release_ok [OF cut_heap ss_inv_facts(1) [OF inv] cp] by blast
    let ?t = "released p
        (k\<lparr>sk_status := SocketStatusDisconnected, sk_stop := Some True, sk_conn := None\<rparr>) pool ?s"
    have "disconnect e p s = (Ok True, ?t)"
      using disconnect_cut [OF k c, of e] True r by (simp add: recovered_def)
    moreover have "ss_tasks ?t = ss_tasks s" by (simp add: released_def)
    ultimately show ?thesis
      using k True no by (auto simp: life_of_def sock_Type_def sock_def released_def)
  qed
qed

section \<open>Properties\<close>

text \<open>
  C30. The call of \<open>disconnect\<close> that \<open>Socket\<close> runs in one piece is a run of these steps by one
  goroutine: the same status, stop channel, connection, reconnection and result come out.
\<close>

theorem disconnect_refines_steps:
  assumes inv: "ss_inv e s" and k: "ss_heap s p = Some k" and v: "isValidStatus (sk_status k)"
    and pc: "pcs a = Outside"
  shows "\<exists>b t. disconnect e p s = (Ok b, t)
    \<and> life_step\<^sup>*\<^sup>* (life_of p pcs s) (life_of p (pcs(a := Returned b)) t)"
proof -
  obtain b t where t: "disconnect e p s = (Ok b, t)" and l: "life_of p pcs t = (life_of p pcs s)
    \<lparr>lf_stop := Some True, lf_conn := False,
     lf_status := (if lf_client (life_of p pcs s) then SocketStatusReconnecting else SocketStatusReleased),
     lf_attach := (if lf_client (life_of p pcs s) then Searching else Absent),
     lf_released := (if lf_client (life_of p pcs s) then 0 else 1)\<rparr>"
    and b: "b = (\<not> lf_client (life_of p pcs s))"
    using life_of_disconnect [OF assms(1-3), of pcs] by blast
  let ?l = "life_of p pcs s"
  have st: "lf_pc ?l a = Outside" "isValidStatus (lf_status ?l)" "lf_stop ?l = Some False"
    "lf_attach ?l = Absent" "lf_released ?l = 0"
  proof -
    obtain c where c: "sk_status k \<in> {SocketStatusConnected, SocketStatusClosing}" "sk_stop k = Some False"
      using isValid_ok [OF ss_inv_facts(3) [OF inv k] v] by blast
    have "\<not> reconnecting s p" using c k by (auto simp: reconnecting_def)
    then have "TReconnect p \<notin> set (ss_tasks s)"
      using ss_inv_facts(4) [OF inv, of p] by (simp add: count_list_0_iff)
    then show "lf_pc ?l a = Outside" "isValidStatus (lf_status ?l)" "lf_stop ?l = Some False"
      "lf_attach ?l = Absent" "lf_released ?l = 0"
      using k v c pc by (auto simp: life_of_def)
  qed
  have same: "life_of p (pcs(a := x)) t = at a x (life_of p pcs t)" for x
    by (simp add: life_of_def at_def)
  let ?m = "at a Announced (?l\<lparr>lf_status := SocketStatusDisconnect, lf_stop := Some True, lf_conn := False\<rparr>)"
  have m: "lf_pc ?m a = Announced" "lf_client ?m = lf_client ?l" by (simp_all add: at_def)
  have "life_step\<^sup>*\<^sup>* ?l (at a (Returned b) (life_of p pcs t))"
  proof (cases "lf_client ?l")
    case True
    have "at a (Returned False) (?m\<lparr>lf_status := SocketStatusReconnecting, lf_attach := Searching\<rparr>)
        = at a (Returned b) (life_of p pcs t)"
      using True b st by (intro life.equality) (simp_all add: l at_def)
    then show ?thesis
      using rtranclp_trans [OF run_disconnect [OF st(1-3)] run_client [OF m(1)]] m(2) True by simp
  next
    case False
    have "at a (Returned True) (?m\<lparr>lf_status := SocketStatusReleased, lf_released := Suc (lf_released ?m)\<rparr>)
        = at a (Returned b) (life_of p pcs t)"
      using False b st by (intro life.equality) (simp_all add: l at_def)
    then show ?thesis
      using rtranclp_trans [OF run_disconnect [OF st(1-3)] run_server [OF m(1)]] m(2) False by simp
  qed
  then show ?thesis using t same by auto
qed

theorem disconnect_refines_steps_witness:
  "\<exists>b t s p. ss_inv sample_env s \<and> disconnect sample_env p s = (Ok b, t)
    \<and> life_step\<^sup>*\<^sup>* (life_of p (\<lambda>_. Outside) s) (life_of p ((\<lambda>_. Outside)(3 := Returned b)) t)"
proof -
  let ?n = "sockets_New Config_default"
  have n: "ss_inv sample_env ?n" "ss_index ?n \<noteq> - 1" by (simp add: ss_inv_New, simp add: sockets_New_def)
  have c: "Create False 5 ?n = (Ok 0, created 5 ?n)"
    by (subst Create_ok) (simp_all add: sockets_New_def Config_default_def)
  have i: "ss_inv sample_env (created 5 ?n)" by (rule Create_keeps [OF n c])
  have h: "ss_heap (created 5 ?n) 0 = Some ((fresh_socket 1 100)\<lparr>sk_conn := Some 5, sk_stop := Some False,
      sk_status := SocketStatusConnected, sk_heartbeat := 0\<rparr>)"
    by (simp add: created_def go_start_def sockets_New_def Config_default_def Let_def)
  have v: "isValidStatus (sk_status ((fresh_socket 1 100)\<lparr>sk_conn := Some 5, sk_stop := Some False,
      sk_status := SocketStatusConnected, sk_heartbeat := 0\<rparr>))"
    by (simp add: isValidStatus_def)
  obtain b t where d: "disconnect sample_env 0 (created 5 ?n) = (Ok b, t)"
      "life_step\<^sup>*\<^sup>* (life_of 0 (\<lambda>_. Outside) (created 5 ?n)) (life_of 0 ((\<lambda>_. Outside)(3 := Returned b)) t)"
    using disconnect_refines_steps [OF i h v, where pcs = "\<lambda>_. Outside" and a = 3] by metis
  show ?thesis
    by (rule exI [of _ b], rule exI [of _ t], rule exI [of _ "created 5 ?n"], rule exI [of _ 0])
      (intro conjI i d)
qed

text \<open>
  C6. However the goroutines of a connected socket interleave: no \<open>disconnect\<close> panics by closing the
  stop channel twice, at most one goroutine is past the compare-and-swap at any time, the socket is
  released at most once and exactly when its status says so, and while its status is one in which
  it may be used its stop channel is open.
\<close>

theorem concurrent_disconnects_are_safe:
  assumes "life_step\<^sup>*\<^sup>* (connected_life cl) l"
  shows "lf_panics l = 0
    \<and> (\<forall>a b. owns (lf_pc l a) \<and> owns (lf_pc l b) \<longrightarrow> a = b)
    \<and> lf_released l = (if lf_status l = SocketStatusReleased then 1 else 0)
    \<and> (isValidStatus (lf_status l) \<longrightarrow> lf_stop l = Some False)"
proof -
  have i: "life_inv l" by (rule lf.run_keeps [OF assms life_inv_connected])
  have "isValidStatus (lf_status l) \<longrightarrow> lf_stop l = Some False"
    using life_inv_valid_status(3) [OF i] by blast
  moreover note c = i [unfolded life_inv_def]
  note c [THEN conjunct1] c [THEN conjunct2, THEN conjunct1]
    c [THEN conjunct2, THEN conjunct2, THEN conjunct2, THEN conjunct2, THEN conjunct2, THEN conjunct2]
  ultimately show ?thesis by (intro conjI)
qed

lemma sample_life_step: "life_step (connected_life False) (at 0 (Loaded SocketStatusConnected) (connected_life False))"
  using life_step.load [of "connected_life False" 0 True] by (simp add: connected_life_def)

theorem concurrent_disconnects_are_safe_witness:
  "lf_panics (at 0 (Loaded SocketStatusConnected) (connected_life False)) = 0"
  using concurrent_disconnects_are_safe [OF r_into_rtranclp [where r = life_step, OF sample_life_step]] by blast

definition creating_life :: life where
  "creating_life = (connected_life False)\<lparr>lf_status := SocketStatusNone, lf_attach := StopSet\<rparr>"

text \<open>
  Before \<open>connect\<close> has finished the guarantee does not hold: a new socket is in the table with the
  status none, which counts as valid, so a heartbeat beyond the timeout can disconnect and release
  it between the store of its stop channel and the store of its status. The latter then revives a
  socket that is released and whose stop channel is closed.
\<close>

theorem early_heartbeat_revives_released:
  "\<exists>l. life_step\<^sup>*\<^sup>* creating_life l \<and> lf_status l = SocketStatusConnected \<and> lf_released l = 1
    \<and> lf_stop l = Some True \<and> \<not> lf_conn l"
proof -
  have s: "lf_pc creating_life 0 = Outside" "isValidStatus (lf_status creating_life)"
    "lf_stop creating_life = Some False"
    by (simp_all add: creating_life_def connected_life_def isValidStatus_def)
  let ?m = "at 0 Announced (creating_life\<lparr>lf_status := SocketStatusDisconnect, lf_stop := Some True,
    lf_conn := False\<rparr>)"
  have m: "lf_pc ?m 0 = Announced" "\<not> lf_client ?m"
    by (simp_all add: at_def creating_life_def connected_life_def)
  let ?r = "at 0 (Returned True) (?m\<lparr>lf_status := SocketStatusReleased, lf_released := Suc (lf_released ?m)\<rparr>)"
  let ?f = "?r\<lparr>lf_status := SocketStatusConnected, lf_attach := Absent\<rparr>"
  have "life_step ?r ?f"
    by (rule life_step.set_status) (simp add: at_def creating_life_def)
  then have "life_step\<^sup>*\<^sup>* creating_life ?f"
    by (rule rtranclp.rtrancl_into_rtrancl [OF rtranclp_trans [OF run_disconnect [OF s] run_server [OF m]]])
  moreover have "lf_status ?f = SocketStatusConnected" "lf_released ?f = 1" "lf_stop ?f = Some True" "\<not> lf_conn ?f"
    by (simp_all add: at_def creating_life_def connected_life_def)
  ultimately show ?thesis by blast
qed

end
