(* ===== verification/Heartbeats.thy ===== *)
theory Heartbeats
  imports SocketProperties
begin

text \<open>
  The heartbeat of the whole manager and the daemon that drives it: one beat is the same function
  on every socket of the table, whatever the order in which the map enumerates them, and the
  daemon's beats release an idle socket after a number of ticks that the options give.
\<close>

section \<open>One beat, socket by socket\<close>

text \<open>What a beat makes of a socket.\<close>

definition expired :: "config \<Rightarrow> socket \<Rightarrow> bool" where
  "expired opt k \<longleftrightarrow>
     0 < sint (SocketConnectTime opt) \<and> sint (SocketConnectTime opt) < sint (sk_heartbeat k)"

definition lost :: "socket \<Rightarrow> socket" where
  "lost k =
     (if sock_Type k = SocketTypeClient
      then k\<lparr>sk_status := SocketStatusReconnecting, sk_stop := Some True, sk_conn := None\<rparr>
      else k\<lparr>sk_stop := Some True, sk_conn := None, sk_status := SocketStatusReleased,
             sk_data := None, sk_cwrite := (sk_cwrite k)\<lparr>items := []\<rparr>\<rparr>)"

definition beaten :: "config \<Rightarrow> i32 \<Rightarrow> socket \<Rightarrow> socket" where
  "beaten opt v k =
     (if isValidStatus (sk_status k) then
        let k = k\<lparr>sk_heartbeat := sk_heartbeat k + v\<rparr> in if expired opt k then lost k else k
      else k)"

lemma beaten_id [simp]: "sk_id (beaten opt v k) = sk_id k"
  by (simp add: beaten_def lost_def Let_def)

lemma beaten_released:
  "sk_status k = SocketStatusReleased \<Longrightarrow> beaten opt v k = k"
  by (simp add: beaten_def isValidStatus_def)

lemma disconnect_lost:
  assumes inv: "ss_inv e s" and k: "ss_heap s p = Some k" and v: "isValidStatus (sk_status k)"
  shows "\<exists>b t. disconnect e p s = (Ok b, t) \<and> ss_heap t = (ss_heap s)(p \<mapsto> lost k)
    \<and> gl_opts t = gl_opts s \<and> ss_opts t = ss_opts s \<and> ss_index t = ss_index s"
proof -
  note ok = ss_inv_facts(3) [OF inv k]
  obtain c where c: "sk_status k \<in> {SocketStatusConnected, SocketStatusClosing}"
    "sk_stop k = Some False" "sk_conn k = Some c"
    using isValid_ok [OF ok v] by blast
  show ?thesis
  proof (cases "sk_address k = []")
    case False
    then show ?thesis
      using disconnect_cut [OF k c, of e]
      by (auto simp: cut_def go_start_def lost_def sock_Type_def sock_Emit_def Emit_def)
  next
    case True
    let ?s = "cut p c k SocketStatusDisconnected s"
    have cp: "clean_pool e (ss_pool ?s)" using ss_inv_facts(2) [OF inv] by simp
    obtain pool where r: "release e p ?s = (Ok (), released p
        (k\<lparr>sk_status := SocketStatusDisconnected, sk_stop := Some True, sk_conn := None\<rparr>) pool ?s)"
      using release_ok [OF cut_heap ss_inv_facts(1) [OF inv] cp] by blast
    then show ?thesis
      using disconnect_cut [OF k c, of e] True
      by (auto simp: recovered_def released_def cut_def lost_def sock_Type_def sock_Emit_def Emit_def)
  qed
qed

lemma Heartbeat_beaten:
  assumes inv: "ss_inv e s" and k: "ss_heap s p = Some k"
  shows "\<exists>h t. sock_Heartbeat e v p s = (Ok h, t)
    \<and> ss_heap t = (ss_heap s)(p \<mapsto> beaten (gl_opts s) v k) \<and> gl_opts t = gl_opts s
    \<and> ss_opts t = ss_opts s \<and> ss_index t = ss_index s \<and> ss_inv e t"
proof (cases "isValidStatus (sk_status k)")
  case False
  then show ?thesis
    using k inv by (simp add: sock_Heartbeat_def beaten_def fun_upd_idem)
next
  case True
  let ?k = "k\<lparr>sk_heartbeat := sk_heartbeat k + v\<rparr>"
  let ?s = "upd p (\<lambda>k. k\<lparr>sk_heartbeat := sk_heartbeat k + v\<rparr>) s"
  have u: "ss_inv e ?s" using inv by (auto intro!: upd_keeps)
  have ku: "ss_heap ?s p = Some ?k" using k by (simp add: upd_def)
  have keep: "gl_opts ?s = gl_opts s" "ss_opts ?s = ss_opts s" "ss_index ?s = ss_index s"
    "ss_heap ?s = (ss_heap s)(p \<mapsto> ?k)" using k by (simp_all add: upd_def)
  show ?thesis
  proof (cases "expired (gl_opts s) ?k")
    case False
    then have "sock_Heartbeat e v p s = (Ok (sk_heartbeat k + v), sock_Emit EventTypeHeartbeat [AInt v] p ?s)"
      by (intro Heartbeat_under [OF k True]) (simp add: expired_def)
    then show ?thesis
      using False True keep u
      by (simp add: beaten_def sock_Emit_def Emit_def Let_def del: sock_Some)
  next
    case over: True
    have vu: "isValidStatus (sk_status ?k)" using True by simp
    obtain b t where t: "disconnect e p ?s = (Ok b, t)" "ss_heap t = (ss_heap ?s)(p \<mapsto> lost ?k)"
      "gl_opts t = gl_opts ?s" "ss_opts t = ss_opts ?s" "ss_index t = ss_index ?s"
      using disconnect_lost [OF u ku vu] by blast
    have "ss_inv e t" by (rule disconnect_keeps [OF u ku t(1)])
    moreover have "sock_Heartbeat e v p s = (Ok (sk_heartbeat (sock p t)), t)"
      using Heartbeat_over [OF inv k True, of v] over t(1) by (simp add: expired_def)
    ultimately show ?thesis
      using over True t keep by (simp add: beaten_def Let_def)
  qed
qed

text \<open>
  \<open>Close\<close> does not wait for the queue: the state it sets is documented as waiting until the messages
  in the channel are sent, but the next beat disconnects a server's socket whatever the write loop
  has left, and the messages go back to the pool.
\<close>

theorem closing_drops_queue:
  assumes inv: "ss_inv e s" and k: "ss_heap s p = Some k" "sk_status k = SocketStatusConnected" "sk_address k = []"
    and T: "0 < sint (SocketConnectTime (gl_opts s))" and v: "0 < sint v"
      "sint (SocketConnectTime (gl_opts s)) + sint v < 2 ^ 31"
  shows "\<exists>h t k'. items (sk_cwrite (sock p (Close p [] s))) = items (sk_cwrite k)
    \<and> sock_Heartbeat e v p (Close p [] s) = (Ok h, t) \<and> ss_heap t p = Some k'
    \<and> sk_status k' = SocketStatusReleased \<and> items (sk_cwrite k') = []"
proof -
  let ?k = "k\<lparr>sk_status := SocketStatusClosing, sk_heartbeat := SocketConnectTime (gl_opts s)\<rparr>"
  have c: "ss_heap (Close p [] s) p = Some ?k" "gl_opts (Close p [] s) = gl_opts s"
    using k by (simp_all add: Close_def upd_def Let_def)
  have "sint (SocketConnectTime (gl_opts s) + v) = sint (SocketConnectTime (gl_opts s)) + sint v"
    using T v by (intro sint_plus) simp_all
  then have b: "sk_status (beaten (gl_opts s) v ?k) = SocketStatusReleased \<and> items (sk_cwrite (beaten (gl_opts s) v ?k)) = []"
    using k(3) T v by (simp add: beaten_def isValidStatus_def expired_def lost_def sock_Type_def Let_def)
  obtain h t where "sock_Heartbeat e v p (Close p [] s) = (Ok h, t)"
    "ss_heap t = (ss_heap (Close p [] s))(p \<mapsto> beaten (gl_opts s) v ?k)"
    using Heartbeat_beaten [OF Close_keeps [OF inv k(1)] c(1), of v] unfolding c(2) by blast
  then show ?thesis using c(1) b by simp
qed

section \<open>One beat of the whole table\<close>

lemma sockets_Heartbeat_Cons:
  "sockets_Heartbeat e v [] s = (Ok (), s)"
  "sockets_Heartbeat e v (i # ids) s = (case ss_sockets s i of None \<Rightarrow> sockets_Heartbeat e v ids s
     | Some p \<Rightarrow> and_then (sock_Heartbeat e v p s) (\<lambda>_ s. sockets_Heartbeat e v ids s))"
  by (simp_all add: sockets_Heartbeat_def and_then_assoc split: option.split)

lemma table_heap:
  assumes "ss_inv e s" "ss_sockets s i = Some p"
  obtains k where "ss_heap s p = Some k" "sk_id k = i"
  using assms unfolding ss_inv_def table_inv_def by blast

lemma sockets_Heartbeat_heap:
  "ss_inv e s \<Longrightarrow> distinct order \<Longrightarrow>
   \<exists>t. sockets_Heartbeat e v order s = (Ok (), t) \<and> gl_opts t = gl_opts s \<and> ss_opts t = ss_opts s
     \<and> ss_index t = ss_index s \<and> ss_inv e t
     \<and> ss_heap t = (\<lambda>q. map_option (\<lambda>k. if sk_id k \<in> set order then beaten (gl_opts s) v k else k)
          (ss_heap s q))"
proof (induction order arbitrary: s)
  case Nil
  then show ?case by (simp add: sockets_Heartbeat_Cons option.map_ident)
next
  case (Cons i ids)
  show ?case
  proof (cases "ss_sockets s i")
    case None
    have dead: "sk_status k = SocketStatusReleased" if "ss_heap s q = Some k" "sk_id k = i" for q k
      using live_in_table [OF Cons.prems(1) that(1)] that(2) None by auto
    have "map_option (\<lambda>k. if sk_id k \<in> set ids then beaten (gl_opts s) v k else k) (ss_heap s q)
        = map_option (\<lambda>k. if sk_id k \<in> set (i # ids) then beaten (gl_opts s) v k else k) (ss_heap s q)" for q
      using dead by (cases "ss_heap s q") (auto simp: beaten_released)
    then show ?thesis
      using Cons.IH [OF Cons.prems(1)] Cons.prems(2) None by (simp add: sockets_Heartbeat_Cons)
  next
    case (Some p)
    obtain k where k: "ss_heap s p = Some k" "sk_id k = i" by (rule table_heap [OF Cons.prems(1) Some])
    obtain h u where u: "sock_Heartbeat e v p s = (Ok h, u)"
      "ss_heap u = (ss_heap s)(p \<mapsto> beaten (gl_opts s) v k)" "gl_opts u = gl_opts s"
      "ss_opts u = ss_opts s" "ss_index u = ss_index s" "ss_inv e u"
      using Heartbeat_beaten [OF Cons.prems(1) k(1), of v] by blast
    obtain t where t: "sockets_Heartbeat e v ids u = (Ok (), t)" "gl_opts t = gl_opts u"
      "ss_opts t = ss_opts u" "ss_index t = ss_index u" "ss_inv e t"
      "ss_heap t = (\<lambda>q. map_option (\<lambda>k. if sk_id k \<in> set ids then beaten (gl_opts u) v k else k)
          (ss_heap u q))"
      using Cons.IH [OF u(6)] Cons.prems(2) by auto
    have other: "sk_status k' = SocketStatusReleased"
      if "ss_heap s q = Some k'" "sk_id k' = i" "q \<noteq> p" for q k'
      using live_in_table [OF Cons.prems(1) that(1)] that(2,3) Some by auto
    have "ss_heap t q = map_option (\<lambda>k. if sk_id k \<in> set (i # ids) then beaten (gl_opts s) v k else k)
        (ss_heap s q)" for q
    proof (cases "q = p")
      case True
      then show ?thesis using t(6) u(2,3) k Cons.prems(2) by simp
    next
      case False
      then show ?thesis
        using t(6) u(2,3) other [of q] by (cases "ss_heap s q") (auto simp: beaten_released)
    qed
    then show ?thesis using t u Some by (simp add: sockets_Heartbeat_Cons fun_eq_iff)
  qed
qed

text \<open>The heap determines the table and the counter.\<close>

lemma table_by_heap:
  assumes "ss_inv e t" "ss_inv e u" "ss_heap u = ss_heap t"
  shows "ss_sockets u = ss_sockets t \<and> ss_count u = ss_count t"
proof -
  have "ss_sockets u i = Some p \<longleftrightarrow> ss_sockets t i = Some p" for i p
    using assms unfolding ss_inv_def table_inv_def by simp
  then have "ss_sockets u i = ss_sockets t i" for i
    by (metis not_None_eq)
  then have "ss_sockets u = ss_sockets t" by (rule ext)
  then show ?thesis using assms by (simp add: ss_inv_def count_inv_def)
qed

text \<open>An enumeration of the table: every id once. Go does not say in which order.\<close>

definition enumerates :: "u64 list \<Rightarrow> sockets \<Rightarrow> bool" where
  "enumerates order s \<longleftrightarrow> distinct order \<and> set order = dom (ss_sockets s)"

lemma enumerates_all:
  assumes "ss_inv e s" "enumerates order s"
  shows "map_option (\<lambda>k. if sk_id k \<in> set order then beaten opt v k else k) (ss_heap s q)
    = map_option (beaten opt v) (ss_heap s q)"
proof (cases "ss_heap s q")
  case (Some k)
  show ?thesis
  proof (cases "sk_status k = SocketStatusReleased")
    case False
    then have "sk_id k \<in> set order"
      using live_in_table [OF assms(1) Some] assms(2) by (auto simp: enumerates_def)
    then show ?thesis using Some by simp
  qed (simp add: Some beaten_released)
qed simp

text \<open>
  C25. A beat of the manager is one function applied to every socket, in any enumeration of the
  table: each live socket's counter grows by the same amount exactly once, the ones beyond the
  timeout are lost (a server's is released, a client's reconnects), no other socket changes, and
  the table and the counter come out the same whatever the order.
\<close>

theorem Heartbeat_beats_every_socket:
  assumes inv: "ss_inv e s" and order: "enumerates order s"
  shows "\<exists>t. sockets_Heartbeat e v order s = (Ok (), t)
    \<and> ss_heap t = (\<lambda>p. map_option (beaten (gl_opts s) v) (ss_heap s p))
    \<and> (\<forall>order'. enumerates order' s \<longrightarrow> (\<exists>t'. sockets_Heartbeat e v order' s = (Ok (), t')
        \<and> ss_heap t' = ss_heap t \<and> ss_sockets t' = ss_sockets t \<and> ss_count t' = ss_count t))"
proof -
  have beat: "\<exists>t. sockets_Heartbeat e v ids s = (Ok (), t) \<and> ss_inv e t
      \<and> ss_heap t = (\<lambda>p. map_option (beaten (gl_opts s) v) (ss_heap s p))" if ids: "enumerates ids s" for ids
  proof -
    have "distinct ids" using ids by (simp add: enumerates_def)
    from sockets_Heartbeat_heap [OF inv this, of v] show ?thesis
      using enumerates_all [OF inv ids] by auto
  qed
  have same: "ss_sockets t' = ss_sockets t \<and> ss_count t' = ss_count t"
    if "ss_inv e t" "ss_inv e t'" "ss_heap t' = ss_heap t" for t t'
    by (rule table_by_heap [OF that])
  obtain t where t: "sockets_Heartbeat e v order s = (Ok (), t)" "ss_inv e t"
      "ss_heap t = (\<lambda>p. map_option (beaten (gl_opts s) v) (ss_heap s p))"
    using beat [OF order] by blast
  have "\<exists>t'. sockets_Heartbeat e v order' s = (Ok (), t') \<and> ss_heap t' = ss_heap t
      \<and> ss_sockets t' = ss_sockets t \<and> ss_count t' = ss_count t" if "enumerates order' s" for order'
    using beat [OF that] same [OF t(2)] t(3) by metis
  then show ?thesis using t by blast
qed

lemma sample_manager_table: "ss_sockets sample_manager = [1 \<mapsto> 0]"
  by (simp add: sample_manager_eq created_def sockets_New_def go_start_def sock_Emit_def Let_def)

theorem Heartbeat_beats_every_socket_witness:
  "\<exists>t. sockets_Heartbeat sample_env 31 [1] sample_manager = (Ok (), t)
    \<and> sk_status (sock 0 t) = SocketStatusReleased"
proof -
  have "enumerates [1] sample_manager" by (simp add: enumerates_def sample_manager_table)
  from Heartbeat_beats_every_socket [OF sample_manager_inv this, of 31] show ?thesis
    by (auto simp: sock_def sample_manager_heap sample_manager_opts Config_default_def beaten_def
        isValidStatus_def expired_def lost_def sock_Type_def fresh_socket_def)
qed

section \<open>The daemon\<close>

text \<open>
  \<open>daemon\<close> waits for the context or its timer, which is set again after every beat. The events
  are given in the order in which the \<open>select\<close> takes them, a tick with the order in which the
  map enumerates the table it finds; without a further event the daemon waits. With the option
  \<open>Heartbeat\<close> zero it does not start.
\<close>

datatype daemon_event = CtxDone | Tick "sockets \<Rightarrow> u64 list"

fun daemon_loop :: "env \<Rightarrow> daemon_event list \<Rightarrow> sockets \<Rightarrow> (unit, sockets) run" where
  "daemon_loop e [] s = (Blocked, s)"
| "daemon_loop e (CtxDone # evs) s = (Ok (), s)"
| "daemon_loop e (Tick ord # evs) s =
     and_then (sockets_Heartbeat e (Heartbeat (ss_opts s)) (ord s) s) (\<lambda>_ s. daemon_loop e evs s)"

definition daemon :: "env \<Rightarrow> daemon_event list \<Rightarrow> sockets \<Rightarrow> (unit, sockets) run" where
  "daemon e evs s = (if Heartbeat (ss_opts s) = 0 then (Ok (), s) else daemon_loop e evs s)"

lemma daemon_loop_heap:
  "ss_inv e s \<Longrightarrow> \<forall>ord \<in> set ords. \<forall>s. enumerates (ord s) s \<Longrightarrow>
   \<exists>t. daemon_loop e (map Tick ords @ [CtxDone]) s = (Ok (), t) \<and> ss_inv e t
     \<and> ss_heap t = (\<lambda>p. map_option (beaten (gl_opts s) (Heartbeat (ss_opts s)) ^^ length ords) (ss_heap s p))"
proof (induction ords arbitrary: s)
  case Nil
  then show ?case by (simp add: option.map_ident)
next
  case (Cons ord ords)
  have en: "enumerates (ord s) s" using Cons.prems(2) by simp
  then have "distinct (ord s)" by (simp add: enumerates_def)
  from sockets_Heartbeat_heap [OF Cons.prems(1) this, of "Heartbeat (ss_opts s)"] obtain u
    where u: "sockets_Heartbeat e (Heartbeat (ss_opts s)) (ord s) s = (Ok (), u)" "gl_opts u = gl_opts s"
      "ss_opts u = ss_opts s" "ss_inv e u"
      "ss_heap u = (\<lambda>p. map_option (beaten (gl_opts s) (Heartbeat (ss_opts s))) (ss_heap s p))"
    unfolding enumerates_all [OF Cons.prems(1) en] by blast
  from Cons.IH [OF u(4)] Cons.prems(2) u(2,3) show ?case
    by (auto simp: u(1) u(5) option.map_comp funpow_swap1 comp_def)
qed

lemma beaten_once:
  assumes "isValidStatus (sk_status k)" and "0 < T" "T = sint (SocketConnectTime opt)"
    and "sint (sk_heartbeat k + v) = h"
  shows "beaten opt v k = (let k = k\<lparr>sk_heartbeat := sk_heartbeat k + v\<rparr> in if h \<le> T then k else lost k)"
  using assms by (auto simp: beaten_def expired_def Let_def)

lemma beaten_lost [simp]: "beaten opt v (lost k) = lost k"
  by (simp add: beaten_def lost_def isValidStatus_def)

text \<open>A socket that receives nothing, beat by beat.\<close>

lemma beaten_idle:
  assumes k: "sk_status k = SocketStatusConnected"
    and h: "0 \<le> sint (sk_heartbeat k)" "sint (sk_heartbeat k) \<le> sint (SocketConnectTime opt)"
    and v: "0 < sint v" "sint (SocketConnectTime opt) + sint v < 2 ^ 31"
    and on: "0 < sint (SocketConnectTime opt)"
  shows "\<exists>h. (beaten opt v ^^ n) k =
    (if sint (sk_heartbeat k) + int n * sint v \<le> sint (SocketConnectTime opt)
     then k\<lparr>sk_heartbeat := h\<rparr> else lost (k\<lparr>sk_heartbeat := h\<rparr>))
    \<and> (sint (sk_heartbeat k) + int n * sint v \<le> sint (SocketConnectTime opt) \<longrightarrow>
         sint h = sint (sk_heartbeat k) + int n * sint v)"
proof (induction n)
  case 0
  then show ?case using h by (intro exI [of _ "sk_heartbeat k"]) simp
next
  case (Suc n)
  let ?T = "sint (SocketConnectTime opt)" and ?h = "sint (sk_heartbeat k)"
  obtain x where x: "(beaten opt v ^^ n) k = (if ?h + int n * sint v \<le> ?T then k\<lparr>sk_heartbeat := x\<rparr>
      else lost (k\<lparr>sk_heartbeat := x\<rparr>))" "?h + int n * sint v \<le> ?T \<longrightarrow> sint x = ?h + int n * sint v"
    using Suc.IH by blast
  have pos: "0 \<le> int n * sint v" using v by (intro mult_nonneg_nonneg) simp_all
  show ?case
  proof (cases "?h + int n * sint v \<le> ?T")
    case False
    then have "\<not> ?h + int (Suc n) * sint v \<le> ?T" using v by (simp add: algebra_simps)
    then show ?thesis using x False by (intro exI [of _ x]) simp
  next
    case True
    have sx: "sint x = ?h + int n * sint v" using x(2) True by simp
    moreover have "sint (x + v) = sint x + sint v"
      using sx True v h pos by (intro sint_plus) linarith+
    ultimately have s: "sint (x + v) = ?h + int (Suc n) * sint v" by (simp add: algebra_simps)
    have "isValidStatus (sk_status (k\<lparr>sk_heartbeat := x\<rparr>))" using k by (simp add: isValidStatus_def)
    from beaten_once [OF this on refl, of v] s show ?thesis
      using x True by (intro exI [of _ "x + v"]) (simp add: Let_def)
  qed
qed

lemma beaten_steps_id [simp]: "sk_id ((beaten opt v ^^ n) k) = sk_id k"
  by (induction n) simp_all

lemma beaten_steps_released: "sk_status k = SocketStatusReleased \<Longrightarrow> (beaten opt v ^^ n) k = k"
  by (induction n) (simp_all add: beaten_released)

lemma beaten_table:
  assumes inv: "ss_inv e s" "ss_inv e t"
    and heap: "ss_heap t = (\<lambda>p. map_option (beaten opt v ^^ n) (ss_heap s p))"
    and k: "ss_heap s p = Some k" "sk_status k \<noteq> SocketStatusReleased" "ss_heap t p = Some k'"
  shows "sockets_Get (sk_id k) t = (if sk_status k' = SocketStatusReleased then None else Some p)"
proof (cases "sk_status k' = SocketStatusReleased")
  case False
  have "sk_id k' = sk_id k" using heap k by auto
  then show ?thesis using live_in_table [OF inv(2) k(3) False] False by (simp add: sockets_Get_def)
next
  case True
  have "ss_sockets t (sk_id k) \<noteq> Some q" for q
  proof
    assume q: "ss_sockets t (sk_id k) = Some q"
    then obtain kt where kt: "ss_heap t q = Some kt" "sk_id kt = sk_id k" "sk_status kt \<noteq> SocketStatusReleased"
      using inv(2) unfolding ss_inv_def table_inv_def by blast
    then obtain ks where ks: "ss_heap s q = Some ks" "kt = (beaten opt v ^^ n) ks" using heap by auto
    then have "sk_status ks \<noteq> SocketStatusReleased" using kt(3) beaten_steps_released by metis
    then have "ss_sockets s (sk_id k) = Some q" using live_in_table [OF inv(1) ks(1)] kt(2) ks(2) by simp
    then have "q = p" using live_in_table [OF inv(1) k(1,2)] by simp
    then show False using kt(1,3) k(3) True by simp
  qed
  then show ?thesis using True by (auto simp: sockets_Get_def)
qed

text \<open>
  C32. The daemon finds dead connections: with a timeout and a period, a connected server socket
  that receives nothing stays, and counts every tick, as long as the ticks do not add up to more
  than the timeout; after the first tick beyond it the socket is released, without connection,
  and gone from the table, whatever else the manager holds and in whatever order it is visited.
\<close>

theorem daemon_releases_idle:
  assumes inv: "ss_inv e s" and k: "ss_heap s p = Some k" "sk_status k = SocketStatusConnected"
      "sock_Type k = SocketTypeServer"
    and h: "0 \<le> sint (sk_heartbeat k)" "sint (sk_heartbeat k) \<le> sint (SocketConnectTime (gl_opts s))"
    and v: "0 < sint (Heartbeat (ss_opts s))" "0 < sint (SocketConnectTime (gl_opts s))"
      "sint (SocketConnectTime (gl_opts s)) + sint (Heartbeat (ss_opts s)) < 2 ^ 31"
    and ords: "\<forall>ord \<in> set ords. \<forall>s. enumerates (ord s) s"
  shows "\<exists>t k'. daemon e (map Tick ords @ [CtxDone]) s = (Ok (), t) \<and> ss_heap t p = Some k'
    \<and> (if sint (sk_heartbeat k) + int (length ords) * sint (Heartbeat (ss_opts s))
          \<le> sint (SocketConnectTime (gl_opts s))
       then sk_status k' = SocketStatusConnected \<and> sockets_Get (sk_id k) t = Some p
         \<and> sint (sk_heartbeat k')
             = sint (sk_heartbeat k) + int (length ords) * sint (Heartbeat (ss_opts s))
       else sk_status k' = SocketStatusReleased \<and> sk_conn k' = None \<and> sockets_Get (sk_id k) t = None)"
proof -
  obtain t where t: "daemon_loop e (map Tick ords @ [CtxDone]) s = (Ok (), t)" "ss_inv e t"
    "ss_heap t = (\<lambda>p. map_option (beaten (gl_opts s) (Heartbeat (ss_opts s)) ^^ length ords) (ss_heap s p))"
    using daemon_loop_heap [OF inv ords] by blast
  obtain x where x: "(beaten (gl_opts s) (Heartbeat (ss_opts s)) ^^ length ords) k =
      (if sint (sk_heartbeat k) + int (length ords) * sint (Heartbeat (ss_opts s))
          \<le> sint (SocketConnectTime (gl_opts s))
       then k\<lparr>sk_heartbeat := x\<rparr> else lost (k\<lparr>sk_heartbeat := x\<rparr>))"
    "sint (sk_heartbeat k) + int (length ords) * sint (Heartbeat (ss_opts s))
        \<le> sint (SocketConnectTime (gl_opts s)) \<longrightarrow>
      sint x = sint (sk_heartbeat k) + int (length ords) * sint (Heartbeat (ss_opts s))"
    using beaten_idle [OF k(2) h v(1,3,2), of "length ords"] by blast
  have gone: "sockets_Get (sk_id k) t = (if sk_status k' = SocketStatusReleased then None else Some p)"
    if "ss_heap t p = Some k'" for k'
    by (rule beaten_table [OF inv t(2,3) k(1) _ that]) (simp add: k(2))
  have "Heartbeat (ss_opts s) \<noteq> 0" using v(1) by auto
  then show ?thesis
    using t(1,3) x k gone by (auto simp: daemon_def lost_def sock_Type_def)
qed

text \<open>The table in the order of its ids.\<close>

definition by_id :: "sockets \<Rightarrow> u64 list" where
  "by_id s = sorted_list_of_set (dom (ss_sockets s))"

lemma enumerates_by_id: "enumerates (by_id s) s"
  by (simp add: enumerates_def by_id_def)

theorem daemon_releases_idle_witness:
  "\<exists>t k'. daemon sample_env (map Tick (replicate 4 by_id) @ [CtxDone]) sample_manager = (Ok (), t)
    \<and> ss_heap t 0 = Some k' \<and> sk_status k' = SocketStatusReleased \<and> sockets_Get 1 t = None"
proof -
  have o: "gl_opts sample_manager = Config_default\<lparr>WriteChanSize := 2\<rparr>"
    "ss_opts sample_manager = Config_default\<lparr>WriteChanSize := 2\<rparr>"
    by (simp_all add: sample_manager_eq created_def sockets_New_def go_start_def sock_Emit_def Let_def)
  show ?thesis
    using daemon_releases_idle [OF sample_manager_inv sample_manager_heap(1), of "replicate 4 by_id"]
    by (auto simp: o Config_default_def enumerates_by_id sock_Type_def fresh_socket_def)
qed

end
