(* ===== verification/Admission.thy ===== *)
theory Admission
  imports Manager Sample
begin

text \<open>
  \<open>Sockets.Create\<close> under concurrency. Every accept loop and every caller of \<open>Connect\<close> runs it in
  a goroutine of its own; here it is cut into its accesses to the counter of ids, the table and
  the number of connections, and so is the part of \<open>release\<close> that undoes them. The check of the
  limit and the increment are separate accesses, which decides how well the limit is kept.
\<close>

section \<open>State\<close>

text \<open>
  Where a goroutine stands in \<open>Create\<close>: before the check, after it, with an id, with the socket
  in the table. It is back at \<open>Idle\<close> when it has counted the socket.
\<close>

datatype cpc = Idle | Checked | Numbered u64 | Stored u64

text \<open>
  \<open>ad_n\<close> goroutines call \<open>Create\<close>. \<open>ad_live\<close> are the ids that are counted and \<open>ad_leaving\<close> those of
  sockets that \<open>release\<close> no longer counts and has not taken out of the table.
\<close>

record adm =
  ad_n :: nat
  ad_max :: i32
  ad_index :: u64
  ad_count :: i64
  ad_table :: "u64 set"
  ad_live :: "u64 set"
  ad_leaving :: "u64 set"
  ad_pc :: "nat \<Rightarrow> cpc"

definition go_on :: "nat \<Rightarrow> cpc \<Rightarrow> adm \<Rightarrow> adm" where
  "go_on g x a = a\<lparr>ad_pc := (ad_pc a)(g := x)\<rparr>"

lemma go_on_simps [simp]:
  "ad_n (go_on g x a) = ad_n a" "ad_max (go_on g x a) = ad_max a" "ad_index (go_on g x a) = ad_index a"
  "ad_count (go_on g x a) = ad_count a" "ad_table (go_on g x a) = ad_table a"
  "ad_live (go_on g x a) = ad_live a" "ad_leaving (go_on g x a) = ad_leaving a"
  "ad_pc (go_on g x a) = (ad_pc a)(g := x)"
  by (simp_all add: go_on_def)

lemma go_on_commutes [simp]:
  "go_on g x (a\<lparr>ad_index := i\<rparr>) = (go_on g x a)\<lparr>ad_index := i\<rparr>"
  "go_on g x (a\<lparr>ad_table := t\<rparr>) = (go_on g x a)\<lparr>ad_table := t\<rparr>"
  "go_on g x (a\<lparr>ad_count := c\<rparr>) = (go_on g x a)\<lparr>ad_count := c\<rparr>"
  "go_on g x (a\<lparr>ad_live := l\<rparr>) = (go_on g x a)\<lparr>ad_live := l\<rparr>"
  "go_on g x (go_on g y a) = go_on g x a"
  by (simp_all add: go_on_def)

section \<open>Steps\<close>

text \<open>A refused call leaves everything as it was, so it is no step.\<close>

inductive adm_step :: "adm \<Rightarrow> adm \<Rightarrow> bool" where
  check: "g < ad_n a \<Longrightarrow> ad_pc a g = Idle \<Longrightarrow>
    \<not> (0 < sint (ad_max a) \<and> sint (ad_max a) \<le> sint (ad_count a)) \<Longrightarrow>
    adm_step a (go_on g Checked a)"
| take_id: "ad_pc a g = Checked \<Longrightarrow> ad_index a \<noteq> - 1 \<Longrightarrow>
    adm_step a (go_on g (Numbered (ad_index a + 1)) (a\<lparr>ad_index := ad_index a + 1\<rparr>))"
| store: "ad_pc a g = Numbered i \<Longrightarrow>
    adm_step a (go_on g (Stored i) (a\<lparr>ad_table := insert i (ad_table a)\<rparr>))"
| tally: "ad_pc a g = Stored i \<Longrightarrow>
    adm_step a (go_on g Idle (a\<lparr>ad_count := ad_count a + 1, ad_live := insert i (ad_live a)\<rparr>))"
| uncount: "i \<in> ad_live a \<Longrightarrow>
    adm_step a (a\<lparr>ad_count := ad_count a - 1, ad_live := ad_live a - {i},
                  ad_leaving := insert i (ad_leaving a)\<rparr>)"
| forget: "i \<in> ad_leaving a \<Longrightarrow>
    adm_step a (a\<lparr>ad_table := ad_table a - {i}, ad_leaving := ad_leaving a - {i}\<rparr>)"

inductive_cases adm_stepE: "adm_step a b"

definition adm_start :: "nat \<Rightarrow> i32 \<Rightarrow> adm" where
  "adm_start n mx =
     \<lparr>ad_n = n, ad_max = mx, ad_index = 0, ad_count = 0, ad_table = {}, ad_live = {},
      ad_leaving = {}, ad_pc = (\<lambda>_. Idle)\<rparr>"

section \<open>The invariant\<close>

text \<open>The id a goroutine works on, and the goroutines inside \<open>Create\<close>.\<close>

fun cpc_id :: "cpc \<Rightarrow> u64 option" where
  "cpc_id (Numbered i) = Some i"
| "cpc_id (Stored i) = Some i"
| "cpc_id _ = None"

definition busy :: "adm \<Rightarrow> nat \<Rightarrow> u64 option" where
  "busy a g = cpc_id (ad_pc a g)"

definition ids_inv :: "adm \<Rightarrow> bool" where
  "ids_inv a \<longleftrightarrow>
     (\<forall>g i. busy a g = Some i \<longrightarrow> i \<le> ad_index a \<and> i \<notin> ad_live a \<and> i \<notin> ad_leaving a
        \<and> (\<forall>h. busy a h = Some i \<longrightarrow> h = g))
     \<and> (\<forall>i \<in> ad_live a. i \<le> ad_index a \<and> i \<notin> ad_leaving a) \<and> (\<forall>i \<in> ad_leaving a. i \<le> ad_index a)"

definition stored :: "adm \<Rightarrow> u64 set" where
  "stored a = {i. \<exists>g. ad_pc a g = Stored i}"

definition adm_table_inv :: "adm \<Rightarrow> bool" where
  "adm_table_inv a \<longleftrightarrow> ad_table a = ad_live a \<union> ad_leaving a \<union> stored a"

definition inside :: "adm \<Rightarrow> nat set" where
  "inside a = {g. ad_pc a g \<noteq> Idle}"

definition limit_inv :: "adm \<Rightarrow> bool" where
  "limit_inv a \<longleftrightarrow>
     inside a \<subseteq> {..<ad_n a} \<and> ad_count a = word_of_nat (card (ad_live a))
     \<and> (0 < sint (ad_max a) \<longrightarrow>
          int (card (ad_live a)) + int (card (inside a)) \<le> sint (ad_max a) - 1 + int (ad_n a))"

definition adm_inv :: "adm \<Rightarrow> bool" where
  "adm_inv a \<longleftrightarrow> int (ad_n a) < 2 ^ 62 \<and> ids_inv a \<and> adm_table_inv a \<and> limit_inv a"

lemma adm_inv_start: "int n < 2 ^ 62 \<Longrightarrow> 0 < n \<Longrightarrow> adm_inv (adm_start n mx)"
  by (auto simp: adm_inv_def ids_inv_def busy_def adm_table_inv_def stored_def limit_inv_def inside_def adm_start_def)

lemma inside_go_on:
  "inside (go_on g x a) = (if x = Idle then inside a - {g} else insert g (inside a))"
  by (auto simp: inside_def)

lemma inside_same [simp]:
  "inside (a\<lparr>ad_index := i\<rparr>) = inside a" "inside (a\<lparr>ad_table := t\<rparr>) = inside a"
  "inside (a\<lparr>ad_count := c\<rparr>) = inside a" "inside (a\<lparr>ad_live := l\<rparr>) = inside a"
  "inside (a\<lparr>ad_leaving := l\<rparr>) = inside a"
  by (simp_all add: inside_def)

lemma stored_same [simp]:
  "stored (a\<lparr>ad_index := i\<rparr>) = stored a" "stored (a\<lparr>ad_table := t\<rparr>) = stored a"
  "stored (a\<lparr>ad_count := c\<rparr>) = stored a" "stored (a\<lparr>ad_live := l\<rparr>) = stored a"
  "stored (a\<lparr>ad_leaving := l\<rparr>) = stored a"
  by (simp_all add: stored_def)

lemma stored_go_on:
  assumes "\<And>i. ad_pc a g \<noteq> Stored i"
  shows "stored (go_on g x a) = {i. x = Stored i} \<union> stored a"
proof (intro set_eqI iffI)
  fix i
  assume "i \<in> stored (go_on g x a)"
  then obtain h where "(if h = g then x else ad_pc a h) = Stored i" by (auto simp: stored_def fun_upd_def)
  then show "i \<in> {i. x = Stored i} \<union> stored a" by (auto simp: stored_def split: if_splits)
next
  fix i assume "i \<in> {i. x = Stored i} \<union> stored a"
  then have r: "x = Stored i \<or> i \<in> stored a" by simp
  show "i \<in> stored (go_on g x a)"
  proof (cases "x = Stored i")
    case True
    then show ?thesis by (auto simp: stored_def)
  next
    case False
    then obtain h where h: "ad_pc a h = Stored i" using r by (auto simp: stored_def)
    then have "h \<noteq> g" using assms by auto
    then show ?thesis using h unfolding stored_def by (intro CollectI exI [of _ h]) simp
  qed
qed

lemma busy_go_on [simp]: "busy (go_on g x a) h = (if h = g then cpc_id x else busy a h)"
  by (simp add: busy_def)

lemma busy_same [simp]:
  "busy (a\<lparr>ad_index := i\<rparr>) = busy a" "busy (a\<lparr>ad_table := t\<rparr>) = busy a"
  "busy (a\<lparr>ad_count := c\<rparr>) = busy a" "busy (a\<lparr>ad_live := l\<rparr>) = busy a"
  "busy (a\<lparr>ad_leaving := l\<rparr>) = busy a"
  by (simp_all add: busy_def fun_eq_iff)

lemma ids_inv_table [simp]: "ids_inv (a\<lparr>ad_table := t\<rparr>) = ids_inv a"
  by (simp add: ids_inv_def)

lemma ids_facts:
  assumes "ids_inv a" "busy a g = Some i"
  shows "i \<le> ad_index a" "i \<notin> ad_live a" "i \<notin> ad_leaving a" "busy a h = Some i \<Longrightarrow> h = g"
  using assms unfolding ids_inv_def by blast+

lemma stored_leave:
  assumes "ids_inv a" "ad_pc a g = Stored i"
  shows "stored (go_on g Idle a) = stored a - {i}"
proof -
  have u: "h = g" if "ad_pc a h = Stored i" for h
    using ids_facts(4) [OF assms(1), of g i h] assms(2) that by (simp add: busy_def)
  show ?thesis
  proof (intro set_eqI iffI)
    fix j assume "j \<in> stored (go_on g Idle a)"
    then show "j \<in> stored a - {i}" using u by (auto simp: stored_def split: if_splits)
  next
    fix j assume "j \<in> stored a - {i}"
    then obtain h where "ad_pc a h = Stored j" "j \<noteq> i" by (auto simp: stored_def)
    then show "j \<in> stored (go_on g Idle a)"
      using assms(2) unfolding stored_def by (intro CollectI exI [of _ h]) auto
  qed
qed

lemma stored_id:
  assumes "ids_inv a" "i \<in> stored a"
  shows "i \<notin> ad_live a" "i \<notin> ad_leaving a"
proof -
  obtain g where "ad_pc a g = Stored i" using assms(2) by (auto simp: stored_def)
  then have "busy a g = Some i" by (simp add: busy_def)
  from ids_facts(2,3) [OF assms(1) this] show "i \<notin> ad_live a" "i \<notin> ad_leaving a" .
qed

text \<open>A goroutine takes over an id nobody has, the counter grows, an id moves between the sets.\<close>

lemma ids_go_on:
  assumes inv: "ids_inv a"
    and new: "\<And>i. cpc_id x = Some i \<Longrightarrow> i \<le> ad_index a \<and> i \<notin> ad_live a \<and> i \<notin> ad_leaving a
      \<and> (\<forall>h. h \<noteq> g \<longrightarrow> busy a h \<noteq> Some i)"
  shows "ids_inv (go_on g x a)"
proof -
  have "i \<le> ad_index a \<and> i \<notin> ad_live a \<and> i \<notin> ad_leaving a
      \<and> (\<forall>h'. busy (go_on g x a) h' = Some i \<longrightarrow> h' = h)" if "busy (go_on g x a) h = Some i" for h i
  proof (cases "h = g")
    case True
    then show ?thesis using that new [of i] by (metis busy_go_on)
  next
    case False
    then have h: "busy a h = Some i" using that by simp
    then have "cpc_id x \<noteq> Some i" using new False by blast
    then show ?thesis using ids_facts [OF inv h] by simp
  qed
  then show ?thesis using inv unfolding ids_inv_def go_on_simps by blast
qed

lemma ids_bump:
  assumes "ids_inv a" "ad_index a \<noteq> - 1"
  shows "ids_inv (a\<lparr>ad_index := ad_index a + 1\<rparr>)"
proof -
  have "i \<le> ad_index a + 1" if "i \<le> ad_index a" for i
    using that index_fresh [OF assms(2)] by simp
  then show ?thesis using assms(1) by (simp add: ids_inv_def)
qed

lemma ids_enter:
  assumes "ids_inv a" "i \<le> ad_index a" "i \<notin> ad_leaving a" "\<forall>h. busy a h \<noteq> Some i"
  shows "ids_inv (a\<lparr>ad_count := c, ad_live := insert i (ad_live a)\<rparr>)"
proof -
  have "j \<noteq> i" if "busy a h = Some j" for h j using assms(4) that by blast
  then show ?thesis using assms unfolding ids_inv_def by simp
qed

lemma ids_leave:
  assumes "ids_inv a" "i \<le> ad_index a" "i \<notin> ad_leaving a" "\<forall>h. busy a h \<noteq> Some i"
  shows "ids_inv (a\<lparr>ad_count := c, ad_live := ad_live a - {i}, ad_leaving := insert i (ad_leaving a)\<rparr>)"
proof -
  have "j \<noteq> i" if "busy a h = Some j" for h j using assms(4) that by blast
  then show ?thesis using assms unfolding ids_inv_def by simp
qed

lemma ids_keeps:
  assumes "adm_step a b" "ids_inv a"
  shows "ids_inv b"
  using assms
proof (induction rule: adm_step.induct)
  case (check g a)
  then show ?case by (intro ids_go_on) simp_all
next
  case (take_id a g)
  let ?i = "ad_index a + 1"
  have "ad_index a < ?i" by (rule index_fresh [OF take_id(2)])
  then have "\<not> ?i \<le> ad_index a" by simp
  then have "?i \<notin> ad_live a" "?i \<notin> ad_leaving a" "\<And>h. busy a h \<noteq> Some ?i"
    using take_id(3) unfolding ids_inv_def by blast+
  moreover have "ids_inv (go_on g (Numbered ?i) (a\<lparr>ad_index := ?i\<rparr>))"
    using calculation by (intro ids_go_on ids_bump take_id) simp
  ultimately show ?case by simp
next
  case (store a g i)
  then have b: "busy a g = Some i" by (simp add: busy_def)
  note f = ids_facts [OF store(2) b]
  have "ids_inv (go_on g (Stored i) a)"
  proof (rule ids_go_on [OF store(2)])
    fix j assume "cpc_id (Stored i) = Some j"
    then have "j = i" by simp
    then show "j \<le> ad_index a \<and> j \<notin> ad_live a \<and> j \<notin> ad_leaving a \<and> (\<forall>h. h \<noteq> g \<longrightarrow> busy a h \<noteq> Some j)"
      using f by blast
  qed
  then show ?case by simp
next
  case (tally a g i)
  then have b: "busy a g = Some i" by (simp add: busy_def)
  note f = ids_facts [OF tally(2) b]
  have "ids_inv (go_on g Idle a)" using tally(2) by (intro ids_go_on) simp_all
  moreover have "\<forall>h. busy (go_on g Idle a) h \<noteq> Some i" using f(4) by simp blast
  ultimately have "ids_inv ((go_on g Idle a)\<lparr>ad_count := ad_count a + 1, ad_live := insert i (ad_live a)\<rparr>)"
    using f(1,3) ids_enter [of "go_on g Idle a" i] by simp
  then show ?case by simp
next
  case (uncount i a)
  then have "i \<le> ad_index a" "i \<notin> ad_leaving a" "\<forall>h. busy a h \<noteq> Some i"
    unfolding ids_inv_def by blast+
  then show ?case using uncount(2) by (intro ids_leave)
next
  case (forget i a)
  then show ?case by (simp add: ids_inv_def)
qed

lemma table_keeps:
  assumes "adm_step a b" "ids_inv a" "adm_table_inv a"
  shows "adm_table_inv b"
  using assms
proof (induction rule: adm_step.induct)
  case (tally a g i)
  have "i \<in> stored a" using tally(1) by (auto simp: stored_def)
  then show ?case
    using tally stored_leave [OF tally(2,1)] by (simp add: adm_table_inv_def) blast
next
  case (forget i a)
  then have "i \<notin> ad_live a" "i \<notin> stored a" using stored_id [of a i] unfolding ids_inv_def by blast+
  then show ?case using forget(3) by (simp add: adm_table_inv_def Un_Diff)
next
  case (uncount i a)
  then show ?case by (auto simp: adm_table_inv_def)
next
  case (check g a)
  then show ?case by (simp add: adm_table_inv_def stored_go_on)
next
  case (take_id a g)
  then show ?case by (simp add: adm_table_inv_def stored_go_on)
next
  case (store a g i)
  then show ?case by (simp add: adm_table_inv_def stored_go_on)
qed

lemma inside_finite: "limit_inv a \<Longrightarrow> finite (inside a)"
  by (auto simp: limit_inv_def intro: finite_subset)

text \<open>With a limit, the counter is exact.\<close>

lemma limit_count:
  assumes "int (ad_n a) < 2 ^ 62" "limit_inv a" "0 < sint (ad_max a)"
  shows "sint (ad_count a) = int (card (ad_live a))"
proof -
  have "sint (ad_max a) < 2 ^ 31" using sint_lt [of "ad_max a"] by simp
  then have "card (ad_live a) < 2 ^ 63" using assms by (simp add: limit_inv_def)
  then show ?thesis using assms(2) by (simp add: limit_inv_def sint_word_of_nat64)
qed

lemma limit_keeps:
  assumes "adm_step a b" "int (ad_n a) < 2 ^ 62" "ids_inv a" "limit_inv a"
  shows "limit_inv b"
  using assms
proof (induction rule: adm_step.induct)
  case (check g a)
  have sub: "insert g (inside a) \<subseteq> {..<ad_n a}" using check(1,6) by (simp add: limit_inv_def)
  then have "card (insert g (inside a)) \<le> ad_n a" using card_mono [OF _ sub] by simp
  moreover have "int (card (ad_live a)) \<le> sint (ad_max a) - 1" if "0 < sint (ad_max a)"
    using check(3) limit_count [OF check(4,6) that] that by simp
  ultimately show ?case using check(6) sub by (auto simp: limit_inv_def inside_go_on)
next
  case (take_id a g)
  have "g \<in> inside a" using take_id(1) by (simp add: inside_def)
  then show ?case using take_id by (simp add: limit_inv_def inside_go_on insert_absorb)
next
  case (store a g i)
  have "g \<in> inside a" using store(1) by (simp add: inside_def)
  then show ?case using store by (simp add: limit_inv_def inside_go_on insert_absorb)
next
  case (tally a g i)
  have g: "g \<in> inside a" using tally(1) by (simp add: inside_def)
  have "i \<notin> ad_live a" using ids_facts(2) [OF tally(3), of g i] tally(1) by (simp add: busy_def)
  moreover have "card (inside a) = Suc (card (inside a - {g}))"
    using card_Suc_Diff1 [OF inside_finite [OF tally(4)] g] by simp
  ultimately show ?case using tally(4) by (auto simp: limit_inv_def inside_go_on)
next
  case (uncount i a)
  have "card (ad_live a) = Suc (card (ad_live a - {i}))"
    using card_Suc_Diff1 [of "ad_live a" i] uncount(1) by simp
  then show ?case using uncount(4) by (auto simp: limit_inv_def)
next
  case (forget i a)
  then show ?case by (simp add: limit_inv_def)
qed

lemma adm_step_const: "adm_step a b \<Longrightarrow> ad_n b = ad_n a \<and> ad_max b = ad_max a"
  by (induction rule: adm_step.induct) simp_all

lemma adm_step_keeps: "adm_step a b \<Longrightarrow> adm_inv a \<Longrightarrow> adm_inv b"
  using ids_keeps table_keeps limit_keeps adm_step_const by (simp add: adm_inv_def)

interpretation adm: step_invariant adm_step adm_inv
  by unfold_locales (rule adm_step_keeps)

section \<open>What the interleavings keep, and what they do not\<close>

text \<open>
  C29. However the calls of \<open>Create\<close> by \<open>n\<close> goroutines and the releases interleave: no two of them
  ever work on the same id, nor on one that is in use; the counter is the number of sockets
  counted and not released; the limit is exceeded by at most \<open>n - 1\<close>; and when nobody is inside
  \<open>Create\<close> or \<open>release\<close> the table holds exactly the counted sockets.
\<close>

theorem concurrent_creates_bounded:
  assumes run: "adm_step\<^sup>*\<^sup>* (adm_start n mx) a" and n: "0 < n" "int n < 2 ^ 62"
  shows "(\<forall>g h i. cpc_id (ad_pc a g) = Some i \<longrightarrow> i \<notin> ad_live a \<and> (cpc_id (ad_pc a h) = Some i \<longrightarrow> h = g))
    \<and> ad_count a = word_of_nat (card (ad_live a))
    \<and> (0 < sint mx \<longrightarrow> int (card (ad_live a)) \<le> sint mx - 1 + int n)
    \<and> ((\<forall>g. ad_pc a g = Idle) \<and> ad_leaving a = {} \<longrightarrow> ad_table a = ad_live a)"
proof -
  have i: "adm_inv a" by (rule adm.run_keeps [OF run adm_inv_start [OF n(2,1)]])
  then have ids: "ids_inv a" and tb: "adm_table_inv a" and lim: "limit_inv a"
    by (simp_all add: adm_inv_def)
  have "ad_n a = n \<and> ad_max a = mx"
    using run by (induction rule: rtranclp_induct) (auto simp: adm_start_def dest: adm_step_const)
  then have "0 < sint mx \<longrightarrow> int (card (ad_live a)) \<le> sint mx - 1 + int n"
    using lim by (auto simp: limit_inv_def)
  moreover have "ad_count a = word_of_nat (card (ad_live a))" using lim by (simp add: limit_inv_def)
  moreover have "\<forall>g h i. cpc_id (ad_pc a g) = Some i \<longrightarrow>
      i \<notin> ad_live a \<and> (cpc_id (ad_pc a h) = Some i \<longrightarrow> h = g)"
    using ids_facts [OF ids, unfolded busy_def] by blast
  moreover have "(\<forall>g. ad_pc a g = Idle) \<and> ad_leaving a = {} \<longrightarrow> ad_table a = ad_live a"
    using tb by (simp add: adm_table_inv_def stored_def)
  ultimately show ?thesis by blast
qed

lemma sample_check: "adm_step (adm_start 1 5) (go_on 0 Checked (adm_start 1 5))"
  by (rule adm_step.check) (simp_all add: adm_start_def)

theorem concurrent_creates_bounded_witness:
  "ad_count (go_on 0 Checked (adm_start 1 5)) = 0"
  using concurrent_creates_bounded [OF r_into_rtranclp [where r = adm_step, OF sample_check]]
  by (simp add: adm_start_def)

text \<open>The steps of one goroutine from its check to its return.\<close>

lemma finish_create:
  assumes "ad_pc a g = Checked" "ad_index a \<noteq> - 1"
  shows "adm_step\<^sup>*\<^sup>* a (go_on g Idle (a\<lparr>ad_index := ad_index a + 1, ad_table := insert (ad_index a + 1) (ad_table a),
    ad_count := ad_count a + 1, ad_live := insert (ad_index a + 1) (ad_live a)\<rparr>))"
proof -
  let ?i = "ad_index a + 1"
  let ?b = "go_on g (Numbered ?i) (a\<lparr>ad_index := ?i\<rparr>)"
  let ?c = "go_on g (Stored ?i) (?b\<lparr>ad_table := insert ?i (ad_table ?b)\<rparr>)"
  let ?d = "go_on g Idle (?c\<lparr>ad_count := ad_count ?c + 1, ad_live := insert ?i (ad_live ?c)\<rparr>)"
  have "adm_step a ?b" "adm_step ?b ?c" "adm_step ?c ?d"
    using assms by (intro adm_step.take_id adm_step.store adm_step.tally; simp)+
  then have "adm_step\<^sup>*\<^sup>* a ?d" by (meson converse_rtranclp_into_rtranclp rtranclp.rtrancl_refl)
  moreover have "?d = go_on g Idle (a\<lparr>ad_index := ?i, ad_table := insert ?i (ad_table a),
    ad_count := ad_count a + 1, ad_live := insert ?i (ad_live a)\<rparr>)"
    by (simp add: go_on_def)
  ultimately show ?thesis by simp
qed

text \<open>
  The limit is not strict. Two accept loops can both pass the check before either has counted
  its socket, so with a limit of one connection two are accepted.
\<close>

theorem limit_can_be_overrun:
  "\<exists>a. adm_step\<^sup>*\<^sup>* (adm_start 2 1) a \<and> (\<forall>g. ad_pc a g = Idle) \<and> ad_count a = 2
    \<and> ad_table a = {1, 2} \<and> ad_max a = 1"
proof -
  let ?s = "adm_start 2 1"
  let ?b = "go_on 1 Checked (go_on 0 Checked ?s)"
  have "adm_step ?s (go_on 0 Checked ?s)" "adm_step (go_on 0 Checked ?s) ?b"
    by (intro adm_step.check; simp add: adm_start_def)+
  then have run: "adm_step\<^sup>*\<^sup>* ?s ?b" by (meson converse_rtranclp_into_rtranclp rtranclp.rtrancl_refl)
  let ?c = "go_on 0 Idle (?b\<lparr>ad_index := ad_index ?b + 1, ad_table := insert (ad_index ?b + 1) (ad_table ?b),
    ad_count := ad_count ?b + 1, ad_live := insert (ad_index ?b + 1) (ad_live ?b)\<rparr>)"
  let ?d = "go_on 1 Idle (?c\<lparr>ad_index := ad_index ?c + 1, ad_table := insert (ad_index ?c + 1) (ad_table ?c),
    ad_count := ad_count ?c + 1, ad_live := insert (ad_index ?c + 1) (ad_live ?c)\<rparr>)"
  have "adm_step\<^sup>*\<^sup>* ?b ?c" "adm_step\<^sup>*\<^sup>* ?c ?d"
    by (rule finish_create; simp add: adm_start_def)+
  with run have "adm_step\<^sup>*\<^sup>* ?s ?d" by (meson rtranclp_trans)
  moreover have "ad_count ?d = 2" "ad_table ?d = {1, 2}" "ad_max ?d = 1" "\<forall>g. ad_pc ?d g = Idle"
    by (auto simp: adm_start_def)
  ultimately show ?thesis by blast
qed

section \<open>One call alone\<close>

text \<open>What of the manager's state the steps are about, with nobody inside \<open>Create\<close> or \<open>release\<close>.\<close>

definition adm_of :: "nat \<Rightarrow> sockets \<Rightarrow> adm" where
  "adm_of n s =
     \<lparr>ad_n = n, ad_max = ConnectMaxSize (ss_opts s), ad_index = ss_index s, ad_count = ss_count s,
      ad_table = dom (ss_sockets s), ad_live = dom (ss_sockets s), ad_leaving = {},
      ad_pc = (\<lambda>_. Idle)\<rparr>"

text \<open>
  The uninterrupted \<open>Create\<close> of the manager's model, when it accepts the connection, is a run
  of these steps by one goroutine; when the limit refuses it, no step of any goroutine passes the
  check.
\<close>

theorem Create_refines_steps:
  assumes "ss_index s \<noteq> - 1" "0 \<le> sint (WriteChanSize (ss_opts s))" "0 < n"
  shows "case Create False conn s of
      (Ok p, t) \<Rightarrow> adm_step\<^sup>*\<^sup>* (adm_of n s) (adm_of n t)
    | (r, t) \<Rightarrow> \<not> (\<exists>g. adm_step (adm_of n s) (go_on g Checked (adm_of n s)))"
proof (cases "0 < sint (ConnectMaxSize (ss_opts s)) \<and> sint (ConnectMaxSize (ss_opts s)) \<le> sint (ss_count s)")
  case True
  have "\<not> adm_step (adm_of n s) (go_on g Checked (adm_of n s))" for g
  proof
    assume "adm_step (adm_of n s) (go_on g Checked (adm_of n s))"
    then show False
      by (cases rule: adm_step.cases) (use True in \<open>auto simp: adm_of_def go_on_def fun_eq_iff split: if_splits\<close>)
  qed
  then show ?thesis using Create_refused(2) [of False s conn] True by simp
next
  case False
  let ?a = "adm_of n s"
  let ?b = "go_on 0 Checked ?a"
  have "adm_step ?a ?b" using False assms(3) by (intro adm_step.check) (simp_all add: adm_of_def)
  moreover have "adm_step\<^sup>*\<^sup>* ?b (go_on 0 Idle (?b\<lparr>ad_index := ad_index ?b + 1,
      ad_table := insert (ad_index ?b + 1) (ad_table ?b), ad_count := ad_count ?b + 1,
      ad_live := insert (ad_index ?b + 1) (ad_live ?b)\<rparr>))"
    by (rule finish_create) (simp_all add: adm_of_def assms(1))
  moreover have "adm_of n (created conn s) = go_on 0 Idle (?b\<lparr>ad_index := ad_index ?b + 1,
      ad_table := insert (ad_index ?b + 1) (ad_table ?b), ad_count := ad_count ?b + 1,
      ad_live := insert (ad_index ?b + 1) (ad_live ?b)\<rparr>)"
    by (simp add: adm_of_def created_def go_start_def sock_Emit_def Emit_def go_on_def Let_def fun_upd_idem)
  ultimately have "adm_step\<^sup>*\<^sup>* ?a (adm_of n (created conn s))"
    by (metis converse_rtranclp_into_rtranclp)
  moreover have "Create False conn s = (Ok (ss_next s), created conn s)"
    using False assms(2) by (intro Create_ok) auto
  ultimately show ?thesis by simp
qed

theorem Create_refines_steps_witness:
  "adm_step\<^sup>*\<^sup>* (adm_of 1 (sockets_New Config_default))
     (adm_of 1 (created 5 (sockets_New Config_default)))"
proof -
  have "Create False 5 (sockets_New Config_default) = (Ok 0, created 5 (sockets_New Config_default))"
    by (subst Create_ok) (simp_all add: sockets_New_def Config_default_def)
  then show ?thesis
    using Create_refines_steps [of "sockets_New Config_default" 1 5]
    by (simp add: sockets_New_def Config_default_def)
qed

end
