(* ===== verification/Addresses.thy ===== *)
theory Addresses
  imports Prelude
begin

text \<open>
  \<open>Sockets.Address\<close> of \<open>sockets.go\<close>: the address under which a server can be reached, from the
  addresses of its listeners; and the two functions of the standard library's package \<open>net\<close> it
  uses, \<open>SplitHostPort\<close> and \<open>JoinHostPort\<close>.
\<close>

section \<open>Host and port\<close>

abbreviation colon :: byte where "colon \<equiv> of_char CHR '':''"
abbreviation lbracket :: byte where "lbracket \<equiv> of_char CHR ''[''"
abbreviation rbracket :: byte where "rbracket \<equiv> of_char CHR '']''"

fun last_index :: "'a list \<Rightarrow> 'a \<Rightarrow> nat option" where
  "last_index [] c = None"
| "last_index (x # xs) c =
     (case last_index xs c of
        Some i \<Rightarrow> Some (Suc i)
      | None \<Rightarrow> if x = c then Some 0 else None)"

lemma last_index_None: "c \<notin> set xs \<Longrightarrow> last_index xs c = None"
  by (induction xs) auto

lemma last_index_last: "c \<notin> set ys \<Longrightarrow> last_index (xs @ c # ys) c = Some (length xs)"
  by (induction xs) (simp_all add: last_index_None)

text \<open>The last two checks, on what follows positions \<open>j\<close> and \<open>k\<close>.\<close>

definition split_rest :: "bytes \<Rightarrow> nat \<Rightarrow> nat \<Rightarrow> nat \<Rightarrow> bytes \<Rightarrow> err + bytes \<times> bytes" where
  "split_rest hp i j k host =
     (if lbracket \<in> set (drop j hp) then Inl (ErrNew ''unexpected '[' in address'')
      else if rbracket \<in> set (drop k hp) then Inl (ErrNew ''unexpected ']' in address'')
      else Inr (host, drop (Suc i) hp))"

definition SplitHostPort :: "bytes \<Rightarrow> err + bytes \<times> bytes" where
  "SplitHostPort hp =
     (case last_index hp colon of
        None \<Rightarrow> Inl (ErrNew ''missing port in address'')
      | Some i \<Rightarrow>
          if hp ! 0 = lbracket then
            (case index_byte hp rbracket of
               None \<Rightarrow> Inl (ErrNew ''missing ']' in address'')
             | Some en \<Rightarrow>
                 if Suc en = length hp then Inl (ErrNew ''missing port in address'')
                 else if Suc en = i then split_rest hp i 1 (Suc en) (drop 1 (take en hp))
                 else if hp ! Suc en = colon then Inl (ErrNew ''too many colons in address'')
                 else Inl (ErrNew ''missing port in address''))
          else if colon \<in> set (take i hp) then Inl (ErrNew ''too many colons in address'')
          else split_rest hp i 0 0 (take i hp))"

definition JoinHostPort :: "bytes \<Rightarrow> bytes \<Rightarrow> bytes" where
  "JoinHostPort host port =
     (if colon \<in> set host then lbracket # host @ [rbracket, colon] @ port
      else host @ [colon] @ port)"

definition no_brackets :: "bytes \<Rightarrow> bool" where
  "no_brackets b \<longleftrightarrow> lbracket \<notin> set b \<and> rbracket \<notin> set b"

lemma Split_Join:
  assumes "no_brackets host" "no_brackets port" "colon \<notin> set port"
  shows "SplitHostPort (JoinHostPort host port) = Inr (host, port)"
proof (cases "colon \<in> set host")
  case True
  let ?hp = "lbracket # host @ rbracket # colon # port"
  have "last_index ?hp colon = Some (length (lbracket # host @ [rbracket]))"
    using last_index_last [OF assms(3), of "lbracket # host @ [rbracket]"] by simp
  moreover have "index_byte ?hp rbracket = Some (length (lbracket # host))"
    using index_byte_first [of rbracket "lbracket # host" "colon # port"] assms(1)
    by (simp add: no_brackets_def)
  ultimately show ?thesis
    using True assms by (simp add: SplitHostPort_def JoinHostPort_def split_rest_def no_brackets_def)
next
  case False
  have "last_index (host @ colon # port) colon = Some (length host)"
    by (rule last_index_last [OF assms(3)])
  moreover have "(host @ colon # port) ! 0 \<noteq> lbracket"
    using assms(1) by (cases host) (auto simp: no_brackets_def)
  ultimately show ?thesis
    using False assms by (simp add: SplitHostPort_def JoinHostPort_def split_rest_def no_brackets_def)
qed

section \<open>The address of a server\<close>

text \<open>
  \<open>addr\<close> is the address of a listener, if it has one, and \<open>local\<close> the result of looking up the
  machine's own IPv4 address, which belongs to another module.
\<close>

definition local_hosts :: "bytes list" where
  "local_hosts = [[], str ''0.0.0.0'', str ''127.0.0.1'', str ''localhost'']"

definition own_ip :: "err + bytes \<Rightarrow> bytes option" where
  "own_ip lip = (case lip of Inr ip \<Rightarrow> if ip \<noteq> [] then Some ip else None | Inl _ \<Rightarrow> None)"

fun Address :: "(nat \<Rightarrow> bytes option) \<Rightarrow> err + bytes \<Rightarrow> nat list \<Rightarrow> bytes" where
  "Address addr lip [] = []"
| "Address addr lip (l # ls) =
     (case addr l of
        None \<Rightarrow> Address addr lip ls
      | Some a \<Rightarrow>
          (case SplitHostPort a of
             Inl _ \<Rightarrow> Address addr lip ls
           | Inr (ip, port) \<Rightarrow>
               (case (ip \<in> set local_hosts, own_ip lip) of
                  (True, Some mine) \<Rightarrow> JoinHostPort mine port
                | _ \<Rightarrow> a)))"

lemma Address_skips:
  "\<forall>l \<in> set ls. addr l = None \<or> (\<exists>er a. addr l = Some a \<and> SplitHostPort a = Inl er) \<Longrightarrow>
   Address addr lip (ls @ ls') = Address addr lip ls'"
  by (induction ls) auto

text \<open>
  The address of a server is that of the first listener that has one with a port: as it is,
  or, when it is bound to all interfaces or to the loopback in IPv4 notation and the machine's
  own address is known, with that address and the same port. Listeners without a usable address
  are passed over, and without any the answer is empty.
\<close>

theorem Address_first_usable:
  assumes skip: "\<forall>l \<in> set ls. addr l = None \<or> (\<exists>er a. addr l = Some a \<and> SplitHostPort a = Inl er)"
    and ip: "own_ip lip = Some mine" "no_brackets mine" "mine \<notin> set local_hosts"
    and hp: "no_brackets host" "no_brackets port" "colon \<notin> set port"
    and l: "addr l = Some (JoinHostPort host port)"
  shows "Address addr lip ls = []
    \<and> SplitHostPort (Address addr lip (ls @ l # ls'))
        = Inr (if host \<in> set local_hosts then mine else host, port)
    \<and> fst (projr (SplitHostPort (Address addr lip (ls @ l # ls')))) \<notin> set local_hosts"
proof -
  have "Address addr lip ls = []" using Address_skips [OF skip, of lip "[]"] by simp
  moreover have "Address addr lip (ls @ l # ls')
      = (if host \<in> set local_hosts then JoinHostPort mine port else JoinHostPort host port)"
    using Address_skips [OF skip] l Split_Join [OF hp] ip(1) by simp
  ultimately show ?thesis
    using Split_Join [OF hp] Split_Join [OF ip(2) hp(2,3)] ip(3) by simp
qed

theorem Address_first_usable_witness:
  "SplitHostPort (Address (\<lambda>l. if l = 1 then Some (JoinHostPort (str ''0.0.0.0'') (str ''80'')) else None)
      (Inr (str ''10.0.0.7'')) [0, 1]) = Inr (str ''10.0.0.7'', str ''80'')"
  using Address_first_usable [of "[0]" "\<lambda>l. if l = 1 then Some (JoinHostPort (str ''0.0.0.0'') (str ''80'')) else None"
      "Inr (str ''10.0.0.7'')" "str ''10.0.0.7''" "str ''0.0.0.0''" "str ''80''" 1 "[]"]
  by (simp add: own_ip_def local_hosts_def no_brackets_def del: Address.simps)

text \<open>
  A listener on all interfaces of a machine with IPv6 has the address \<open>[::]:port\<close>, which is none of
  the four hosts the code replaces: the answer is the wildcard itself.
\<close>

lemma Address_keeps_ipv6_wildcard:
  "Address (\<lambda>l. Some (str ''[::]:80'')) (Inr (str ''10.0.0.7'')) [0] = str ''[::]:80''"
  by (simp add: SplitHostPort_def split_rest_def local_hosts_def own_ip_def)

end
