(* ===== verification/Listeners.thy ===== *)
theory Listeners
  imports Tcp Udp Wss SocketProperties Addresses
begin

text \<open>
  Servers: \<open>tcp/listener.go\<close>, the start-up and the end of \<open>wss/listener.go\<close>, and of \<open>sockets.go\<close> the
  accept loop, \<open>Listen\<close> and \<open>stop\<close>. What the accept loop relies on is stated as two locales, which
  the listeners of the three packages interpret as far as they satisfy them.
\<close>

section \<open>The tcp listener\<close>

text \<open>
  \<open>net.Listener\<close>: connections, failures of the system and the call of \<open>Close\<close> reach it in the
  order of \<open>tl_events\<close>; a closed one fails with \<open>net.ErrClosed\<close>.
\<close>

datatype tcp_event = Incoming nat | AcceptFault err | CloseCalled

record tcp_listener =
  tl_events :: "tcp_event list"
  tl_closed :: bool

definition tcp_New :: "err + tcp_event list \<Rightarrow> err + tcp_listener" where
  "tcp_New r = map_sum id (\<lambda>es. \<lparr>tl_events = es, tl_closed = False\<rparr>) r"

definition tcp_Accept :: "tcp_listener \<Rightarrow> (nat, tcp_listener) run" where
  "tcp_Accept l =
     (if tl_closed l then (Err ErrNetClosed, l)
      else case tl_events l of
        [] \<Rightarrow> (Blocked, l)
      | Incoming c # es \<Rightarrow> (Ok c, l\<lparr>tl_events := es\<rparr>)
      | AcceptFault er # es \<Rightarrow> (Err er, l\<lparr>tl_events := es\<rparr>)
      | CloseCalled # es \<Rightarrow> (Err ErrNetClosed, l\<lparr>tl_events := es, tl_closed := True\<rparr>))"

definition tcp_Close :: "tcp_listener \<Rightarrow> (unit, tcp_listener) run" where
  "tcp_Close l = (if tl_closed l then (Err ErrNetClosed, l) else (Ok (), l\<lparr>tl_closed := True\<rparr>))"

section \<open>The websocket server\<close>

record wss_server = wss_listener +
  ws_running :: bool
  ws_tls :: bool

text \<open>A negative \<open>Options.ConnChanSize\<close> panics in \<open>make\<close>.\<close>

definition new_wss :: "nat \<Rightarrow> bool \<Rightarrow> bytes \<Rightarrow> wss_server" where
  "new_wss n tls route =
     \<lparr>wl_err = None, wl_route = route, wl_connChan = make_chan n, ws_running = True, ws_tls = tls\<rparr>"

definition wss_NewListener :: "i32 \<Rightarrow> bool \<Rightarrow> bytes \<Rightarrow> wss_server outcome" where
  "wss_NewListener cap tls route = (if sint cap < 0 then Panic else Ok (new_wss (nat (sint cap)) tls route))"

text \<open>
  \<open>wss.New\<close> starts the server and waits a second: \<open>serve\<close> is how serving with or without TLS
  ends within it, \<open>ServeTimeout\<close> when it goes on. A listener is returned even with an error.
\<close>

datatype serve_result = ServeTimeout | ServeEnds "err option"

definition wss_New ::
  "i32 \<Rightarrow> bytes \<Rightarrow> bool \<Rightarrow> (bool \<Rightarrow> serve_result) \<Rightarrow> (wss_server option \<times> err option) outcome" where
  "wss_New cap network tls serve =
     (if \<not> tls \<and> network \<in> set [str ''wss'', str ''wss4'', str ''wss5'', str ''wss6'']
      then Ok (None, Some (ErrNew ''TLS configuration is required for wss network type''))
      else
        map_outcome (\<lambda>ln.
          case serve tls of
            ServeTimeout \<Rightarrow> (Some ln, None)
          | ServeEnds er \<Rightarrow> (Some (ln\<lparr>ws_running := False\<rparr>), er))
          (wss_NewListener cap tls []))"

definition wss_Close :: "wss_server \<Rightarrow> (unit, wss_server) run" where
  "wss_Close l = (Ok (), l\<lparr>ws_running := False\<rparr>)"

definition wss_server_Accept :: "wss_server \<Rightarrow> (nat, wss_server) run" where
  "wss_server_Accept l =
     (case wl_err l of
        Some er \<Rightarrow> (Err er, l)
      | None \<Rightarrow>
          (case recv (wl_connChan l) of
             (Ok (Some c), ch) \<Rightarrow> (Ok c, l\<lparr>wl_connChan := ch\<rparr>)
           | (r, ch) \<Rightarrow> (map_outcome (\<lambda>_. 0) r, l)))"

section \<open>The accept loop\<close>

text \<open>
  The loop of \<open>Sockets.Accept\<close> over any listener. \<open>stop n\<close> and \<open>stop' n\<close> are whether the process is
  stopping at the head of turn \<open>n\<close> and inside its \<open>Create\<close>. A loop that goes on for ever is \<open>None\<close>;
  one that waits in \<open>Accept\<close> ends \<open>Blocked\<close>.
\<close>

partial_function (option) accept_loop ::
  "('l \<Rightarrow> (nat, 'l) run) \<Rightarrow> (nat \<Rightarrow> bool) \<Rightarrow> (nat \<Rightarrow> bool) \<Rightarrow> nat \<Rightarrow> 'l \<Rightarrow> sockets
    \<Rightarrow> (unit, 'l \<times> sockets) run option" where
  "accept_loop acc stop stop' n l s =
     (if stop n then Some (Ok (), (l, s))
      else
        let r = fst (acc l); l' = snd (acc l);
            t = accept_turn (stop' n) (case r of Ok c \<Rightarrow> Inr c | Err er \<Rightarrow> Inl er | _ \<Rightarrow> Inr 0) s in
        if r = Panic \<or> r = Blocked then Some (done_with r, (l', s))
        else if fst t = Ok True then accept_loop acc stop stop' (Suc n) l' (snd t)
        else Some (done_with (fst t), (l', snd t)))"

text \<open>
  The goroutine: it enters the listener into the list, and closes it when the loop is over. A
  panic, of the loop or of the close, ends it quietly.
\<close>

definition accept_go ::
  "('l \<Rightarrow> (nat, 'l) run) \<Rightarrow> ('l \<Rightarrow> (unit, 'l) run) \<Rightarrow> (nat \<Rightarrow> bool) \<Rightarrow> (nat \<Rightarrow> bool) \<Rightarrow> nat \<Rightarrow> 'l \<Rightarrow> sockets
    \<Rightarrow> (unit, 'l \<times> sockets) run option" where
  "accept_go acc cls stop stop' ln l s =
     map_option (\<lambda>r. case r of
         (Blocked, ls) \<Rightarrow> (Blocked, ls)
       | (_, (l, s)) \<Rightarrow>
           (case cls l of
              (Blocked, l) \<Rightarrow> (Blocked, (l, s))
            | (_, l) \<Rightarrow> (Ok (), (l, end_task (TAccept ln) s))))
       (accept_loop acc stop stop' 0 l s)"

text \<open>What the loop does with connections, one after the other.\<close>

fun admit :: "nat list \<Rightarrow> sockets \<Rightarrow> sockets" where
  "admit [] s = s"
| "admit (c # cs) s = admit cs (snd (accept_turn False (Inr c) s))"

definition full :: "sockets \<Rightarrow> bool" where
  "full s \<longleftrightarrow> 0 < sint (ConnectMaxSize (ss_opts s))
     \<and> sint (ConnectMaxSize (ss_opts s)) \<le> sint (ss_count s)"

lemma accept_turn_go:
  assumes "0 \<le> sint (WriteChanSize (ss_opts s))"
  shows "accept_turn False (Inr c) s
    = (Ok True, if full s then s\<lparr>ss_closed := ss_closed s @ [c]\<rparr> else created c s)"
proof (cases "full s")
  case True
  then show ?thesis using Create_refused(2) [of False s c] by (simp add: accept_turn_def full_def)
next
  case False
  then have "Create False c s = (Ok (ss_next s), created c s)"
    using assms by (intro Create_ok) (auto simp: full_def)
  then show ?thesis using False by (simp add: accept_turn_def)
qed

lemma created_simps [simp]:
  "ss_opts (created c s) = ss_opts s" "ss_next (created c s) = Suc (ss_next s)"
  "ss_closed (created c s) = ss_closed s" "ss_index (created c s) = ss_index s + 1"
  "ss_sockets (created c s) = (ss_sockets s)(ss_index s + 1 \<mapsto> ss_next s)"
  by (simp_all add: created_def go_start_def sock_Emit_def Let_def)

lemma accept_turn_opts [simp]:
  "0 \<le> sint (WriteChanSize (ss_opts s)) \<Longrightarrow> ss_opts (snd (accept_turn False (Inr c) s)) = ss_opts s"
  by (simp add: accept_turn_go)

text \<open>
  The connections waiting at a listener are handed out in order, and the rest of its state stays.
\<close>

locale accepting =
  fixes acc :: "'l \<Rightarrow> (nat, 'l) run" and waiting :: "'l \<Rightarrow> nat list" and other :: "'l \<Rightarrow> 'r"
  assumes acc_next: "waiting l = c # cs \<Longrightarrow>
    \<exists>l'. acc l = (Ok c, l') \<and> waiting l' = cs \<and> other l' = other l"
begin

lemma loop_admits:
  assumes run: "\<And>n. \<not> stop n" "\<And>n. \<not> stop' n"
  shows "waiting l = cs \<Longrightarrow> 0 \<le> sint (WriteChanSize (ss_opts s)) \<Longrightarrow>
    \<exists>l'. accept_loop acc stop stop' n l s = accept_loop acc stop stop' (n + length cs) l' (admit cs s)
      \<and> waiting l' = [] \<and> other l' = other l"
proof (induction cs arbitrary: n l s)
  case Nil
  then show ?case by auto
next
  case (Cons c cs)
  obtain l1 where l1: "acc l = (Ok c, l1)" "waiting l1 = cs" "other l1 = other l"
    using acc_next [OF Cons.prems(1)] by blast
  let ?s = "snd (accept_turn False (Inr c) s)"
  have "accept_loop acc stop stop' n l s = accept_loop acc stop stop' (Suc n) l1 ?s"
    using l1(1) run accept_turn_go [OF Cons.prems(2), of c] by (subst accept_loop.simps) simp
  moreover have "0 \<le> sint (WriteChanSize (ss_opts ?s))" using Cons.prems(2) by simp
  from Cons.IH [OF l1(2) this, of "Suc n"] obtain l2
    where "accept_loop acc stop stop' (Suc n) l1 ?s
        = accept_loop acc stop stop' (Suc n + length cs) l2 (admit cs ?s)"
      "waiting l2 = []" "other l2 = other l1" by blast
  ultimately show ?case using l1(3) by (intro exI [of _ l2]) simp
qed

end

text \<open>A listener that is closed says so, and closing it lets the goroutine end.\<close>

locale closing = accepting acc waiting other
  for acc :: "'l \<Rightarrow> (nat, 'l) run" and waiting :: "'l \<Rightarrow> nat list" and other :: "'l \<Rightarrow> 'r" +
  fixes cls :: "'l \<Rightarrow> (unit, 'l) run" and down :: "'r \<Rightarrow> bool"
  assumes close_down: "cls l = (x, l') \<Longrightarrow> x \<noteq> Blocked \<and> waiting l' = [] \<and> down (other l')"
    and acc_down: "waiting l = [] \<Longrightarrow> down (other l) \<Longrightarrow>
      \<exists>er l'. acc l = (Err er, l') \<and> errors_is er ErrNetClosed"
begin

lemma go_serves:
  assumes run: "\<And>n. \<not> stop n" "\<And>n. \<not> stop' n"
    and l: "down (other l)" and w: "0 \<le> sint (WriteChanSize (ss_opts s))"
  shows "\<exists>l'. accept_go acc cls stop stop' ln l s
      = Some (Ok (), (l', end_task (TAccept ln) (admit (waiting l) s)))
    \<and> waiting l' = [] \<and> down (other l')"
proof -
  obtain l1 where l1: "accept_loop acc stop stop' 0 l s
      = accept_loop acc stop stop' (0 + length (waiting l)) l1 (admit (waiting l) s)"
    "waiting l1 = []" "other l1 = other l"
    using loop_admits [where stop = stop and stop' = stop' and n = 0, OF run refl w] by blast
  have "down (other l1)" using l l1(3) by simp
  from acc_down [OF l1(2) this] obtain er l2 where a: "acc l1 = (Err er, l2)" "errors_is er ErrNetClosed"
    by blast
  have loop: "accept_loop acc stop stop' 0 l s = Some (Ok (), (l2, admit (waiting l) s))"
    unfolding l1(1) using a run by (subst accept_loop.simps) (simp add: accept_turn_def)
  obtain x l3 where c: "cls l2 = (x, l3)" by fastforce
  have "accept_go acc cls stop stop' ln l s = Some (Ok (), (l3, end_task (TAccept ln) (admit (waiting l) s)))"
    using loop c close_down [OF c] by (cases x) (auto simp: accept_go_def)
  then show ?thesis using close_down [OF c] by blast
qed

end

section \<open>The three listeners\<close>

fun incoming :: "tcp_event list \<Rightarrow> nat list \<times> tcp_event list" where
  "incoming (Incoming c # es) = (case incoming es of (cs, r) \<Rightarrow> (c # cs, r))"
| "incoming es = ([], es)"

definition tcp_waiting :: "tcp_listener \<Rightarrow> nat list" where
  "tcp_waiting l = (if tl_closed l then [] else fst (incoming (tl_events l)))"

definition tcp_other :: "tcp_listener \<Rightarrow> bool \<times> tcp_event list" where
  "tcp_other l = (tl_closed l, snd (incoming (tl_events l)))"

definition tcp_down :: "bool \<times> tcp_event list \<Rightarrow> bool" where
  "tcp_down r \<longleftrightarrow> fst r \<or> (\<exists>es. snd r = CloseCalled # es)"

lemma incoming_Nil: "incoming es = ([], r) \<Longrightarrow> r = es"
  by (induction es rule: incoming.induct) (auto split: prod.splits)

interpretation tcp_ln: closing tcp_Accept tcp_waiting tcp_other tcp_Close tcp_down
proof
  fix l c cs assume "tcp_waiting l = c # cs"
  then show "\<exists>l'. tcp_Accept l = (Ok c, l') \<and> tcp_waiting l' = cs \<and> tcp_other l' = tcp_other l"
    by (cases "tl_events l" rule: incoming.cases)
      (auto simp: tcp_waiting_def tcp_other_def tcp_Accept_def split: if_splits prod.splits)
next
  fix l x l' assume "tcp_Close l = (x, l')"
  then show "x \<noteq> Blocked \<and> tcp_waiting l' = [] \<and> tcp_down (tcp_other l')"
    by (auto simp: tcp_Close_def tcp_waiting_def tcp_down_def tcp_other_def split: if_splits)
next
  fix l assume w: "tcp_waiting l = []" and d: "tcp_down (tcp_other l)"
  show "\<exists>er l'. tcp_Accept l = (Err er, l') \<and> errors_is er ErrNetClosed"
  proof (cases "tl_closed l")
    case False
    then obtain es where "snd (incoming (tl_events l)) = CloseCalled # es"
      using d by (auto simp: tcp_down_def tcp_other_def)
    then have "incoming (tl_events l) = ([], CloseCalled # es)"
      using w False by (cases "incoming (tl_events l)") (simp add: tcp_waiting_def)
    then have "tl_events l = CloseCalled # es" by (rule incoming_Nil [symmetric])
    then show ?thesis using False by (simp add: tcp_Accept_def)
  qed (simp add: tcp_Accept_def)
qed

definition wss_waiting :: "wss_server \<Rightarrow> nat list" where
  "wss_waiting l = (if wl_err l = None then items (wl_connChan l) else [])"

interpretation wss_ln: accepting wss_server_Accept wss_waiting "\<lambda>l. (wl_err l, wl_route l, ws_running l)"
proof
  fix l c cs assume "wss_waiting l = c # cs"
  then show "\<exists>l'. wss_server_Accept l = (Ok c, l') \<and> wss_waiting l' = cs
      \<and> (wl_err l', wl_route l', ws_running l') = (wl_err l, wl_route l, ws_running l)"
    by (auto simp: wss_waiting_def wss_server_Accept_def recv_def split: if_splits)
qed

interpretation udp_ln: accepting udp_Accept "\<lambda>l :: udp_listener. items (ul_connCh l)"
  "\<lambda>l :: udp_listener. closed (ul_connCh l)"
proof
  fix l :: udp_listener and c cs assume "items (ul_connCh l) = c # cs"
  then show "\<exists>l'. udp_Accept l = (Ok c, l') \<and> items (ul_connCh l') = cs
      \<and> closed (ul_connCh l') = closed (ul_connCh l)"
    by (auto simp: udp_Accept_def recv_def)
qed

section \<open>Who gets a socket\<close>

definition room_for :: "nat \<Rightarrow> sockets \<Rightarrow> nat" where
  "room_for n s =
     (if 0 < sint (ConnectMaxSize (ss_opts s))
      then min n (nat (sint (ConnectMaxSize (ss_opts s)) - int (card (dom (ss_sockets s))))) else n)"

lemma admit_full: "full s \<Longrightarrow> 0 \<le> sint (WriteChanSize (ss_opts s)) \<Longrightarrow>
    admit cs s = s\<lparr>ss_closed := ss_closed s @ cs\<rparr>"
proof (induction cs arbitrary: s)
  case (Cons c cs)
  let ?s = "s\<lparr>ss_closed := ss_closed s @ [c]\<rparr>"
  have "full ?s" "0 \<le> sint (WriteChanSize (ss_opts ?s))" using Cons.prems by (simp_all add: full_def)
  from Cons.IH [OF this] show ?case using Cons.prems by (simp add: accept_turn_go)
qed simp

lemma full_room:
  assumes "ss_inv e s"
  shows "room_for n s = 0 \<longleftrightarrow> n = 0 \<or> full s"
proof (cases "0 < sint (ConnectMaxSize (ss_opts s))")
  case True
  have "sint (ss_count s) = int (card (dom (ss_sockets s)))"
    using assms True by (intro count_sint) (simp_all add: ss_inv_def)
  then show ?thesis using True by (auto simp: room_for_def full_def min_def)
qed (auto simp: room_for_def full_def)

lemma created_socket:
  "ss_heap (created c s) (ss_next s) = Some ((fresh_socket (ss_index s + 1)
     (nat (sint (WriteChanSize (ss_opts s)))))\<lparr>sk_conn := Some c, sk_stop := Some False,
       sk_status := SocketStatusConnected, sk_heartbeat := 0\<rparr>)"
  "p \<noteq> ss_next s \<Longrightarrow> ss_heap (created c s) p = ss_heap s p"
  by (simp_all add: created_def go_start_def sock_Emit_def Let_def)

lemma room_created:
  assumes "ss_inv e s" "ss_index s \<noteq> - 1" "\<not> full s"
  shows "room_for (Suc n) s = Suc (room_for n (created c s))"
proof -
  have tb: "table_inv s" and h: "heap_inv s" using assms(1) by (simp_all add: ss_inv_def)
  have "ss_index s + 1 \<notin> dom (ss_sockets s)"
  proof
    assume "ss_index s + 1 \<in> dom (ss_sockets s)"
    then obtain p k where "ss_heap s p = Some k" "sk_id k = ss_index s + 1"
      using tb unfolding table_inv_def by blast
    then show False using heap_inv_bump(2) [OF h assms(2)] by simp
  qed
  then have "card (dom (ss_sockets (created c s))) = Suc (card (dom (ss_sockets s)))" by simp
  moreover have "0 < nat (sint (ConnectMaxSize (ss_opts s)) - int (card (dom (ss_sockets s))))"
    if "0 < sint (ConnectMaxSize (ss_opts s))"
    using assms(3) that count_sint [of s] assms(1) by (auto simp: full_def ss_inv_def)
  ultimately show ?thesis by (auto simp: room_for_def min_def)
qed

lemma index_bound:
  fixes i :: u64
  assumes "unat i + Suc n < 2 ^ 64"
  shows "i \<noteq> - 1 \<and> unat (i + 1) + n < 2 ^ 64"
proof -
  have u: "unat (i + 1) = Suc (unat i)" using assms by (simp add: unat_word_ariths(1))
  then have "i \<noteq> - 1" by auto
  then show ?thesis using assms u by simp
qed

lemma admit_effect:
  assumes "0 \<le> sint (WriteChanSize (ss_opts s))" "unat (ss_index s) + length cs < 2 ^ 64" "ss_inv e s"
  shows "ss_inv e (admit cs s) \<and> ss_closed (admit cs s) = ss_closed s @ drop (room_for (length cs) s) cs
    \<and> ss_next (admit cs s) = ss_next s + room_for (length cs) s
    \<and> (\<forall>p < ss_next s. ss_heap (admit cs s) p = ss_heap s p)
    \<and> (\<forall>j < room_for (length cs) s. \<exists>k. ss_heap (admit cs s) (ss_next s + j) = Some k
          \<and> sk_conn k = Some (cs ! j) \<and> sk_status k = SocketStatusConnected
          \<and> sk_id k = ss_index s + 1 + word_of_nat j)"
  using assms
proof (induction cs arbitrary: s)
  case Nil
  then show ?case by (simp add: room_for_def)
next
  case (Cons c cs)
  have i: "ss_index s \<noteq> - 1" "unat (ss_index s + 1) + length cs < 2 ^ 64"
    using index_bound [of "ss_index s" "length cs"] Cons.prems(2) by simp_all
  show ?case
  proof (cases "full s")
    case True
    have "ss_inv e (s\<lparr>ss_closed := ss_closed s @ c # cs\<rparr>)" using Cons.prems(3) by simp
    then show ?thesis
      using admit_full [OF True Cons.prems(1), of "c # cs"] full_room [OF Cons.prems(3), of "Suc (length cs)"] True
      by simp
  next
    case False
    let ?t = "created c s"
    have room: "0 < sint (ConnectMaxSize (ss_opts s)) \<longrightarrow> sint (ss_count s) < sint (ConnectMaxSize (ss_opts s))"
      using False by (auto simp: full_def)
    have it: "ss_inv e ?t" by (rule created_keeps [OF Cons.prems(3) i(1) room])
    have a: "admit (c # cs) s = admit cs ?t" using Cons.prems(1) False by (simp add: accept_turn_go)
    have r: "room_for (length (c # cs)) s = Suc (room_for (length cs) ?t)"
      using room_created [OF Cons.prems(3) i(1) False] by simp
    have w: "0 \<le> sint (WriteChanSize (ss_opts ?t))" "unat (ss_index ?t) + length cs < 2 ^ 64"
      using Cons.prems(1) i(2) by simp_all
    note ih = Cons.IH [OF w it]
    have "\<exists>k. ss_heap (admit cs ?t) (ss_next s + j) = Some k \<and> sk_conn k = Some ((c # cs) ! j)
        \<and> sk_status k = SocketStatusConnected \<and> sk_id k = ss_index s + 1 + word_of_nat j"
      if "j < Suc (room_for (length cs) ?t)" for j
    proof (cases j)
      case 0
      have "ss_heap (admit cs ?t) (ss_next s) = ss_heap ?t (ss_next s)" using ih by simp
      then show ?thesis using 0 by (simp add: created_socket(1) fresh_socket_def)
    next
      case (Suc j')
      then have "j' < room_for (length cs) ?t" using that by simp
      then show ?thesis using ih Suc by (auto simp: ac_simps)
    qed
    moreover have "ss_heap (admit cs ?t) p = ss_heap s p" if "p < ss_next s" for p
      using ih that by (simp add: created_socket(2))
    ultimately show ?thesis unfolding a r using ih by simp
  qed
qed

lemma incoming_map [simp]: "incoming (map Incoming cs @ CloseCalled # es) = (cs, CloseCalled # es)"
  by (induction cs) simp_all

text \<open>
  C23. The accept loop of a tcp listener serves every connection that arrives before the listener is
  closed, in order: as long as the limit has room each gets a socket of its own, connected, in
  the table under its id, with its connection; the connections beyond the limit are closed; and
  once the listener is closed the loop returns, whatever events are left.
\<close>

theorem accept_loop_serves:
  assumes inv: "ss_inv e s" and w: "0 \<le> sint (WriteChanSize (ss_opts s))"
    and ids: "unat (ss_index s) + length cs < 2 ^ 64"
    and l: "\<not> tl_closed l" "tl_events l = map Incoming cs @ CloseCalled # es"
    and run: "\<And>n. \<not> stop n" "\<And>n. \<not> stop' n"
  shows "\<exists>l' t. accept_go tcp_Accept tcp_Close stop stop' ln l s = Some (Ok (), (l', t)) \<and> ss_inv e t
    \<and> ss_closed t = ss_closed s @ drop (room_for (length cs) s) cs
    \<and> (\<forall>p < ss_next s. ss_heap t p = ss_heap s p)
    \<and> (\<forall>j < room_for (length cs) s. \<exists>k. ss_heap t (ss_next s + j) = Some k
          \<and> sk_conn k = Some (cs ! j) \<and> sk_status k = SocketStatusConnected
          \<and> sockets_Get (sk_id k) t = Some (ss_next s + j))"
proof -
  have wl: "tcp_waiting l = cs" and d: "tcp_down (tcp_other l)"
    using l by (simp_all add: tcp_waiting_def tcp_other_def tcp_down_def)
  obtain l' where go: "accept_go tcp_Accept tcp_Close stop stop' ln l s
      = Some (Ok (), (l', end_task (TAccept ln) (admit cs s)))"
    using tcp_ln.go_serves [where stop = stop and stop' = stop' and ln = ln, OF run d w] wl by blast
  let ?t = "end_task (TAccept ln) (admit cs s)"
  note a = admit_effect [OF w ids inv]
  have it: "ss_inv e ?t" using a by (intro ss_inv_end_task) simp_all
  have keep: "ss_heap ?t = ss_heap (admit cs s)" "ss_closed ?t = ss_closed (admit cs s)"
    "ss_sockets ?t = ss_sockets (admit cs s)" by (simp_all add: end_task_def)
  have "sockets_Get (sk_id k) ?t = Some p" if "ss_heap ?t p = Some k" "sk_status k = SocketStatusConnected" for p k
    using live_in_table [OF it that(1)] that(2) by (simp add: sockets_Get_def)
  then show ?thesis using go it a keep(1,2) by (intro exI [of _ l'] exI [of _ ?t]) (simp, metis)
qed

theorem accept_loop_serves_witness:
  "\<exists>l' t. accept_go tcp_Accept tcp_Close (\<lambda>_. False) (\<lambda>_. False) 0
      \<lparr>tl_events = [Incoming 7, Incoming 8, CloseCalled], tl_closed = False\<rparr>
      (sockets_New (Config_default\<lparr>ConnectMaxSize := 1\<rparr>)) = Some (Ok (), (l', t))
    \<and> ss_closed t = [8] \<and> (\<exists>k. ss_heap t 0 = Some k \<and> sk_conn k = Some 7)"
proof -
  define u where "u = sockets_New (Config_default\<lparr>ConnectMaxSize := 1\<rparr>)"
  have o: "ss_closed u = []" "ss_next u = 0" "ss_index u = 0" "sint (WriteChanSize (ss_opts u)) = 100"
    "room_for (length [7, 8 :: nat]) u = 1"
    by (simp_all add: u_def sockets_New_def Config_default_def room_for_def)
  have i: "ss_inv sample_env u" unfolding u_def by (rule ss_inv_New) simp
  have "0 \<le> sint (WriteChanSize (ss_opts u))" "unat (ss_index u) + length [7, 8 :: nat] < 2 ^ 64"
    by (simp_all add: o)
  from accept_loop_serves [OF i this, of "\<lparr>tl_events = [Incoming 7, Incoming 8, CloseCalled], tl_closed = False\<rparr>"
        "[]" "\<lambda>_. False" "\<lambda>_. False" 0]
  show ?thesis unfolding u_def [symmetric] o by auto
qed

section \<open>Listeners that do not say that they are closed\<close>

lemma accept_loop_udp_none:
  assumes "accept_loop acc stop stop' n l s = Some y"
  shows "\<not> (acc = udp_Accept \<and> (\<forall>n. \<not> stop n) \<and> closed (ul_connCh l) \<and> items (ul_connCh l) = [])"
proof (rule accept_loop.raw_induct [OF _ assms, where P = "\<lambda>acc stop stop' n l s y.
    \<not> (acc = udp_Accept \<and> (\<forall>n. \<not> stop n) \<and> closed (ul_connCh l) \<and> items (ul_connCh l) = [])"])
  fix al :: "(udp_listener \<Rightarrow> (nat, udp_listener) run) \<Rightarrow> (nat \<Rightarrow> bool) \<Rightarrow> (nat \<Rightarrow> bool) \<Rightarrow> nat
      \<Rightarrow> udp_listener \<Rightarrow> sockets \<Rightarrow> (unit, udp_listener \<times> sockets) run option"
    and acc stop stop' n l s y
  let ?P = "\<lambda>acc stop (l :: udp_listener).
    \<not> (acc = udp_Accept \<and> (\<forall>n :: nat. \<not> stop n) \<and> closed (ul_connCh l) \<and> items (ul_connCh l) = [])"
  assume ih: "\<And>acc stop stop' n l s y. al acc stop stop' n l s = Some y \<Longrightarrow> ?P acc stop l"
    and body: "(if stop n then Some (Ok (), (l, s))
      else
        let r = fst (acc l); l' = snd (acc l);
            t = accept_turn (stop' n) (case r of Ok c \<Rightarrow> Inr c | Err er \<Rightarrow> Inl er | _ \<Rightarrow> Inr 0) s in
        if r = Panic \<or> r = Blocked then Some (done_with r, (l', s))
        else if fst t = Ok True then al acc stop stop' (Suc n) l' (snd t)
        else Some (done_with (fst t), (l', snd t))) = Some y"
  show "?P acc stop l"
  proof
    assume a: "acc = udp_Accept \<and> (\<forall>n :: nat. \<not> stop n) \<and> closed (ul_connCh l) \<and> items (ul_connCh l) = []"
    then have "udp_Accept l = (Err (ErrNew ''udp listener closed''), l)"
      by (simp add: udp_Accept_def recv_def)
    then have "al acc stop stop' (Suc n) l s = Some y"
      using body a by (simp add: accept_turn_def)
    from ih [OF this] a show False by blast
  qed
qed

lemma accept_loop_udp_spins:
  assumes "closed (ul_connCh l)" "items (ul_connCh l) = []" "\<And>n. \<not> stop n"
  shows "accept_loop udp_Accept stop stop' n l s = None"
proof (cases "accept_loop udp_Accept stop stop' n l s")
  case (Some y)
  from accept_loop_udp_none [OF Some] show ?thesis using assms by blast
qed

text \<open>
  Closing a udp or a websocket listener does not end its accept loop. The udp listener reports
  the end with an error of its own, which the loop does not recognise: it asks again at once and,
  as long as the process runs, never returns. The websocket listener's queue stays open: the loop
  waits there for ever.
\<close>

theorem Close_does_not_end_accept_loop:
  assumes l: "ul_conns l = Some Map.empty" "\<not> ul_mu l" "\<not> closed (ul_connCh l)"
      "0 \<le> sint (WriteChanSize (ss_opts s))"
    and wl: "wl_err x = None" "items (wl_connChan x) = []" "\<not> closed (wl_connChan x)"
    and run: "\<And>n. \<not> stop n" "\<And>n. \<not> stop' n"
  shows "(\<exists>l'. udp_Close [] l = (Ok (), l') \<and> accept_go udp_Accept (udp_Close []) stop stop' ln l' s = None)
    \<and> (\<exists>x'. wss_Close x = (Ok (), x') \<and> \<not> ws_running x'
        \<and> accept_go wss_server_Accept wss_Close stop stop' ln x' s = Some (Blocked, (x', s)))"
proof -
  let ?l = "l\<lparr>ul_connCh := (ul_connCh l)\<lparr>closed := True\<rparr>, ul_conns := None, ul_mu := False, ul_sock_open := False\<rparr>"
  have c: "udp_Close [] l = (Ok (), ?l)"
    using l by (simp add: udp_Close_def chan_close_def mu_lock_def mu_unlock_def)
  obtain l2 where l2: "accept_loop udp_Accept stop stop' 0 ?l s
      = accept_loop udp_Accept stop stop' (0 + length (items (ul_connCh ?l))) l2 (admit (items (ul_connCh ?l)) s)"
    "items (ul_connCh l2) = []" "closed (ul_connCh l2)"
    using udp_ln.loop_admits [where stop = stop and stop' = stop' and n = 0, OF run refl l(4), of ?l] by auto
  have "accept_loop udp_Accept stop stop' 0 ?l s = None"
    unfolding l2(1) by (rule accept_loop_udp_spins [OF l2(3,2) run(1)])
  then have "accept_go udp_Accept (udp_Close []) stop stop' ln ?l s = None" by (simp add: accept_go_def)
  moreover have "accept_loop wss_server_Accept stop stop' 0 (x\<lparr>ws_running := False\<rparr>) s
      = Some (Blocked, (x\<lparr>ws_running := False\<rparr>, s))"
    using wl run by (subst accept_loop.simps) (simp add: wss_server_Accept_def recv_def)
  ultimately show ?thesis using c by (simp add: wss_Close_def accept_go_def)
qed

theorem Close_does_not_end_accept_loop_witness:
  "\<exists>l'. udp_Close [] (new_udp 1) = (Ok (), l')
    \<and> accept_go udp_Accept (udp_Close []) (\<lambda>_. False) (\<lambda>_. False) 0 l' (sockets_New Config_default) = None"
  using Close_does_not_end_accept_loop [of "new_udp 1" "sockets_New Config_default"
      "new_wss 1 False []" "\<lambda>_. False" "\<lambda>_. False" 0]
  by (simp add: new_udp_def sockets_New_def Config_default_def new_wss_def make_chan_def)

section \<open>Listening and stopping\<close>

text \<open>\<open>strings.ToLower\<close> on the ASCII letters a scheme consists of.\<close>

definition to_lower :: "bytes \<Rightarrow> bytes" where
  "to_lower = map (\<lambda>b. if 65 \<le> b \<and> b \<le> 90 then b + 32 else b)"

text \<open>
  \<open>Listen\<close>: \<open>opened\<close> is what the package of the network returns for the address. On an error
  there is no accept loop.
\<close>

definition Listen :: "bytes \<Rightarrow> (network \<Rightarrow> err + nat) \<Rightarrow> sockets \<Rightarrow> (nat, sockets) run" where
  "Listen scheme opened s =
     (case listen_network (to_lower scheme) of
        Inl er \<Rightarrow> (Err er, s)
      | Inr net \<Rightarrow>
          (case opened net of
             Inl er \<Rightarrow> (Err er, s)
           | Inr ln \<Rightarrow> (Ok ln, Accept ln s)))"

text \<open>\<open>stop\<close> closes the listeners one by one; their errors are dropped.\<close>

fun sockets_stop :: "(nat \<Rightarrow> 'w \<Rightarrow> (unit, 'w) run) \<Rightarrow> nat list \<Rightarrow> 'w \<Rightarrow> (unit, 'w) run" where
  "sockets_stop cls [] w = (Ok (), w)"
| "sockets_stop cls (ln # lns) w =
     (case cls ln w of
        (Panic, w) \<Rightarrow> (Panic, w)
      | (Blocked, w) \<Rightarrow> (Blocked, w)
      | (_, w) \<Rightarrow> sockets_stop cls lns w)"

text \<open>A udp listener that is already closed panics when it is closed again, and \<open>stop\<close> with it.\<close>

lemma udp_Close_closes: "udp_Close order l = (Ok (), l') \<Longrightarrow> closed (ul_connCh l')"
  by (cases order)
    (auto simp: udp_Close_def chan_close_def mu_lock_def mu_unlock_def udp_conn_Close_def removeConn_def
      split: if_splits option.splits)

lemma udp_second_Close_panics:
  assumes "udp_Close order l = (Ok (), l')"
  shows "sockets_stop (\<lambda>_. udp_Close order') [ln] l' = (Panic, l')"
proof -
  have "closed (ul_connCh l')"
    using assms udp_Close_closes by blast
  then show ?thesis by (simp add: udp_Close_def chan_close_def)
qed

end
