(* ===== verification/SocketApi.thy ===== *)
theory SocketApi
  imports Listeners
begin

text \<open>
  The rest of \<open>socket.go\<close>: the plain getters, and \<open>Async\<close> with the goroutine it starts. A
  \<open>Write\<close> that waits, or that is interrupted between its check and its \<open>select\<close>, goes on from
  the \<open>select\<close>; what it finds there is the subject of the properties.
\<close>

section \<open>Getters\<close>

definition sock_Id :: "socket \<Rightarrow> u64" where
  "sock_Id k = sk_id k"

definition sock_Errorf :: "nat \<Rightarrow> err \<Rightarrow> sockets \<Rightarrow> sockets" where
  "sock_Errorf p er s = Errorf (Some p) er s"

text \<open>A nil socket is \<open>None\<close>.\<close>

definition sock_Is :: "socket \<Rightarrow> socket option \<Rightarrow> bool" where
  "sock_Is k target = (case target of None \<Rightarrow> False | Some t \<Rightarrow> sk_id k = sk_id t)"

definition sock_Data :: "socket \<Rightarrow> nat option" where
  "sock_Data k = sk_data k"

definition sock_Conn :: "socket \<Rightarrow> nat option" where
  "sock_Conn k = sk_conn k"

text \<open>The addresses are those of the connection, which \<open>addr\<close> knows; a socket without one has none.\<close>

definition sock_LocalAddr :: "(nat \<Rightarrow> bytes) \<Rightarrow> socket \<Rightarrow> bytes option" where
  "sock_LocalAddr addr k = (case sk_conn k of Some c \<Rightarrow> Some (addr c) | None \<Rightarrow> None)"

definition sock_RemoteAddr :: "(nat \<Rightarrow> bytes) \<Rightarrow> socket \<Rightarrow> bytes option" where
  "sock_RemoteAddr addr k = (case sk_conn k of Some c \<Rightarrow> Some (addr c) | None \<Rightarrow> None)"

section \<open>Waiting writes\<close>

text \<open>
  \<open>Write\<close> from its \<open>select\<close> on, for a call that has passed the check of the status. A call that
  waits resumes here, on the stop channel it started with (a server socket has only one).
\<close>

definition Write_resume ::
  "bool \<Rightarrow> nat \<Rightarrow> message \<Rightarrow> bool list \<Rightarrow> sockets \<Rightarrow> (unit, sockets) run" where
  "Write_resume pick p m safe s =
     (case Write_select pick safe m (sock p s) of
        (Panic, _) \<Rightarrow> (Err (ErrNew ''socket write panic''), s)
      | (x, ch) \<Rightarrow> (x, upd p (\<lambda>k. k\<lparr>sk_cwrite := ch\<rparr>) s))"

lemma sock_Write_resume:
  "sock_Write pick p m safe s =
     (if IsReady (sock p s) then Write_resume pick p m safe s else (Err (ErrNew ''socket not ready''), s))"
  by (simp add: sock_Write_def Write_resume_def)

text \<open>\<open>SocketAsyncResult\<close>: the error, and whether the channel is closed.\<close>

record async_result =
  ar_e :: "err option"
  ar_c :: bool

definition async_new :: async_result where
  "async_new = \<lparr>ar_e = None, ar_c = False\<rparr>"

definition async_Wait :: "async_result \<Rightarrow> err option outcome" where
  "async_Wait r = (if ar_c r then Ok (ar_e r) else Blocked)"

text \<open>The end of the goroutine: it stores the error and closes the channel, after a panic as well.\<close>

definition async_finish :: "(unit, sockets) run \<Rightarrow> async_result \<Rightarrow> async_result \<times> sockets" where
  "async_finish w r =
     (case w of
        (Ok _, s) \<Rightarrow> (r\<lparr>ar_e := None, ar_c := True\<rparr>, s)
      | (Err er, s) \<Rightarrow> (r\<lparr>ar_e := Some er, ar_c := True\<rparr>, s)
      | (Panic, s) \<Rightarrow> (r\<lparr>ar_e := Some (ErrNew ''socket async panic''), ar_c := True\<rparr>, s)
      | (Blocked, s) \<Rightarrow> (r, s))"

text \<open>The goroutine when it starts, and when it goes on after it had to wait.\<close>

definition Async ::
  "bool \<Rightarrow> nat \<Rightarrow> message \<Rightarrow> bool list \<Rightarrow> sockets \<Rightarrow> async_result \<times> sockets" where
  "Async pick p m safe s = async_finish (sock_Write pick p m safe s) async_new"

definition Async_resume ::
  "bool \<Rightarrow> nat \<Rightarrow> message \<Rightarrow> bool list \<Rightarrow> async_result \<Rightarrow> sockets \<Rightarrow> async_result \<times> sockets" where
  "Async_resume pick p m safe r s = async_finish (Write_resume pick p m safe s) r"

section \<open>Properties\<close>

text \<open>
  Identifiers identify: in every reachable state two live sockets are the same socket exactly
  when \<open>Is\<close> says so, \<open>Get\<close> finds a live socket under its \<open>Id\<close>, and a socket shows an address
  and a connection while it is connected or closing and none after that.
\<close>

theorem Is_identifies_live_sockets:
  assumes run: "(ss_step e)\<^sup>*\<^sup>* (sockets_New opt) s" and cap: "0 \<le> Capacity (opts e)"
    and k: "ss_heap s p = Some k" "sk_status k \<noteq> SocketStatusReleased"
    and l: "ss_heap s q = Some l" "sk_status l \<noteq> SocketStatusReleased"
  shows "(sock_Is k (Some l) \<longleftrightarrow> p = q) \<and> sockets_Get (sock_Id k) s = Some p
    \<and> (sock_Conn k \<noteq> None \<longleftrightarrow> sk_status k \<noteq> SocketStatusReconnecting)
    \<and> (sock_RemoteAddr addr k = None \<longleftrightarrow> sk_status k = SocketStatusReconnecting)"
proof -
  have inv: "ss_inv e s" by (rule ss.run_keeps [OF run ss_inv_New [OF cap]])
  have "ss_sockets s (sk_id k) = Some p" "ss_sockets s (sk_id l) = Some q"
    using live_in_table [OF inv] k l by blast+
  then have "sk_id k = sk_id l \<longleftrightarrow> p = q" using k l by auto
  then show ?thesis
    using \<open>ss_sockets s (sk_id k) = Some p\<close> ss_inv_facts(3) [OF inv k(1)] k(2)
    by (auto simp: sock_Is_def sockets_Get_def sock_Id_def sock_Conn_def sock_RemoteAddr_def sock_ok_def
        split: status.splits)
qed

theorem Is_identifies_live_sockets_witness:
  "sock_Is (sock 0 sample_manager) (Some (sock 0 sample_manager)) \<and> sockets_Get 1 sample_manager = Some 0"
  using Is_identifies_live_sockets [OF sample_manager_run _ sample_manager_heap(1) _ sample_manager_heap(1)]
  by (simp add: sample_manager_heap(1) sock_Id_def fresh_socket_def)

text \<open>
  C33. A send that waits ends: on a full queue in safe mode the goroutine of \<open>Async\<close> waits and so does
  its caller's \<open>Wait\<close>; a turn of the write loop lets it queue its message behind the others and
  \<open>Wait\<close> returns nil; a disconnect instead makes \<open>Wait\<close> return the error of a closed socket.
\<close>

theorem waiting_Async_ends:
  assumes inv: "ss_inv e s" and k: "ss_heap s p = Some k" "IsReady k" and srv: "sock_Type k = SocketTypeServer"
    and full: "items (sk_cwrite k) = m0 # ms" "length (items (sk_cwrite k)) = ccap (sk_cwrite k)"
  shows "Async pick p m [] s = (async_new, s) \<and> async_Wait async_new = Blocked
    \<and> (\<exists>t r u. writeMsg_turn e False pick None p s = (Ok True, t)
        \<and> Async_resume pick p m [] async_new t = (r, u)
        \<and> async_Wait r = Ok None \<and> items (sk_cwrite (sock p u)) = ms @ [m])
    \<and> (\<exists>t r u. disconnect e p s = (Ok True, t)
        \<and> Async_resume True p m [] async_new t = (r, u)
        \<and> async_Wait r = Ok (Some (ErrNew ''socket closed'')) \<and> items (sk_cwrite (sock p u)) = [])"
proof (intro conjI)
  note ok = ss_inv_facts(3) [OF inv k(1)]
  obtain cn where open_k: "sk_stop k = Some False" "sk_conn k = Some cn" "\<not> closed (sk_cwrite k)"
    using ok k(2) by (auto simp: IsReady_def sock_ok_def)
  show "Async pick p m [] s = (async_new, s)"
    using sock_Write_cases [OF inv k(1), of pick m "[]"] k(2) full
    by (simp add: Async_def async_finish_def IsReady_def)
  show "async_Wait async_new = Blocked" by (simp add: async_Wait_def async_new_def)
  let ?s = "upd p (\<lambda>k. k\<lparr>sk_cwrite := (sk_cwrite k)\<lparr>items := ms\<rparr>\<rparr>) s"
  have ks: "ss_heap ?s p = Some (k\<lparr>sk_cwrite := (sk_cwrite k)\<lparr>items := ms\<rparr>\<rparr>)"
    using k(1) by (simp add: upd_def)
  obtain m' where m': "message_Release e m0 = (Ok (), m')"
    using message_Release_ok [OF ss_inv_facts(1) [OF inv]] by blast
  let ?t = "?s\<lparr>ss_pool := if Pool (opts e) then m' # ss_pool s else ss_pool s\<rparr>"
  have turn: "writeMsg_turn e False pick None p s = (Ok True, ?t)"
    using k(1) ks open_k full m' by (simp add: writeMsg_turn_def writeMsgTrue_def Release_def upd_def)
  have kt: "ss_heap ?t p = Some (k\<lparr>sk_cwrite := (sk_cwrite k)\<lparr>items := ms\<rparr>\<rparr>)" using ks by simp
  have "length ms < ccap (sk_cwrite k)" using full by simp
  then have "Write_resume pick p m [] ?t
      = (Ok (), upd p (\<lambda>l. l\<lparr>sk_cwrite := (sk_cwrite k)\<lparr>items := ms @ [m]\<rparr>\<rparr>) ?t)"
    using open_k by (simp add: Write_resume_def Write_select_def sock_Some [OF kt])
  moreover have "items (sk_cwrite (sock p (upd p (\<lambda>l. l\<lparr>sk_cwrite := (sk_cwrite k)\<lparr>items := ms @ [m]\<rparr>\<rparr>) ?t))) = ms @ [m]"
    using k(1) by (simp add: sock_def upd_def)
  ultimately show "\<exists>t r u. writeMsg_turn e False pick None p s = (Ok True, t)
        \<and> Async_resume pick p m [] async_new t = (r, u)
        \<and> async_Wait r = Ok None \<and> items (sk_cwrite (sock p u)) = ms @ [m]"
    using turn by (simp add: Async_resume_def async_finish_def async_Wait_def)
  have v: "isValidStatus (sk_status k)" using k(2) by (simp add: IsReady_def isValidStatus_def)
  obtain c pool where d: "disconnect e p s = (Ok True,
      released p (k\<lparr>sk_status := SocketStatusDisconnected, sk_stop := Some True, sk_conn := None\<rparr>) pool
        (cut p c k SocketStatusDisconnected s))" (is "_ = (_, ?d)")
    using disconnect_server_state [OF inv k(1) v srv] by metis
  have "items (sk_cwrite (sock p ?d)) = []" "sk_stop (sock p ?d) = Some True" "\<not> closed (sk_cwrite (sock p ?d))"
    using open_k(3) by (simp_all add: sock_def released_def)
  then have "Write_resume True p m [] ?d
      = (Err (ErrNew ''socket closed''), upd p (\<lambda>l. l\<lparr>sk_cwrite := sk_cwrite (sock p ?d)\<rparr>) ?d)"
    by (simp add: Write_resume_def Write_select_def)
  then show "\<exists>t r u. disconnect e p s = (Ok True, t)
        \<and> Async_resume True p m [] async_new t = (r, u)
        \<and> async_Wait r = Ok (Some (ErrNew ''socket closed'')) \<and> items (sk_cwrite (sock p u)) = []"
    using d by (simp add: Async_resume_def async_finish_def async_Wait_def)
      (simp add: sock_def upd_def released_def)
qed

text \<open>
  A send can succeed and be lost: when a server socket is disconnected between the check of
  \<open>Write\<close> and its \<open>select\<close>, both cases of the \<open>select\<close> are ready, and when the queue is taken
  \<open>Write\<close> returns nil with the message in the queue of a released socket. The write loop may then
  end on the stop channel, and the message is neither sent nor given back to the pool.
\<close>

theorem late_Write_loses_message:
  assumes inv: "ss_inv e s" and k: "ss_heap s p = Some k" "IsReady k" and srv: "sock_Type k = SocketTypeServer"
    and room: "0 < ccap (sk_cwrite k)"
  shows "\<exists>t u w. disconnect e p s = (Ok True, t) \<and> Write_resume False p m safe t = (Ok (), u)
    \<and> sk_status (sock p u) = SocketStatusReleased \<and> sockets_Get (sk_id k) u = None
    \<and> writeMsg_turn e ctx True fault p u = (Ok False, w)
    \<and> items (sk_cwrite (sock p w)) = [m] \<and> ss_pool w = ss_pool t"
proof -
  have ok: "\<not> closed (sk_cwrite k)" using ss_inv_facts(3) [OF inv k(1)] by (simp add: sock_ok_def)
  have v: "isValidStatus (sk_status k)" using k(2) by (simp add: IsReady_def isValidStatus_def)
  obtain c pool where d: "disconnect e p s = (Ok True,
      released p (k\<lparr>sk_status := SocketStatusDisconnected, sk_stop := Some True, sk_conn := None\<rparr>) pool
        (cut p c k SocketStatusDisconnected s))" (is "_ = (_, ?d)")
    using disconnect_server_state [OF inv k(1) v srv] by metis
  have kd: "sk_cwrite (sock p ?d) = (sk_cwrite k)\<lparr>items := []\<rparr>" "sk_stop (sock p ?d) = Some True"
    "sk_status (sock p ?d) = SocketStatusReleased" "ss_heap ?d p = Some (sock p ?d)" "sockets_Get (sk_id k) ?d = None"
    by (simp_all add: sock_def released_def sockets_Get_def)
  let ?u = "upd p (\<lambda>l. l\<lparr>sk_cwrite := (sk_cwrite k)\<lparr>items := [m]\<rparr>\<rparr>) ?d"
  have w: "Write_resume False p m safe ?d = (Ok (), ?u)"
    using ok room kd(1,2) by (simp add: Write_resume_def Write_select_def)
  have ku: "sock p ?u = (sock p ?d)\<lparr>sk_cwrite := (sk_cwrite k)\<lparr>items := [m]\<rparr>\<rparr>"
    using kd(4) by (simp add: sock_def upd_def released_def)
  have "disconnect e p ?u = (Ok False, ?u)"
    by (rule disconnect_invalid) (simp only: ku, simp add: kd(3) isValidStatus_def)
  then have "writeMsg_turn e ctx True fault p ?u = (Ok False, end_task (TWrite p) ?u)"
    using kd(2) by (simp add: writeMsg_turn_def ku)
  moreover have "items (sk_cwrite (sock p (end_task (TWrite p) ?u))) = [m]"
    using ku by (simp add: sock_def end_task_def)
  moreover have "ss_pool (end_task (TWrite p) ?u) = ss_pool ?d" by (simp add: end_task_def upd_def)
  moreover have "sockets_Get (sk_id k) ?u = None" using kd(5) by (simp add: sockets_Get_def upd_def)
  ultimately show ?thesis using d w ku kd(3) by (intro exI conjI) (assumption | simp)+
qed

text \<open>A manager with room for one message per socket, and its only socket with that one queued.\<close>

definition narrow_manager :: sockets where
  "narrow_manager = snd (Create False 5 (sockets_New (Config_default\<lparr>WriteChanSize := 1\<rparr>)))"

definition full_manager :: sockets where
  "full_manager = snd (sock_Write True 0 new_message [] narrow_manager)"

lemma narrow_manager_run: "(ss_step sample_env)\<^sup>*\<^sup>* (sockets_New (Config_default\<lparr>WriteChanSize := 1\<rparr>)) narrow_manager"
proof -
  let ?n = "sockets_New (Config_default\<lparr>WriteChanSize := 1\<rparr>)"
  have "ss_index ?n \<noteq> - 1" by (simp add: sockets_New_def)
  then have "ss_step sample_env ?n narrow_manager"
    unfolding narrow_manager_def by (rule ss_step.create) (rule surjective_pairing)
  then show ?thesis by blast
qed

lemma narrow_manager_inv: "ss_inv sample_env narrow_manager"
  by (rule ss.run_keeps [OF narrow_manager_run ss_inv_New]) simp

lemma narrow_manager_heap:
  "ss_heap narrow_manager 0 = Some (fresh_socket 1 1\<lparr>sk_conn := Some 5, sk_stop := Some False,
     sk_status := SocketStatusConnected, sk_heartbeat := 0\<rparr>)"
  unfolding narrow_manager_def
  by (subst Create_ok) (simp_all add: sockets_New_def Config_default_def created_def go_start_def sock_Emit_def Let_def)

lemma full_manager_eq:
  "full_manager = upd 0 (\<lambda>k. k\<lparr>sk_cwrite := (sk_cwrite k)\<lparr>items := [new_message]\<rparr>\<rparr>) narrow_manager"
  using sock_Write_cases [OF narrow_manager_inv narrow_manager_heap, of True new_message "[]"] narrow_manager_heap
  by (simp add: full_manager_def fresh_socket_def make_chan_def) (simp add: upd_def)

lemma full_manager_inv: "ss_inv sample_env full_manager"
  unfolding full_manager_def
  by (rule sock_Write_keeps [OF narrow_manager_inv narrow_manager_heap surjective_pairing])

lemma full_manager_heap:
  "ss_heap full_manager 0 = Some (fresh_socket 1 1\<lparr>sk_conn := Some 5, sk_stop := Some False,
     sk_status := SocketStatusConnected, sk_heartbeat := 0,
     sk_cwrite := \<lparr>items = [new_message], ccap = 1, closed = False\<rparr>\<rparr>)"
  using narrow_manager_heap by (simp add: full_manager_eq upd_def fresh_socket_def make_chan_def)

theorem waiting_Async_ends_witness:
  "Async True 0 sample_request [] full_manager = (async_new, full_manager)
    \<and> (\<exists>t r u. disconnect sample_env 0 full_manager = (Ok True, t)
        \<and> Async_resume True 0 sample_request [] async_new t = (r, u)
        \<and> async_Wait r = Ok (Some (ErrNew ''socket closed'')))"
  using waiting_Async_ends [OF full_manager_inv full_manager_heap, where pick = True and m = sample_request
      and m0 = new_message and ms = "[]"]
  by (auto simp: IsReady_def sock_Type_def fresh_socket_def)

theorem late_Write_loses_message_witness:
  "\<exists>t u w. disconnect sample_env 0 sample_manager = (Ok True, t)
    \<and> Write_resume False 0 sample_request [] t = (Ok (), u)
    \<and> writeMsg_turn sample_env False True None 0 u = (Ok False, w)
    \<and> items (sk_cwrite (sock 0 w)) = [sample_request] \<and> ss_pool w = ss_pool t"
proof -
  let ?k = "fresh_socket 1 2\<lparr>sk_conn := Some 5, sk_stop := Some False,
     sk_status := SocketStatusConnected, sk_heartbeat := 0\<rparr>"
  have "IsReady ?k" "sock_Type ?k = SocketTypeServer" "0 < ccap (sk_cwrite ?k)"
    by (simp_all add: IsReady_def sock_Type_def fresh_socket_def make_chan_def)
  from late_Write_loses_message [OF sample_manager_inv sample_manager_heap(1) this, of sample_request "[]" False None]
  show ?thesis by blast
qed

section \<open>Events of a reconnection\<close>

text \<open>
  A client that reconnects announces the event of a new connection; the event of a reconnection
  comes from \<open>Authentication\<close> only.
\<close>

lemma reconnect_announces_Connected:
  assumes "reconnect_done e p (Some c) s = (Ok (), t)"
  shows "ss_calls t = ss_calls s @ map (\<lambda>f. \<lparr>c_fun = f, c_sock = Some p, c_arg = ANil\<rparr>)
    (ss_emitter s EventTypeConnected)"
  using assms
  by (auto simp: reconnect_done_def connect_def go_start_def sock_Emit_def Emit_def upd_def)

section \<open>Connect in two steps\<close>

text \<open>What \<open>Connect\<close> does after \<open>Create\<close>, when the loops of the socket run already.\<close>

definition Connect_rest :: "nat \<Rightarrow> bytes \<Rightarrow> sockets \<Rightarrow> (nat, sockets) run" where
  "Connect_rest p address s = (Ok p, upd p (\<lambda>k. k\<lparr>sk_address := address\<rparr>) s)"

lemma Connect_steps:
  "Connect stopped address (Inr conn) s = and_then (Create stopped conn s) (\<lambda>p s. Connect_rest p address s)"
  by (simp add: Connect_def Connect_rest_def)

text \<open>
  A dialled socket can be lost at birth: \<open>Connect\<close> stores the address only after the loops have
  started, so when the connection breaks in between, the socket is taken for a server's and
  released. \<open>Connect\<close> then returns it without an error, out of the table and, client though it
  is, with no reconnection under way.
\<close>

theorem early_break_loses_client:
  assumes inv: "ss_inv e s" and i: "ss_index s \<noteq> - 1" and c: "Create False conn s = (Ok p, t)" and a: "address \<noteq> []"
  shows "\<exists>u v. disconnect e p t = (Ok True, u) \<and> Connect_rest p address u = (Ok p, v)
    \<and> sock_Type (sock p v) = SocketTypeClient \<and> sk_status (sock p v) = SocketStatusReleased
    \<and> sockets_Get (sk_id (sock p v)) v = None \<and> TReconnect p \<notin> set (ss_tasks v)"
proof -
  have it: "ss_inv e t" by (rule Create_keeps [OF inv i c])
  have t: "t = created conn s" "p = ss_next s" using Create_cases [OF c] by auto
  let ?k = "(fresh_socket (ss_index s + 1) (nat (sint (WriteChanSize (ss_opts s)))))\<lparr>sk_conn := Some conn,
      sk_stop := Some False, sk_status := SocketStatusConnected, sk_heartbeat := 0\<rparr>"
  have k: "ss_heap t p = Some ?k" using created_socket(1) t by simp
  have v: "isValidStatus (sk_status ?k)" "sock_Type ?k = SocketTypeServer"
    by (simp_all add: isValidStatus_def sock_Type_def fresh_socket_def)
  obtain c pool where d: "disconnect e p t = (Ok True,
      released p (?k\<lparr>sk_status := SocketStatusDisconnected, sk_stop := Some True, sk_conn := None\<rparr>) pool
        (cut p c ?k SocketStatusDisconnected t))" (is "_ = (_, ?u)")
    by (rule disconnect_server_state [OF it k v])
  have iu: "ss_inv e ?u" by (rule disconnect_keeps [OF it k d])
  have ku: "ss_heap ?u p = Some (sock p ?u)" "sk_status (sock p ?u) = SocketStatusReleased"
      "sockets_Get (sk_id (sock p ?u)) ?u = None"
    by (simp_all add: sock_def released_def sockets_Get_def)
  have "\<not> reconnecting ?u p" using ku by (simp add: reconnecting_def del: sock_Some)
  then have "TReconnect p \<notin> set (ss_tasks ?u)"
    using ss_inv_facts(4) [OF iu, of p] by (simp add: count_list_0_iff)
  moreover have "sock p (upd p (\<lambda>k. k\<lparr>sk_address := address\<rparr>) ?u) = (sock p ?u)\<lparr>sk_address := address\<rparr>"
    by (simp add: sock_def upd_def released_def)
  ultimately show ?thesis
    using d ku(2,3) a by (simp add: Connect_rest_def sock_Type_def) (simp add: sockets_Get_def upd_def)
qed

theorem early_break_loses_client_witness:
  "\<exists>u v. disconnect sample_env 0 sample_manager = (Ok True, u) \<and> Connect_rest 0 (str ''h:1'') u = (Ok 0, v)
    \<and> sk_status (sock 0 v) = SocketStatusReleased \<and> sock_Type (sock 0 v) = SocketTypeClient"
proof -
  let ?n = "sockets_New (Config_default\<lparr>WriteChanSize := 2\<rparr>)"
  have "Create False 5 ?n = (Ok 0, sample_manager)"
    unfolding sample_manager_eq by (subst Create_ok) (simp_all add: sockets_New_def Config_default_def)
  moreover have "ss_index ?n \<noteq> - 1" "ss_inv sample_env ?n"
    by (simp add: sockets_New_def, rule ss_inv_New, simp)
  ultimately show ?thesis
    using early_break_loses_client [of sample_env ?n 5 0 sample_manager "str ''h:1''"] by auto
qed

end
