(* ===== verification/DefaultManager.thy ===== *)
theory DefaultManager
  imports SocketApi Heartbeats Listeners
begin

text \<open>
  \<open>default.go\<close>: the manager of the package, made while the package is initialised, and its
  wrappers; and the registration of services (\<open>Service\<close>, \<open>Handler\<close>, \<open>Register\<close>), which
  \<open>sockets.go\<close> and \<open>default.go\<close> write over the registry of another module.
\<close>

section \<open>The package's manager\<close>

definition Default :: sockets where
  "Default = sockets_New Config_default"

text \<open>
  An application that assigns \<open>cosnet.Options\<close> does so after the package is initialised: it changes
  the package variable and not the copies that managers already have.
\<close>

definition set_Options :: "config \<Rightarrow> sockets \<Rightarrow> sockets" where
  "set_Options c s = s\<lparr>gl_opts := c\<rparr>"

text \<open>The wrappers take the state of that manager.\<close>

definition default_Create :: "bool \<Rightarrow> nat \<Rightarrow> sockets \<Rightarrow> (nat, sockets) run" where
  "default_Create stopped conn s = Create stopped conn s"

definition default_Start :: "sockets \<Rightarrow> sockets" where
  "default_Start s = Start s"

definition default_On :: "event_type \<Rightarrow> nat \<Rightarrow> sockets \<Rightarrow> sockets" where
  "default_On ev f s = On ev f s"

definition default_Get :: "u64 \<Rightarrow> sockets \<Rightarrow> nat option" where
  "default_Get i s = ss_sockets s i"

text \<open>\<open>Range\<close> is written out again over the table.\<close>

fun default_Range ::
  "(nat \<Rightarrow> sockets \<Rightarrow> (bool, sockets) run) \<Rightarrow> u64 list \<Rightarrow> sockets \<Rightarrow> (unit, sockets) run" where
  "default_Range f [] s = (Ok (), s)"
| "default_Range f (i # ids) s =
     (case ss_sockets s i of
        None \<Rightarrow> default_Range f ids s
      | Some p \<Rightarrow>
          (case f p s of
             (Ok b, s) \<Rightarrow> if b then default_Range f ids s else (Ok (), s)
           | (x, s) \<Rightarrow> (done_with x, s)))"

definition default_Listen :: "bytes \<Rightarrow> (network \<Rightarrow> err + nat) \<Rightarrow> sockets \<Rightarrow> (nat, sockets) run" where
  "default_Listen scheme opened s = Listen scheme opened s"

definition default_Accept :: "nat \<Rightarrow> sockets \<Rightarrow> sockets" where
  "default_Accept ln s = Accept ln s"

definition default_Connect :: "bool \<Rightarrow> bytes \<Rightarrow> err + nat \<Rightarrow> sockets \<Rightarrow> (nat, sockets) run" where
  "default_Connect stopped address r s = Connect stopped address r s"

definition default_Heartbeat :: "env \<Rightarrow> i32 \<Rightarrow> u64 list \<Rightarrow> sockets \<Rightarrow> (unit, sockets) run" where
  "default_Heartbeat e v order s = sockets_Heartbeat e v order s"

lemma default_Range_eq: "default_Range f ids s = Range f ids s"
proof (induction f ids s rule: default_Range.induct)
  case (2 f i ids s)
  show ?case
  proof (cases "ss_sockets s i")
    case None
    then show ?thesis using 2(1) by simp
  next
    case (Some p)
    then show ?thesis using 2(2) by (cases "f p s"; cases "fst (f p s)") auto
  qed
qed simp

section \<open>Which options a manager follows\<close>

lemma set_Options_simps [simp]:
  "gl_opts (set_Options c s) = c" "ss_opts (set_Options c s) = ss_opts s"
  "ss_heap (set_Options c s) = ss_heap s" "ss_emitter (set_Options c s) = ss_emitter s"
  "ss_inv e (set_Options c s) = ss_inv e s"
  by (auto simp: set_Options_def) (drule ss_inv_same [where t = s], simp_all)

lemma upd_set_Options: "upd p f (set_Options c s) = set_Options c (upd p f s)"
  by (simp add: upd_def set_Options_def)

lemma Create_set_Options:
  "Create stopped conn (set_Options c s) = apsnd (set_Options c) (Create stopped conn s)"
  by (simp add: Create_def connect_def go_start_def sock_Emit_def Emit_def upd_def set_Options_def Let_def)

text \<open>
  Assigning \<open>cosnet.Options\<close> after the package is initialised reaches only half of the library. A
  manager goes on with the options it copied: it creates sockets with the old connection limit
  and queue length, and a daemon that these options switch off stays off. The timeout of a
  heartbeat and the delay of \<open>Close\<close> and \<open>Replaced\<close> follow the assignment at once.
\<close>

theorem late_Options_reach_half:
  assumes k: "ss_heap s p = Some k" "sk_status k = SocketStatusConnected" and inv: "ss_inv e s"
  shows "Create stopped conn (set_Options c s) = apsnd (set_Options c) (Create stopped conn s)
    \<and> (Heartbeat (ss_opts s) = 0 \<longrightarrow> daemon e evs (set_Options c s) = (Ok (), set_Options c s))
    \<and> sk_heartbeat (sock p (Close p [] (set_Options c s))) = SocketConnectTime c
    \<and> sk_heartbeat (sock p (Replaced p ip (set_Options c s))) = SocketConnectTime c - SocketReplacedTime c
    \<and> (\<exists>h t. sock_Heartbeat e v p (set_Options c s) = (Ok h, t)
        \<and> (sk_conn (sock p t) = None \<longleftrightarrow> expired c (k\<lparr>sk_heartbeat := sk_heartbeat k + v\<rparr>)))"
proof (intro conjI impI)
  let ?s = "set_Options c s"
  show "Create stopped conn ?s = apsnd (set_Options c) (Create stopped conn s)" by (rule Create_set_Options)
  show "daemon e evs ?s = (Ok (), ?s)" if "Heartbeat (ss_opts s) = 0" using that by (simp add: daemon_def)
  show "sk_heartbeat (sock p (Close p [] ?s)) = SocketConnectTime c"
    using k by (simp add: Close_def upd_def sock_def Let_def)
  show "sk_heartbeat (sock p (Replaced p ip ?s)) = SocketConnectTime c - SocketReplacedTime c"
    using k by (simp add: Replaced_def Close_def sock_Emit_def Emit_def upd_def sock_def Let_def)
  have i: "ss_inv e ?s" and ks: "ss_heap ?s p = Some k" using inv k by simp_all
  obtain h t where t: "sock_Heartbeat e v p ?s = (Ok h, t)" "ss_heap t = (ss_heap ?s)(p \<mapsto> beaten (gl_opts ?s) v k)"
    using Heartbeat_beaten [OF i ks] by blast
  have "sk_conn k \<noteq> None" using ss_inv_facts(3) [OF inv k(1)] k(2) by (simp add: sock_ok_def)
  moreover have "sock p t = beaten c v k" using t(2) by (simp add: sock_def)
  ultimately have "sk_conn (sock p t) = None \<longleftrightarrow> expired c (k\<lparr>sk_heartbeat := sk_heartbeat k + v\<rparr>)"
    using k(2) by (simp add: beaten_def isValidStatus_def lost_def Let_def)
  then show "\<exists>h t. sock_Heartbeat e v p ?s = (Ok h, t)
      \<and> (sk_conn (sock p t) = None \<longleftrightarrow> expired c (k\<lparr>sk_heartbeat := sk_heartbeat k + v\<rparr>))"
    using t(1) by (intro exI [of _ h] exI [of _ t] conjI)
qed

theorem late_Options_reach_half_witness:
  "Create False 6 (set_Options (Config_default\<lparr>ConnectMaxSize := 1\<rparr>) sample_manager)
      = apsnd (set_Options (Config_default\<lparr>ConnectMaxSize := 1\<rparr>)) (Create False 6 sample_manager)
    \<and> sk_heartbeat (sock 0 (Close 0 [] (set_Options (Config_default\<lparr>SocketConnectTime := 7\<rparr>) sample_manager))) = 7"
  using late_Options_reach_half [OF sample_manager_heap(1) _ sample_manager_inv, where c = "Config_default\<lparr>ConnectMaxSize := 1\<rparr>"]
    late_Options_reach_half [OF sample_manager_heap(1) _ sample_manager_inv, where c = "Config_default\<lparr>SocketConnectTime := 7\<rparr>"]
  by simp

text \<open>The first socket of the package's manager, whatever was assigned before it.\<close>

lemma Default_ignores_assignment:
  "\<exists>t. default_Create False conn (set_Options c Default) = (Ok 0, t)
    \<and> ccap (sk_cwrite (sock 0 t)) = 100 \<and> sint (ConnectMaxSize (ss_opts t)) = 100000"
proof -
  have "Create False conn Default = (Ok 0, created conn Default)"
    by (subst Create_ok) (simp_all add: Default_def sockets_New_def Config_default_def)
  moreover have "ss_heap (created conn Default) 0 = Some ((fresh_socket 1 100)\<lparr>sk_conn := Some conn,
      sk_stop := Some False, sk_status := SocketStatusConnected, sk_heartbeat := 0\<rparr>)"
    "ss_opts (created conn Default) = Config_default"
    by (simp_all add: created_def Default_def sockets_New_def Config_default_def go_start_def sock_Emit_def Let_def)
  ultimately show ?thesis
    by (simp add: default_Create_def Create_set_Options sock_def fresh_socket_def make_chan_def)
      (simp add: Config_default_def)
qed

section \<open>Registering services\<close>

text \<open>
  The registry's interface as the code uses it: finding or making the service of a name, with a
  handler or without one, its methods and handler, and registering an object in it. Handlers
  and objects are pointers; a foreign handler fails the type assertion.
\<close>

datatype handler_ref = NilHandler | ForeignHandler | HandlerAt nat

record 'r registry_api =
  rg_Service :: "bytes \<Rightarrow> nat option \<Rightarrow> 'r \<Rightarrow> nat \<times> 'r"
  rg_SetMethods :: "nat \<Rightarrow> bytes list \<Rightarrow> 'r \<Rightarrow> 'r"
  rg_GetHandler :: "nat \<Rightarrow> 'r \<Rightarrow> handler_ref"
  rg_SetHandler :: "nat \<Rightarrow> nat \<Rightarrow> 'r \<Rightarrow> 'r"
  rg_Register :: "nat \<Rightarrow> nat \<Rightarrow> bytes list \<Rightarrow> 'r \<Rightarrow> err option \<times> 'r"

record 'r services =
  sv_reg :: 'r
  sv_handlers :: "handler list"

definition RegistryMethod :: bytes where
  "RegistryMethod = str ''TCP''"

text \<open>\<open>&Handler{}\<close>.\<close>

definition alloc_handler :: "'r services \<Rightarrow> nat \<times> 'r services" where
  "alloc_handler s = (length (sv_handlers s), s\<lparr>sv_handlers := sv_handlers s @ [new_handler]\<rparr>)"

definition service_name :: "bytes list \<Rightarrow> bytes" where
  "service_name name = (case name of [] \<Rightarrow> [] | n # _ \<Rightarrow> n)"

definition Service :: "'r registry_api \<Rightarrow> bytes list \<Rightarrow> 'r services \<Rightarrow> nat \<times> 'r services" where
  "Service api name s =
     (case alloc_handler s of (h, s) \<Rightarrow>
      case rg_Service api (service_name name) (Some h) (sv_reg s) of (sv, r) \<Rightarrow>
        (sv, s\<lparr>sv_reg := rg_SetMethods api sv [RegistryMethod] r\<rparr>))"

definition get_Handler :: "'r registry_api \<Rightarrow> bytes list \<Rightarrow> 'r services \<Rightarrow> (nat, 'r services) run" where
  "get_Handler api name s =
     (case rg_Service api (service_name name) None (sv_reg s) of (sv, r) \<Rightarrow>
        let s = s\<lparr>sv_reg := r\<rparr> in
        (case rg_GetHandler api sv r of
           HandlerAt h \<Rightarrow> (Ok h, s)
         | ForeignHandler \<Rightarrow> (Panic, s)
         | NilHandler \<Rightarrow>
             (case alloc_handler s of (h, s) \<Rightarrow>
                (Ok h, s\<lparr>sv_reg := rg_SetHandler api sv h (sv_reg s)\<rparr>))))"

definition Register ::
  "'r registry_api \<Rightarrow> nat \<Rightarrow> bytes list \<Rightarrow> 'r services \<Rightarrow> err option \<times> 'r services" where
  "Register api i prefix s =
     (case Service api [[]] s of (sv, s) \<Rightarrow>
      case rg_Register api sv i prefix (sv_reg s) of (er, r) \<Rightarrow> (er, s\<lparr>sv_reg := r\<rparr>))"

definition default_Service :: "'r registry_api \<Rightarrow> bytes list \<Rightarrow> 'r services \<Rightarrow> nat \<times> 'r services" where
  "default_Service api name s =
     (let h = length (sv_handlers s);
          n = (case name of [] \<Rightarrow> [] | x # _ \<Rightarrow> x);
          sr = rg_Service api n (Some h) (sv_reg s) in
      (fst sr, s\<lparr>sv_reg := rg_SetMethods api (fst sr) [RegistryMethod] (snd sr),
                 sv_handlers := sv_handlers s @ [new_handler]\<rparr>))"

definition default_Register ::
  "'r registry_api \<Rightarrow> nat \<Rightarrow> bytes list \<Rightarrow> 'r services \<Rightarrow> err option \<times> 'r services" where
  "default_Register api i prefix s =
     (case default_Service api [[]] s of (sv, s) \<Rightarrow>
      case rg_Register api sv i prefix (sv_reg s) of (er, r) \<Rightarrow> (er, s\<lparr>sv_reg := r\<rparr>))"

text \<open>The package's versions are the manager's.\<close>

lemma default_Service_eq: "default_Service api name s = Service api name s"
  by (simp add: default_Service_def Service_def alloc_handler_def service_name_def Let_def split: prod.split)

lemma default_Register_eq: "default_Register api i prefix s = Register api i prefix s"
  by (simp add: default_Register_def Register_def default_Service_eq)

text \<open>
  What the code relies on: looking a service up again finds it and leaves the handlers alone, and
  a handler that was set is the one returned.
\<close>

definition registry_ok :: "'r registry_api \<Rightarrow> bool" where
  "registry_ok api \<longleftrightarrow>
     (\<forall>n r sv r' h. rg_Service api n None r = (sv, r') \<longrightarrow>
        rg_Service api n None (rg_SetHandler api sv h r') = (sv, rg_SetHandler api sv h r')
        \<and> rg_Service api n None r' = (sv, r'))
     \<and> (\<forall>sv h r. rg_GetHandler api sv (rg_SetHandler api sv h r) = HandlerAt h)"

text \<open>
  \<open>Handler\<close> gives the same handler on every call, so what the application sets on it stays in
  force; the first call makes one without a filter, a caller or a serialisation.
\<close>

lemma Handler_is_shared:
  assumes "registry_ok api" and "get_Handler api name s = (Ok h, t)"
  shows "get_Handler api name t = (Ok h, t)
    \<and> (h = length (sv_handlers s) \<longrightarrow> length (sv_handlers t) = Suc h \<longrightarrow> sv_handlers t ! h = new_handler)"
proof -
  obtain sv r where sr: "rg_Service api (service_name name) None (sv_reg s) = (sv, r)" by fastforce
  note laws = assms(1) [unfolded registry_ok_def]
  have r2: "rg_Service api (service_name name) None r = (sv, r)" using laws sr by blast
  have r3: "rg_Service api (service_name name) None (rg_SetHandler api sv x r) = (sv, rg_SetHandler api sv x r)"
    for x using laws sr by blast
  show ?thesis
  proof (cases "rg_GetHandler api sv r")
    case NilHandler
    then show ?thesis
      using assms(2) sr r3 laws by (auto simp: get_Handler_def alloc_handler_def Let_def)
  next
    case ForeignHandler
    then show ?thesis using assms(2) sr by (simp add: get_Handler_def)
  next
    case (HandlerAt x)
    then show ?thesis using assms(2) sr r2 by (auto simp: get_Handler_def)
  qed
qed

end
