(* ===== verification/MessageTypes.thy ===== *)
theory MessageTypes
  imports SocketProperties Tcp
begin

text \<open>
  Type soundness of a message object: whatever operations of the \<open>Message\<close> interface are applied
  to it, in any order and with any outcome, its slice stays within its array, and an operation
  panics only for the reasons named in the property.
\<close>

inductive msg_op :: "env \<Rightarrow> message \<Rightarrow> message \<Rightarrow> bool" for e where
  o_code: "Code e m = (x1, m') \<Longrightarrow> msg_op e m m'"
| o_path: "Path e m = (x2, m') \<Longrightarrow> msg_op e m m'"
| o_body: "Body e m = (x3, m') \<Longrightarrow> msg_op e m m'"
| o_unmarshal: "Unmarshal e m = (x4, m') \<Longrightarrow> msg_op e m m'"
| o_confirm: "Confirm e m = (x3, m') \<Longrightarrow> msg_op e m m'"
| o_marshal: "Marshal e mag fl ix a v m = (x5, m') \<Longrightarrow> msg_op e m m'"
| o_marshal_path: "MarshalPath e mg p m = (x6, m') \<Longrightarrow> msg_op e m m'"
| o_marshal_code: "MarshalCode e mg c m = (x6, m') \<Longrightarrow> msg_op e m m'"
| o_read: "Write e r m = (x7, (m', r')) \<Longrightarrow> msg_op e m m'"
| o_reset: "wf_slice b \<Longrightarrow> Reset e b m = (x5, m') \<Longrightarrow> msg_op e m m'"
| o_release: "message_Release e m = (x5, m') \<Longrightarrow> msg_op e m m'"

text \<open>A buffer over a message: while it shares the array, the two have the same capacity.\<close>

definition over :: "gobuf \<Rightarrow> message \<Rightarrow> bool" where
  "over b m \<longleftrightarrow> wf_slice (buf b) \<and> wf_slice (mbytes m) \<and> (shared b \<longrightarrow> scap (buf b) = scap (mbytes m))"

text \<open>A step of \<open>Marshal\<close> keeps the message well formed, and the buffer it returns is over it.\<close>

definition over_run :: "(gobuf, message) run \<Rightarrow> bool" where
  "over_run r \<longleftrightarrow> wf_slice (mbytes (snd r)) \<and> (\<forall>b. fst r = Ok b \<longrightarrow> over b (snd r))"

lemma over_run_simps [simp]:
  "over_run (Ok b, m) \<longleftrightarrow> over b m"
  "over_run (Err er, m) \<longleftrightarrow> wf_slice (mbytes m)" "over_run (Panic, m) \<longleftrightarrow> wf_slice (mbytes m)"
  "over_run (Blocked, m) \<longleftrightarrow> wf_slice (mbytes m)"
  by (auto simp: over_run_def over_def)

lemma over_run_then:
  assumes "over_run r" "\<And>b m. over b m \<Longrightarrow> over_run (f b m)"
  shows "over_run (and_then r f)"
  using assms by (cases r; cases "fst r") (auto simp: over_run_def)

lemma over_put_prefix:
  assumes "wf_slice (mbytes m)"
  shows "over_run (put_prefix mg x m)"
proof (cases "reslice (mbytes m) 4")
  case (Ok s)
  then have "slen s = 4" "4 \<le> length (arr s)" "arr s = arr (mbytes m)"
    by (auto simp: reslice_def scap_def split: if_splits)
  then show ?thesis
    using assms Ok
    by (simp add: put_prefix_def over_def new_buffer_def wf_slice_def scap_def Let_def)
qed (use assms in \<open>simp_all add: put_prefix_def\<close>)

lemma over_buffer_write: "over b m \<Longrightarrow> over_run (buffer_write e p b m)"
  by (auto simp: buffer_write_def over_def Let_def owner_arr_def buf_write_def wf_slice_def scap_def view_def)

lemma over_buffer_writes: "over b m \<Longrightarrow> over_run (buffer_writes e ps b m)"
  by (induction e ps b m rule: buffer_writes.induct) (auto intro: over_run_then over_buffer_write)

lemma over_MarshalPath: "wf_slice (mbytes m) \<Longrightarrow> over_run (MarshalPath e mg p m)"
  by (auto simp: MarshalPath_def intro: over_run_then over_put_prefix over_buffer_write split: sum.split)

lemma over_MarshalCode: "wf_slice (mbytes m) \<Longrightarrow> over_run (MarshalCode e mg c m)"
  by (auto simp: MarshalCode_def intro: over_run_then over_put_prefix over_buffer_write split: sum.split)

lemma over_marshal_arg: "wf_slice (mbytes m) \<Longrightarrow> over_run (marshal_arg e mg a m)"
  by (cases a) (simp_all add: over_MarshalPath over_MarshalCode)

lemma over_encode:
  assumes "over b m"
  shows "over_run (case head_Binder e m of None \<Rightarrow> (Err ErrNoBinder, m)
      | Some bi \<Rightarrow> (case b_encode bi v of (chunks, er) \<Rightarrow> and_then (buffer_writes e chunks b m)
          (\<lambda>b m. case er of None \<Rightarrow> (Ok b, m) | Some x \<Rightarrow> (Err x, m))))"
  using assms
  by (auto intro!: over_run_then over_buffer_writes split: option.split prod.split) (simp_all add: over_def)

lemma over_marshal_body: "over b m \<Longrightarrow> over_run (marshal_body e v b m)"
  using over_encode [of b m] by (cases v) (simp_all add: over_buffer_write)

lemma Marshal_wf:
  assumes m: "wf_slice (mbytes m)"
  shows "wf_slice (mbytes (snd (Marshal e mag fl ix a v m)))"
proof (cases "Magics e mag")
  case None
  then show ?thesis using m by (simp add: Marshal_def format_def magics_Get_def Let_def)
next
  case (Some mg)
  let ?m = "m\<lparr>h_magic := mag, h_flag := fl, h_index := ix\<rparr>"
  have fm: "format e mag fl ix m = (Ok (), ?m)" using Some by (simp add: format_def magics_Get_def)
  obtain x m1 where pr: "prefix_room e ?m = (x, m1)" by fastforce
  have w1: "wf_slice (mbytes m1)" and x: "x = Ok () \<or> x = Panic"
    using pr m by (auto simp: prefix_room_def dest: wf_make_slice split: if_splits outcome.splits)
  have "over_run (and_then (marshal_arg e mg a m1) (marshal_body e v))"
    using over_marshal_arg [OF w1] by (intro over_run_then over_marshal_body)
  then have "wf_slice (mbytes (snd (and_then (and_then (marshal_arg e mg a m1) (marshal_body e v))
      (\<lambda>b m. (Ok (), m\<lparr>mbytes := buf b, h_size := word_of_nat (slen (buf b))\<rparr>)))))"
    by (cases "and_then (marshal_arg e mg a m1) (marshal_body e v)";
        cases "fst (and_then (marshal_arg e mg a m1) (marshal_body e v))")
      (auto simp: over_run_def over_def)
  then show ?thesis
    using fm Some x pr w1 by (auto simp: Marshal_def and_then_assoc)
qed

lemma reads_keep_bytes:
  "Code e m = (x, m') \<Longrightarrow> mbytes m' = mbytes m"
  "Path e m = (y, m') \<Longrightarrow> mbytes m' = mbytes m"
  "Body e m = (z, m') \<Longrightarrow> mbytes m' = mbytes m"
proof -
  have c: "mbytes (snd (Code e m)) = mbytes m"
    by (auto simp: Code_def Let_def split: option.split outcome.split)
  then show "Code e m = (x, m') \<Longrightarrow> mbytes m' = mbytes m" by simp
  show "Path e m = (y, m') \<Longrightarrow> mbytes m' = mbytes m"
    using c by (cases "Code e m"; cases "fst (Code e m)")
      (auto simp: Path_def Let_def split: option.splits if_splits sum.splits)
  show "Body e m = (z, m') \<Longrightarrow> mbytes m' = mbytes m"
    using c by (cases "Code e m"; cases "fst (Code e m)")
      (auto simp: Body_def Let_def split: option.splits if_splits)
qed

lemma decompress_wf: "decompress e m = (x, m') \<Longrightarrow> wf_slice (mbytes m) \<Longrightarrow> wf_slice (mbytes m')"
  by (auto simp: decompress_def split: if_splits sum.splits)

lemma msg_op_keeps: "msg_op e m m' \<Longrightarrow> wf_slice (mbytes m) \<Longrightarrow> wf_slice (mbytes m')"
proof (induction rule: msg_op.induct)
  case (o_unmarshal m x4 m')
  then show ?case
    using reads_keep_bytes(3) [of e m]
    by (cases "Body e m"; cases "fst (Body e m)") (auto simp: Unmarshal_def split: option.splits)
next
  case (o_confirm m x3 m')
  then show ?case
    using reads_keep_bytes(2) [of e m]
    by (auto simp: Confirm_def split: if_splits prod.splits outcome.splits)
next
  case (o_marshal mag fl ix a v m x5 m')
  then show ?case using Marshal_wf by (metis snd_conv)
next
  case (o_marshal_path mg p m x6 m')
  then show ?case using over_MarshalPath [of m e mg p] by (simp add: over_run_def)
next
  case (o_marshal_code mg c m x6 m')
  then show ?case using over_MarshalCode [of m e mg c] by (simp add: over_run_def)
next
  case (o_read r m x7 m' r')
  show ?case
  proof (cases "read_slice e (sint (h_size m)) (mbytes m)")
    case (Ok s)
    have s: "wf_slice s" using Ok by (auto simp: read_slice_def dest: wf_reslice wf_make_slice split: if_splits)
    have n: "slen s = nat (sint (h_size m))"
      using Ok by (auto simp: read_slice_def reslice_def make_slice_def split: if_splits)
    have w: "wf_slice (mbytes (m\<lparr>mbytes := s\<lparr>arr := overwrite 0 (take (nat (sint (h_size m))) (s_bytes r)) (arr s)\<rparr>\<rparr>))"
      using s n by (simp add: wf_slice_def)
    show ?thesis
      using o_read Ok w decompress_wf [OF _ w]
      by (auto simp: Write_def Let_def read_full_def simp del: overwrite_0 split: if_splits prod.splits)
  qed (use o_read in \<open>auto simp: Write_def Let_def split: if_splits\<close>)
next
  case (o_reset b m x5 m')
  have "wf_slice \<lparr>arr = drop messageHeadSize (arr b), slen = slen b - messageHeadSize\<rparr>"
    using o_reset(1) by (auto simp: wf_slice_def)
  moreover have "mbytes (snd (Parse e (take messageHeadSize (view b)) m)) = mbytes m"
    by (auto simp: Parse_def Let_def split: option.split)
  ultimately show ?case
    using o_reset
    by (cases "Parse e (take messageHeadSize (view b)) m"; cases "fst (Parse e (take messageHeadSize (view b)) m)")
      (auto simp: Reset_def dest: decompress_wf split: if_splits)
next
  case (o_release m x5 m')
  then show ?case
    by (auto simp: message_Release_def head_Release_def Let_def wf_slice_def make_slice_def
        split: if_splits)
qed (auto dest: reads_keep_bytes)

interpretation mo: step_invariant "msg_op e" "\<lambda>m. wf_slice (mbytes m)" for e
  by unfold_locales (rule msg_op_keeps)

lemma reads_progress:
  assumes "Magics e (h_magic m) \<noteq> None" "4 \<le> scap (mbytes m)"
  shows "fst (Code e m) \<noteq> Panic" "fst (Path e m) \<noteq> Panic" "fst (Body e m) \<noteq> Panic"
proof -
  obtain c m1 where c: "Code e m = (Ok c, m1)" "h_magic m1 = h_magic m"
    using assms by (cases "code m = 0") (auto simp: Code_def reslice_def Let_def)
  then show "fst (Code e m) \<noteq> Panic" by simp
  show "fst (Path e m) \<noteq> Panic"
    using c assms(1) by (auto simp: Path_def Let_def split: sum.split_asm if_split_asm)
  show "fst (Body e m) \<noteq> Panic"
    using c assms(1) by (cases "Type (the (Magics e (h_magic m))) = MagicTypePath")
      (auto simp: Body_def Let_def split: if_split_asm)
qed

text \<open>
  C28. A message object is type safe: after any sequence of operations on a new object its length is
  within its capacity; and as long as its magic number is registered, its array has room for a
  code and the configured capacity does, none of its operations panics, except that reading
  a body panics exactly for a negative size.
\<close>

theorem message_type_soundness:
  assumes run: "(msg_op e)\<^sup>*\<^sup>* new_message m" and mg: "Magics e (h_magic m) \<noteq> None"
    and room: "4 \<le> scap (mbytes m)" "4 \<le> Capacity (opts e)"
  shows "slen (mbytes m) \<le> scap (mbytes m)
    \<and> fst (Code e m) \<noteq> Panic \<and> fst (Path e m) \<noteq> Panic \<and> fst (Body e m) \<noteq> Panic
    \<and> fst (Unmarshal e m) \<noteq> Panic \<and> fst (Confirm e m) \<noteq> Panic
    \<and> fst (Marshal e mag fl ix a v m) \<noteq> Panic \<and> fst (Reset e b m) \<noteq> Panic
    \<and> fst (message_Release e m) \<noteq> Panic
    \<and> (fst (Write e r m) = Panic \<longleftrightarrow> sint (h_size m) < 0)"
proof (intro conjI)
  have wf: "wf_slice (mbytes m)" by (rule mo.run_keeps [OF run]) (simp add: new_message_def)
  then show "slen (mbytes m) \<le> scap (mbytes m)" by (simp add: wf_slice_def scap_def)
  note p = reads_progress [OF mg room(1)]
  then show "fst (Code e m) \<noteq> Panic" "fst (Path e m) \<noteq> Panic" "fst (Body e m) \<noteq> Panic" by blast+
  show "fst (Unmarshal e m) \<noteq> Panic"
    using p(3) by (cases "Body e m"; cases "fst (Body e m)")
      (auto simp: Unmarshal_def lift_sum_def split: option.split sum.split)
  show "fst (Confirm e m) \<noteq> Panic"
    using p(2) by (cases "Path e m"; cases "fst (Path e m)") (auto simp: Confirm_def)
  show "fst (Marshal e mag fl ix a v m) \<noteq> Panic"
    using Marshal_result [of e m] wf room(2) by (auto simp: room_ok_def)
  show "fst (Reset e b m) \<noteq> Panic"
    using Parse_not_Panic [of e "take messageHeadSize (view b)" m]
    by (cases "Parse e (take messageHeadSize (view b)) m"; cases "fst (Parse e (take messageHeadSize (view b)) m)")
      (auto simp: Reset_def decompress_def split: sum.split)
  have "0 \<le> Capacity (opts e)" using room(2) by simp
  then obtain m' where "message_Release e m = (Ok (), m')" using message_Release_ok by blast
  then show "fst (message_Release e m) \<noteq> Panic" by simp
  show "fst (Write e r m) = Panic \<longleftrightarrow> sint (h_size m) < 0"
  proof (cases "sint (h_size m) < 0")
    case True
    then show ?thesis by (simp add: Write_def read_slice_def reslice_def Let_def)
  next
    case False
    then obtain s where "read_slice e (sint (h_size m)) (mbytes m) = Ok s"
      using read_slice_ok [of "sint (h_size m)"] by force
    then show ?thesis
      using False by (auto simp: Write_def Let_def read_full_def decompress_def split: sum.split)
  qed
qed

theorem message_type_soundness_witness:
  "fst (Path sample_env (snd (Marshal sample_env MagicNumberPathJson 0 3 (PathString [97]) (VBytes [1]) new_message)))
    \<noteq> Panic"
proof -
  let ?r = "Marshal sample_env MagicNumberPathJson 0 3 (PathString [97]) (VBytes [1]) new_message"
  have "msg_op sample_env new_message (snd ?r)" by (rule o_marshal [OF surjective_pairing])
  then have run: "(msg_op sample_env)\<^sup>*\<^sup>* new_message (snd ?r)" by blast
  obtain sl where r: "?r = (Ok (), marshalled MagicNumberPathJson 0 3 sl new_message)"
    and h: "holds_path sample_env \<lparr>Key = MagicNumberPathJson, Type = MagicTypePath, Binder = Some sample_codec,
      Binary = BigEndian\<rparr> [97] [1] (marshalled MagicNumberPathJson 0 3 sl new_message)"
    using Marshal_holds_path [OF _ _ sample_room, where mag = MagicNumberPathJson and p = "[97]"] by force
  have "4 \<le> scap (mbytes (snd ?r))"
    using h holds_path_slen [OF h] r by (simp add: holds_path_def wf_slice_def scap_def)
  moreover have "Magics sample_env (h_magic (snd ?r)) \<noteq> None" using h r by (simp add: holds_path_def)
  ultimately show ?thesis using message_type_soundness [OF run] by simp
qed

end
