(* ===== verification/Connections.thy ===== *)
theory Connections
  imports SocketProperties TransportProperties
begin

text \<open>
  A socket on top of a connection: the turns of its write loop and read loop with the
  \<open>WriteMessage\<close> and \<open>ReadMessage\<close> of any connection under them. What the loops need of the
  connection is the locale \<open>message_conn\<close>; inside it stand the lemmas on what senders hand over
  and what a request is answered with. The connection object stands beside the manager; the
  socket knows it by its number.
\<close>

section \<open>The loops of a socket on a connection\<close>

text \<open>What the write loop sees of a \<open>WriteMessage\<close>: an error, or a panic that it recovers from.\<close>

definition turn_fault :: "unit outcome \<Rightarrow> err option" where
  "turn_fault x = (case x of Err er \<Rightarrow> Some er | Panic \<Rightarrow> Some (ErrNew ''runtime error'') | _ \<Rightarrow> None)"

definition conn_write_turn ::
  "(message \<Rightarrow> 'c \<Rightarrow> (unit, 'c) run) \<Rightarrow> env \<Rightarrow> bool \<Rightarrow> bool \<Rightarrow> nat \<Rightarrow> sockets \<Rightarrow> 'c
    \<Rightarrow> (bool, sockets \<times> 'c) run" where
  "conn_write_turn wr e ctx_done pick p s c =
     (let k = sock p s; stopped = ctx_done \<or> sk_stop k = Some True;
          done_turn = (\<lambda>fault c. case writeMsg_turn e ctx_done pick fault p s of (y, t) \<Rightarrow> (y, (t, c))) in
      case items (sk_cwrite k) of
        m # _ \<Rightarrow>
          if stopped \<and> pick \<or> sk_conn k = None then done_turn None c
          else (case wr m c of
                  (Blocked, c) \<Rightarrow> (Blocked, (s, c))
                | (x, c) \<Rightarrow> done_turn (turn_fault x) c)
      | [] \<Rightarrow> done_turn None c)"

definition conn_read_turn ::
  "('c \<Rightarrow> message \<Rightarrow> (unit, message \<times> 'c) run) \<Rightarrow> env \<Rightarrow> bool \<Rightarrow> registry \<Rightarrow> nat option \<Rightarrow> nat option
    \<Rightarrow> bool \<Rightarrow> nat \<Rightarrow> sockets \<Rightarrow> 'c \<Rightarrow> (bool, sockets \<times> 'c) run" where
  "conn_read_turn rd e stopped search pk pk' pick p s c =
     (let rd1 = (\<lambda>m. case rd c m of (x, (m, c)) \<Rightarrow> (x, m));
          c' = (if stopped \<or> sk_conn (sock p s) = None then c
                else snd (snd (rd c (fst (Require e pk (ss_pool s)))))) in
      case readMsg_turn e stopped search pk pk' pick rd1 p s of (x, t) \<Rightarrow> (x, (t, c')))"

section \<open>Requests\<close>

text \<open>The arguments of a \<open>SendWithMagic\<close> of bytes under a path.\<close>

record request =
  rq_magic :: byte
  rq_flag :: flag
  rq_index :: i32
  rq_path :: bytes
  rq_body :: bytes

definition send_request ::
  "env \<Rightarrow> nat option \<Rightarrow> bool \<Rightarrow> bool list \<Rightarrow> nat \<Rightarrow> request \<Rightarrow> sockets \<Rightarrow> (unit, sockets) run" where
  "send_request e pk pick safe p r s =
     SendWithMagic e pk pick p (rq_magic r) (rq_flag r) (rq_index r) (PathString (rq_path r))
       (VBytes (rq_body r)) safe s"

definition path_request :: "env \<Rightarrow> request \<Rightarrow> bool" where
  "path_request e r \<longleftrightarrow>
     (case Magics e (rq_magic r) of None \<Rightarrow> False | Some mg \<Rightarrow> Type mg = MagicTypePath \<and> Key mg \<noteq> 0)
     \<and> rq_path r \<noteq> [] \<and> length (rq_path r) < 2 ^ 31"

text \<open>What the peer is to read.\<close>

definition request_packet :: "env \<Rightarrow> request \<Rightarrow> packet" where
  "request_packet e r =
     \<lparr>p_magic = rq_magic r, p_flag = rq_flag r, p_index = rq_index r,
      p_data = (case Magics e (rq_magic r) of
                  None \<Rightarrow> [] | Some mg \<Rightarrow> path_prefix mg (rq_path r) @ rq_body r)\<rparr>"

text \<open>The message that carries a request.\<close>

definition carries :: "env \<Rightarrow> request \<Rightarrow> message \<Rightarrow> bool" where
  "carries e r m \<longleftrightarrow> (\<exists>mg. holds_path e mg (rq_path r) (rq_body r) m) \<and> h_magic m = rq_magic r
     \<and> h_flag m = rq_flag r \<and> h_index m = rq_index r \<and> h_size m = word_of_nat (slen (mbytes m))"

lemma path_requestE:
  assumes "path_request e r"
  obtains mg where "Magics e (rq_magic r) = Some mg" "Type mg = MagicTypePath" "Key mg \<noteq> 0"
    "rq_path r \<noteq> []" "length (rq_path r) < 2 ^ 31"
  using assms by (auto simp: path_request_def split: option.splits)

lemma carries_packet: "carries e r m \<Longrightarrow> packet_of m = request_packet e r"
  by (auto simp: carries_def packet_of_def request_packet_def holds_path_def)

text \<open>The size of such a message, when it is a size at all.\<close>

lemma carries_size:
  assumes "carries e r m" "4 + length (rq_path r) + length (rq_body r) < 2 ^ 31"
  shows "sint (h_size m) = int (4 + length (rq_path r) + length (rq_body r))"
proof -
  obtain mg where "holds_path e mg (rq_path r) (rq_body r) m" using assms(1) by (auto simp: carries_def)
  then have "slen (mbytes m) = 4 + length (rq_path r) + length (rq_body r)" by (rule holds_path_slen)
  then have "h_size m = word_of_nat (4 + length (rq_path r) + length (rq_body r))"
    using assms(1) by (simp add: carries_def)
  then show ?thesis using sint_word_of_nat [OF assms(2)] by simp
qed

lemma carries_wf:
  assumes "carries e r m" "\<not> Has (rq_flag r) FlagCompressed"
    "4 + length (rq_path r) + length (rq_body r) < 2 ^ 31"
  shows "wf_message e m"
proof -
  obtain mg where mg: "holds_path e mg (rq_path r) (rq_body r) m" using assms(1) by (auto simp: carries_def)
  then have "slen (mbytes m) = 4 + length (rq_path r) + length (rq_body r)" by (rule holds_path_slen)
  then show ?thesis using mg assms by (simp add: wf_message_def holds_path_def carries_def)
qed

text \<open>Sending: into the queue when there is room, else nothing changes but the pool.\<close>

lemma send_request_queues:
  assumes inv: "ss_inv e s" and k: "ss_heap s p = Some k" "IsReady k"
      "length (items (sk_cwrite k)) < ccap (sk_cwrite k)"
    and r: "path_request e r" and cap: "4 \<le> Capacity (opts e)"
  obtains m pool where "send_request e pk pick safe p r s
      = (Ok (), upd p (\<lambda>k. k\<lparr>sk_cwrite := (sk_cwrite k)\<lparr>items := items (sk_cwrite k) @ [m]\<rparr>\<rparr>)
          (s\<lparr>ss_pool := pool\<rparr>))"
    "carries e r m" "clean_pool e pool"
proof -
  obtain mg where mg: "Magics e (rq_magic r) = Some mg" "Type mg = MagicTypePath"
    and a: "rq_path r \<noteq> []" "length (rq_path r) < 2 ^ 31"
    using path_requestE [OF r] by metis
  obtain m pool where m: "SendWithMagic e pk pick p (rq_magic r) (rq_flag r) (rq_index r)
        (PathString (rq_path r)) (VBytes (rq_body r)) safe s
      = (Ok (), upd p (\<lambda>k. k\<lparr>sk_cwrite := (sk_cwrite k)\<lparr>items := items (sk_cwrite k) @ [m]\<rparr>\<rparr>)
          (s\<lparr>ss_pool := pool\<rparr>))"
    and h: "holds_path e mg (rq_path r) (rq_body r) m" "h_magic m = rq_magic r" "h_flag m = rq_flag r"
      "h_index m = rq_index r" "h_size m = word_of_nat (slen (mbytes m))" and cl: "clean_pool e pool"
    by (rule Send_path_queues [OF inv k mg cap a])
  have "carries e r m" using h by (auto simp: carries_def)
  with m cl that show ?thesis unfolding send_request_def by blast
qed

text \<open>A full queue: an error or a wait, and no socket changes.\<close>

lemma send_request_full:
  assumes inv: "ss_inv e s" and k: "ss_heap s p = Some k" "IsReady k"
      "\<not> length (items (sk_cwrite k)) < ccap (sk_cwrite k)"
    and r: "path_request e r" and cap: "4 \<le> Capacity (opts e)"
  shows "\<exists>x t. send_request e pk pick safe p r s = (x, t) \<and> ss_heap t = ss_heap s
    \<and> (x = Blocked \<or> (\<exists>er. x = Err er))"
proof -
  obtain mg where mg: "Magics e (rq_magic r) = Some mg" "Type mg = MagicTypePath"
    and a: "rq_path r \<noteq> []" "length (rq_path r) < 2 ^ 31"
    using path_requestE [OF r] by metis
  obtain m0 pool where rq: "Require e pk (ss_pool s) = (m0, pool)" by fastforce
  have c0: "clean e m0" "clean_pool e pool" using Require_clean [OF ss_inv_facts(2) [OF inv] rq] by auto
  then have code0: "code m0 = 0" by (simp add: clean_def)
  obtain m where ms: "Marshal e (rq_magic r) (rq_flag r) (rq_index r) (PathString (rq_path r))
      (VBytes (rq_body r)) m0 = (Ok (), m)"
    using Marshal_holds_path [OF mg clean_room [OF c0(1) cap] code0 a] by blast
  let ?s = "s\<lparr>ss_pool := pool\<rparr>"
  have u: "ss_inv e ?s" "ss_heap ?s p = Some k" using c0(2) inv k by (simp_all add: ss_inv_pool)
  let ?full = "ErrNew ''socket write channel full''"
  have w: "sock_Write pick p m safe ?s = (if safe \<noteq> [] \<and> \<not> hd safe then Err ?full else Blocked, ?s)"
    using sock_Write_cases [OF u, of pick m safe] k(2,3) by (simp add: IsReady_def)
  have "0 \<le> Capacity (opts e)" using cap by simp
  then obtain t where g: "give_back e m (ErrWrap ''socket send write error'' ?full) ?s
      = (Err (ErrWrap ''socket send write error'' ?full), t)" "ss_heap t = ss_heap ?s"
    using give_back_effect by blast
  show ?thesis
  proof (cases "safe \<noteq> [] \<and> \<not> hd safe")
    case True
    then show ?thesis using w g by (simp add: send_request_def SendWithMagic_def rq ms)
  next
    case False
    then have "sock_Write pick p m safe ?s = (Blocked, ?s)" using w by (simp only: if_False)
    then show ?thesis by (simp add: send_request_def SendWithMagic_def rq ms)
  qed
qed

section \<open>Senders and the write loop, interleaved\<close>

text \<open>
  A schedule: calls of the senders and turns of the write loop in any order. A call or a turn
  that has to wait is not taken. The first component collects the requests whose send
  returned without an error; \<open>None\<close> is a panic.
\<close>

datatype traffic_event =
    Push "nat option" bool "bool list" request
  | Flush bool

fun traffic ::
  "(message \<Rightarrow> 'c \<Rightarrow> (unit, 'c) run) \<Rightarrow> env \<Rightarrow> nat \<Rightarrow> traffic_event list \<Rightarrow> request list \<times> sockets \<times> 'c
    \<Rightarrow> (request list \<times> sockets \<times> 'c) option" where
  "traffic wr e p [] x = Some x"
| "traffic wr e p (Push pk pick safe r # es) (acc, s, c) =
     (case send_request e pk pick safe p r s of
        (Ok _, t) \<Rightarrow> traffic wr e p es (acc @ [r], t, c)
      | (Err _, t) \<Rightarrow> traffic wr e p es (acc, t, c)
      | (Blocked, _) \<Rightarrow> traffic wr e p es (acc, s, c)
      | (Panic, _) \<Rightarrow> None)"
| "traffic wr e p (Flush pick # es) (acc, s, c) =
     (case conn_write_turn wr e False pick p s c of
        (Ok _, (t, c)) \<Rightarrow> traffic wr e p es (acc, t, c)
      | (Blocked, _) \<Rightarrow> traffic wr e p es (acc, s, c)
      | _ \<Rightarrow> None)"

fun good_event :: "(request \<Rightarrow> bool) \<Rightarrow> traffic_event \<Rightarrow> bool" where
  "good_event good (Push pk pick safe r) = good r"
| "good_event good (Flush pick) = True"

lemma traffic_append:
  "traffic wr e p (es @ fs) x = (case traffic wr e p es x of None \<Rightarrow> None | Some y \<Rightarrow> traffic wr e p fs y)"
  by (induction wr e p es x rule: traffic.induct) (auto split: outcome.splits prod.splits)

text \<open>The reply that a handler's bytes become.\<close>

definition reply_request :: "request \<Rightarrow> bytes \<Rightarrow> request" where
  "reply_request r v = r\<lparr>rq_flag := reply_flag (rq_flag r), rq_path := fst (split_query (rq_path r)), rq_body := v\<rparr>"

text \<open>The receiving side of a loop, with an object fresh from the pool.\<close>

definition conn_recv :: "('c \<Rightarrow> message \<Rightarrow> (unit, message \<times> 'c) run) \<Rightarrow> 'c \<Rightarrow> (packet \<times> 'c) option" where
  "conn_recv rd c =
     (case rd c new_message of (Ok _, (m, c)) \<Rightarrow> Some (packet_of m, c) | _ \<Rightarrow> None)"

lemma KeepAlive_facts [simp]:
  "ss_calls (KeepAlive p s) = ss_calls s" "ss_emitter (KeepAlive p s) = ss_emitter s"
  "ss_pool (KeepAlive p s) = ss_pool s" "ss_heap (KeepAlive p s) q = (if q = p \<and> sk_status (sock p s) = SocketStatusConnected
      then map_option (\<lambda>k. k\<lparr>sk_heartbeat := 0\<rparr>) (ss_heap s p) else ss_heap s q)"
  by (auto simp: KeepAlive_def upd_def Let_def split: option.split)

text \<open>A message whose code has been read keeps its path and body.\<close>

lemma holds_path_read:
  assumes "holds_path e mg p b m"
  shows "Path e (m\<lparr>code := word_of_nat (length p)\<rparr>) = (Ok (split_query p), m\<lparr>code := word_of_nat (length p)\<rparr>)"
    "Body e (m\<lparr>code := word_of_nat (length p)\<rparr>) = (Ok b, m\<lparr>code := word_of_nat (length p)\<rparr>)"
proof -
  have c: "Code e (m\<lparr>code := word_of_nat (length p)\<rparr>)
      = (Ok (word_of_nat (length p)), m\<lparr>code := word_of_nat (length p)\<rparr>)"
    by (rule Code_idem [OF holds_path_Code [OF assms]])
  then show "Path e (m\<lparr>code := word_of_nat (length p)\<rparr>) = (Ok (split_query p), m\<lparr>code := word_of_nat (length p)\<rparr>)"
    using assms holds_path_slen [OF assms]
    by (simp add: Path_def Let_def) (simp add: holds_path_def sint_word_of_nat path_prefix_def)
  show "Body e (m\<lparr>code := word_of_nat (length p)\<rparr>) = (Ok b, m\<lparr>code := word_of_nat (length p)\<rparr>)"
    using assms holds_path_slen [OF assms] c
    by (auto simp: Body_def Let_def holds_path_def sint_word_of_nat path_prefix_def)
qed

lemma release_to_poolE:
  assumes "0 \<le> Capacity (opts e)" "clean_pool e (ss_pool s)"
  obtains pool where "release_to_pool e m s = (Ok (), s\<lparr>ss_pool := pool\<rparr>)" "clean_pool e pool"
proof -
  obtain m' where "message_Release e m = (Ok (), m')" using message_Release_ok [OF assms(1)] by blast
  then have r: "Release e (Some m) (ss_pool s) = (Ok (), if Pool (opts e) then m' # ss_pool s else ss_pool s)"
    by (simp add: Release_def)
  then show ?thesis
    using that Release_clean [OF assms(2) r] by (simp add: release_to_pool_def)
qed

section \<open>One turn of each loop, over any connection\<close>

text \<open>A write that succeeds.\<close>

lemma conn_write_turn_ok:
  assumes inv: "ss_inv e s" and k: "ss_heap s p = Some k" "IsReady k" "items (sk_cwrite k) = m # ms"
    and wr: "wr m c = (Ok (), c')"
  obtains t where "conn_write_turn wr e False pick p s c = (Ok True, (t, c'))"
    "ss_inv e t" "ss_heap t p = Some (k\<lparr>sk_cwrite := (sk_cwrite k)\<lparr>items := ms\<rparr>\<rparr>)"
    "ss_calls t = ss_calls s" "ss_emitter t = ss_emitter s"
proof -
  let ?s = "upd p (\<lambda>k. k\<lparr>sk_cwrite := (sk_cwrite k)\<lparr>items := ms\<rparr>\<rparr>) s"
  obtain cn where open_k: "sk_stop k = Some False" "sk_conn k = Some cn"
    using ss_inv_facts(3) [OF inv k(1)] k(2) by (auto simp: IsReady_def sock_ok_def)
  have ks: "ss_heap ?s p = Some (k\<lparr>sk_cwrite := (sk_cwrite k)\<lparr>items := ms\<rparr>\<rparr>)"
    using k(1) by (simp add: upd_def)
  obtain m' where m': "message_Release e m = (Ok (), m')"
    using message_Release_ok [OF ss_inv_facts(1) [OF inv]] by blast
  let ?pool = "if Pool (opts e) then m' # ss_pool s else ss_pool s"
  have r: "Release e (Some m) (ss_pool s) = (Ok (), ?pool)" by (simp add: Release_def m')
  have "writeMsgTrue e None p m ?s = (Ok (), ?s\<lparr>ss_pool := ?pool\<rparr>)"
    using ks open_k(2) r by (auto simp: writeMsgTrue_def upd_def split: option.split)
  then have turn: "writeMsg_turn e False pick None p s = (Ok True, ?s\<lparr>ss_pool := ?pool\<rparr>)"
    using k(1,3) open_k by (simp add: writeMsg_turn_def)
  then have "conn_write_turn wr e False pick p s c = (Ok True, (?s\<lparr>ss_pool := ?pool\<rparr>, c'))"
    using k(1,3) open_k by (simp add: conn_write_turn_def wr turn_fault_def)
  then show ?thesis
    by (rule that [OF _ writeMsg_turn_keeps [OF inv k(1) turn]]) (use ks in \<open>simp_all add: upd_def\<close>)
qed

text \<open>A read that succeeds with a message of a registered magic number: it is dispatched.\<close>

lemma conn_read_turn_ok:
  assumes inv: "ss_inv e s" and k: "ss_heap s p = Some k" "IsReady k"
    and rd: "\<And>m0. clean e m0 \<Longrightarrow> \<exists>m c'. rd c m0 = (Ok (), (m, c')) \<and> good m c'
      \<and> (\<exists>mg. Magics e (h_magic m) = Some mg \<and> Key mg \<noteq> 0)"
  obtains m pool c' where "conn_read_turn rd e False search pk pk' pick p s c =
      (case and_then (sock_handle e search pk' pick p m (KeepAlive p (s\<lparr>ss_pool := pool\<rparr>)))
          (\<lambda>_ t. and_then (release_to_pool e m t) (\<lambda>_ t. (Ok True, t))) of (x, t) \<Rightarrow> (x, (t, c')))"
    "good m c'" "clean_pool e pool"
proof -
  obtain m0 pool where rq: "Require e pk (ss_pool s) = (m0, pool)" by fastforce
  have c0: "clean e m0" "clean_pool e pool" using Require_clean [OF ss_inv_facts(2) [OF inv] rq] by auto
  obtain m c' mg where m: "rd c m0 = (Ok (), (m, c'))" "good m c'" "Magics e (h_magic m) = Some mg" "Key mg \<noteq> 0"
    using rd [OF c0(1)] by blast
  obtain cn where "sk_conn k = Some cn"
    using ss_inv_facts(3) [OF inv k(1)] k(2) by (auto simp: IsReady_def sock_ok_def)
  moreover have "readMsgTrue e search pk' pick p m t = sock_handle e search pk' pick p m (KeepAlive p t)" for t
    using m(3,4) by (simp add: readMsgTrue_def magics_Get_def)
  ultimately have "conn_read_turn rd e False search pk pk' pick p s c =
      (case and_then (sock_handle e search pk' pick p m (KeepAlive p (s\<lparr>ss_pool := pool\<rparr>)))
          (\<lambda>_ t. and_then (release_to_pool e m t) (\<lambda>_ t. (Ok True, t))) of (x, t) \<Rightarrow> (x, (t, c')))"
    using k(1) by (simp add: conn_read_turn_def readMsg_turn_def rq m(1))
  then show ?thesis by (rule that [OF _ m(2) c0(2)])
qed

text \<open>A dispatched request whose handler answers with bytes: they are queued as the reply.\<close>

lemma dispatch_replies:
  assumes inv: "ss_inv e s" and k: "ss_heap s p = Some k" "IsReady k"
      "length (items (sk_cwrite k)) < ccap (sk_cwrite k)"
    and m: "holds_path e mg path body m" "\<not> Has (h_flag m) FlagConfirm" "\<not> Has (h_flag m) FlagNoreply"
    and dest: "fst (split_query path) \<noteq> []" "search (fst (split_query path)) = Some (nd, OwnHandler h)"
    and fn: "\<forall>m. fst (Body e m) = Ok body \<longrightarrow> handler_handle h nd p m = Ok (VBytes v)"
    and opt: "S2CConfirm (opts e) = []" "4 \<le> Capacity (opts e)" "keys_ok (Magics e)"
  obtains t m1 where "and_then (sock_handle e search pk pick p m s)
      (\<lambda>_ t. and_then (release_to_pool e m t) (\<lambda>_ t. (Ok True, t))) = (Ok True, t)" "ss_inv e t"
    "ss_heap t p = Some (k\<lparr>sk_cwrite := (sk_cwrite k)\<lparr>items := items (sk_cwrite k) @ [m1]\<rparr>\<rparr>)"
    "holds_path e mg (fst (split_query path)) v m1" "h_magic m1 = h_magic m" "h_flag m1 = reply_flag (h_flag m)"
    "h_index m1 = h_index m" "h_size m1 = word_of_nat (slen (mbytes m1))"
proof -
  let ?m = "m\<lparr>code := word_of_nat (length path)\<rparr>" and ?d = "fst (split_query path)"
  have mg: "Magics e (h_magic ?m) = Some mg" "Type mg = MagicTypePath" and len: "length path < 2 ^ 31"
    using m(1) by (simp_all add: holds_path_def)
  have dlen: "length ?d < 2 ^ 31" using len by (auto simp: split_query_def split: option.split)
  have conf: "Confirm e ?m = (Ok ?d, ?m\<lparr>code := word_of_nat (length path)\<rparr>)"
    using opt(1) holds_path_read(1) [OF m(1)] by (cases "split_query path") (simp add: Confirm_def)
  have nf: "\<not> Has (h_flag ?m) FlagConfirm" "\<not> Has (h_flag ?m) FlagNoreply" using m(2,3) by simp_all
  obtain m1 pool1 where rep: "handler_reply e pk pick h p ?m (VBytes v) s
      = (Ok (), upd p (\<lambda>k. k\<lparr>sk_cwrite := (sk_cwrite k)\<lparr>items := items (sk_cwrite k) @ [m1]\<rparr>\<rparr>)
          (s\<lparr>ss_pool := pool1\<rparr>))" (is "_ = (_, ?t)")
    and m1: "holds_path e mg ?d v m1" "h_magic m1 = h_magic ?m" "h_flag m1 = reply_flag (h_flag ?m)"
      "h_index m1 = h_index ?m" "h_size m1 = word_of_nat (slen (mbytes m1))" "clean_pool e pool1"
    by (rule reply_queues [OF inv k mg nf conf dest(1) dlen opt(2,3)])
  have it: "ss_inv e ?t" by (rule handler_reply_keeps [OF inv k(1) rep])
  have "handler_handle h nd p ?m = Ok (VBytes v)" using holds_path_read(2) [OF m(1)] fn by simp
  then have "handle_body e search pk pick p m s = (Ok (), ?t)"
    using holds_path_Path [OF m(1)] dest(2) rep by (cases "split_query path") (simp add: handle_body_def)
  then have sh: "sock_handle e search pk pick p m s = (Ok (), ?t)" by (simp add: sock_handle_def)
  have "0 \<le> Capacity (opts e)" using opt(2) by simp
  then obtain pool2 where rl: "release_to_pool e m ?t = (Ok (), ?t\<lparr>ss_pool := pool2\<rparr>)" "clean_pool e pool2"
    using ss_inv_facts(2) [OF it] by (rule release_to_poolE)
  have "ss_heap (?t\<lparr>ss_pool := pool2\<rparr>) p
      = Some (k\<lparr>sk_cwrite := (sk_cwrite k)\<lparr>items := items (sk_cwrite k) @ [m1]\<rparr>\<rparr>)"
    using k(1) by (simp add: upd_def)
  moreover have "ss_inv e (?t\<lparr>ss_pool := pool2\<rparr>)" using it rl(2) by (rule ss_inv_pool)
  moreover have "and_then (sock_handle e search pk pick p m s)
      (\<lambda>_ t. and_then (release_to_pool e m t) (\<lambda>_ t. (Ok True, t))) = (Ok True, ?t\<lparr>ss_pool := pool2\<rparr>)"
    by (simp add: sh rl(1))
  ultimately show ?thesis
    using m1(1-5) by (intro that [of "?t\<lparr>ss_pool := pool2\<rparr>" m1]) simp_all
qed

section \<open>What the loops need of a connection\<close>

text \<open>
  \<open>put\<close> is what a message becomes on the connection, \<open>out\<close> what was written to it so far and
  \<open>pending\<close> what has arrived and is not read yet; \<open>good\<close> are the requests it transports and \<open>ok\<close>
  the messages. Writing adds the message to what was written; reading takes the first message
  that is pending into an empty object.
\<close>

locale message_conn =
  fixes e :: env
    and wr :: "message \<Rightarrow> 'c \<Rightarrow> (unit, 'c) run"
    and rd :: "'c \<Rightarrow> message \<Rightarrow> (unit, message \<times> 'c) run"
    and put :: "message \<Rightarrow> 'b list" and out :: "'c \<Rightarrow> 'b list" and pending :: "'c \<Rightarrow> 'b list"
    and inv :: "'c \<Rightarrow> bool" and good :: "request \<Rightarrow> bool" and ok :: "message \<Rightarrow> bool"
  assumes good_path: "good r \<Longrightarrow> path_request e r"
    and good_ok: "good r \<Longrightarrow> carries e r m \<Longrightarrow> ok m"
    and wr_put: "inv c \<Longrightarrow> ok m \<Longrightarrow>
      \<exists>c'. wr m c = (Ok (), c') \<and> inv c' \<and> out c' = out c @ put m \<and> pending c' = pending c"
    and rd_put: "inv c \<Longrightarrow> ok m \<Longrightarrow> pending c = put m @ rest \<Longrightarrow> empty_message m0 \<Longrightarrow>
      \<exists>m' c'. rd c m0 = (Ok (), (m', c')) \<and> same_message m m' \<and> code m' = code m0
        \<and> pending c' = rest \<and> inv c' \<and> out c' = out c"

sublocale message_conn \<subseteq> tr: transport put packet_of ok "conn_recv rd" pending inv
proof
  fix c m rest
  assume "inv c" "ok m" "pending c = put m @ rest"
  from rd_put [OF this empty_new_message]
  show "\<exists>c'. conn_recv rd c = Some (packet_of m, c') \<and> pending c' = rest \<and> inv c'"
    by (auto simp: conn_recv_def dest: packet_of_same)
qed

context message_conn
begin

text \<open>One turn of the write loop.\<close>

lemma write_turn_sends:
  assumes inv: "ss_inv e s" and k: "ss_heap s p = Some k" "IsReady k" "items (sk_cwrite k) = m # ms"
    and c: "inv c" "ok m"
  obtains t c' where "conn_write_turn wr e False pick p s c = (Ok True, (t, c'))"
    "inv c'" "out c' = out c @ put m" "pending c' = pending c"
    "ss_inv e t" "ss_heap t p = Some (k\<lparr>sk_cwrite := (sk_cwrite k)\<lparr>items := ms\<rparr>\<rparr>)"
    "ss_calls t = ss_calls s" "ss_emitter t = ss_emitter s"
proof -
  obtain c' where c': "wr m c = (Ok (), c')" "inv c'" "out c' = out c @ put m" "pending c' = pending c"
    using wr_put [OF c] by blast
  obtain t where "conn_write_turn wr e False pick p s c = (Ok True, (t, c'))" "ss_inv e t"
    "ss_heap t p = Some (k\<lparr>sk_cwrite := (sk_cwrite k)\<lparr>items := ms\<rparr>\<rparr>)"
    "ss_calls t = ss_calls s" "ss_emitter t = ss_emitter s"
    by (rule conn_write_turn_ok [OF inv k, where wr = wr, OF c'(1)])
  then show ?thesis using that c'(2-4) by blast
qed

text \<open>One turn of the read loop, as far as the dispatch.\<close>

lemma read_turn_dispatches:
  assumes inv: "ss_inv e s" and k: "ss_heap s p = Some k" "IsReady k"
    and c: "inv c" "pending c = put m @ rest" and r: "good r" "carries e r m"
  obtains mg m' pool c' where
    "conn_read_turn rd e False search pk pk' pick p s c =
      (case and_then (sock_handle e search pk' pick p m' (KeepAlive p (s\<lparr>ss_pool := pool\<rparr>)))
          (\<lambda>_ t. and_then (release_to_pool e m' t) (\<lambda>_ t. (Ok True, t))) of (x, t) \<Rightarrow> (x, (t, c')))"
    "holds_path e mg (rq_path r) (rq_body r) m'" "same_message m m'" "clean_pool e pool"
    "pending c' = rest" "inv c'" "out c' = out c"
proof -
  let ?good = "\<lambda>m' c'. (\<exists>mg. holds_path e mg (rq_path r) (rq_body r) m') \<and> same_message m m'
      \<and> pending c' = rest \<and> inv c' \<and> out c' = out c"
  obtain mg where hp: "holds_path e mg (rq_path r) (rq_body r) m" using r(2) by (auto simp: carries_def)
  have key: "Magics e (h_magic m) = Some mg" "Key mg \<noteq> 0"
    using hp r(2) good_path [OF r(1)] by (auto elim!: path_requestE simp: holds_path_def carries_def)
  have "\<exists>m' c'. rd c m0 = (Ok (), (m', c')) \<and> ?good m' c' \<and> (\<exists>mg. Magics e (h_magic m') = Some mg \<and> Key mg \<noteq> 0)"
    if "clean e m0" for m0
  proof -
    have m0: "empty_message m0" "code m0 = 0" using that by (simp_all add: clean_def empty_message_def wf_slice_def)
    obtain m' c' where rd: "rd c m0 = (Ok (), (m', c'))" "same_message m m'" "code m' = code m0"
      and c': "pending c' = rest" "inv c'" "out c' = out c"
      using rd_put [OF c(1) good_ok [OF r] c(2) m0(1)] by blast
    have "holds_path e mg (rq_path r) (rq_body r) m'"
      by (rule holds_path_same [OF hp rd(2)]) (simp add: rd(3) m0(2))
    then show ?thesis using rd(1,2) c' key by (auto simp: same_message_def)
  qed
  then obtain m' pool c' where turn: "conn_read_turn rd e False search pk pk' pick p s c =
      (case and_then (sock_handle e search pk' pick p m' (KeepAlive p (s\<lparr>ss_pool := pool\<rparr>)))
          (\<lambda>_ t. and_then (release_to_pool e m' t) (\<lambda>_ t. (Ok True, t))) of (x, t) \<Rightarrow> (x, (t, c')))"
    and m': "?good m' c'" "clean_pool e pool"
    by (rule conn_read_turn_ok [where good = ?good and rd = rd, OF inv k])
  from m'(1) obtain mg' where "holds_path e mg' (rq_path r) (rq_body r) m'" by blast
  with turn show ?thesis by (rule that) (use m' in simp_all)
qed

text \<open>The turn that answers: a handler's bytes are queued as the reply.\<close>

lemma read_turn_replies:
  assumes inv: "ss_inv e s" and k: "ss_heap s p = Some k" "IsReady k"
      "length (items (sk_cwrite k)) < ccap (sk_cwrite k)"
    and c: "inv c" "pending c = put m @ rest"
    and r: "good r" "carries e r m" "\<not> Has (rq_flag r) FlagConfirm" "\<not> Has (rq_flag r) FlagNoreply"
    and dest: "fst (split_query (rq_path r)) \<noteq> []" "search (fst (split_query (rq_path r))) = Some (nd, OwnHandler h)"
    and fn: "\<forall>m'. fst (Body e m') = Ok (rq_body r) \<longrightarrow> handler_handle h nd p m' = Ok (VBytes v)"
    and opt: "S2CConfirm (opts e) = []" "4 \<le> Capacity (opts e)" "keys_ok (Magics e)"
  obtains t c' m1 where "conn_read_turn rd e False search pk pk' pick p s c = (Ok True, (t, c'))" "ss_inv e t"
    "ss_heap t p = Some (k\<lparr>sk_heartbeat := 0, sk_cwrite := (sk_cwrite k)\<lparr>items := items (sk_cwrite k) @ [m1]\<rparr>\<rparr>)"
    "carries e (reply_request r v) m1" "pending c' = rest" "inv c'" "out c' = out c"
proof -
  obtain mg m' pool c' where turn: "conn_read_turn rd e False search pk pk' pick p s c =
      (case and_then (sock_handle e search pk' pick p m' (KeepAlive p (s\<lparr>ss_pool := pool\<rparr>)))
          (\<lambda>_ t. and_then (release_to_pool e m' t) (\<lambda>_ t. (Ok True, t))) of (x, t) \<Rightarrow> (x, (t, c')))"
    and m': "holds_path e mg (rq_path r) (rq_body r) m'" "same_message m m'" and cl: "clean_pool e pool"
    and c': "pending c' = rest" "inv c'" "out c' = out c"
    by (rule read_turn_dispatches [OF inv k(1,2) c r(1,2)])
  let ?s = "KeepAlive p (s\<lparr>ss_pool := pool\<rparr>)" and ?k = "k\<lparr>sk_heartbeat := 0\<rparr>"
  have inv': "ss_inv e ?s" using inv cl by (intro KeepAlive_keeps ss_inv_pool)
  have k': "ss_heap ?s p = Some ?k" "IsReady ?k" "length (items (sk_cwrite ?k)) < ccap (sk_cwrite ?k)"
    using k by (simp_all add: IsReady_def)
  have hd: "h_magic m' = rq_magic r" "h_flag m' = rq_flag r" "h_index m' = rq_index r"
    using m'(2) r(2) by (simp_all add: same_message_def carries_def)
  have nf: "\<not> Has (h_flag m') FlagConfirm" "\<not> Has (h_flag m') FlagNoreply" using r(3,4) hd(2) by simp_all
  obtain t m1 where t: "and_then (sock_handle e search pk' pick p m' ?s)
      (\<lambda>_ t. and_then (release_to_pool e m' t) (\<lambda>_ t. (Ok True, t))) = (Ok True, t)" "ss_inv e t"
    "ss_heap t p = Some (?k\<lparr>sk_cwrite := (sk_cwrite ?k)\<lparr>items := items (sk_cwrite ?k) @ [m1]\<rparr>\<rparr>)"
    and m1: "holds_path e mg (fst (split_query (rq_path r))) v m1" "h_magic m1 = h_magic m'"
      "h_flag m1 = reply_flag (h_flag m')" "h_index m1 = h_index m'" "h_size m1 = word_of_nat (slen (mbytes m1))"
    by (rule dispatch_replies [where search = search, OF inv' k' m'(1) nf dest fn opt])
  have "carries e (reply_request r v) m1"
    using m1 hd by (auto simp: carries_def reply_request_def)
  moreover have "conn_read_turn rd e False search pk pk' pick p s c = (Ok True, (t, c'))" by (simp add: turn t(1))
  ultimately show ?thesis using t(2,3) c' by (intro that [of t c' m1]) simp_all
qed

text \<open>The turn that hands the reply to the application.\<close>

lemma read_turn_announces:
  assumes inv: "ss_inv e s" and k: "ss_heap s p = Some k" "IsReady k"
    and c: "inv c" "pending c = put m @ rest"
    and r: "good r" "carries e r m" and none: "search (fst (split_query (rq_path r))) = None"
  obtains t c' m1 where "conn_read_turn rd e False search pk pk' pick p s c = (Ok True, (t, c'))"
    "ss_calls t = ss_calls s @ map (\<lambda>f. \<lparr>c_fun = f, c_sock = Some p, c_arg = AMessage m1\<rparr>)
        (ss_emitter s EventTypeMessage)"
    "fst (Path e m1) = Ok (split_query (rq_path r))" "fst (Body e m1) = Ok (rq_body r)"
    "h_flag m1 = rq_flag r" "h_index m1 = rq_index r" "pending c' = rest"
proof -
  obtain mg m' pool c' where turn: "conn_read_turn rd e False search pk pk' pick p s c =
      (case and_then (sock_handle e search pk' pick p m' (KeepAlive p (s\<lparr>ss_pool := pool\<rparr>)))
          (\<lambda>_ t. and_then (release_to_pool e m' t) (\<lambda>_ t. (Ok True, t))) of (x, t) \<Rightarrow> (x, (t, c')))"
    and m': "holds_path e mg (rq_path r) (rq_body r) m'" "same_message m m'" and cl: "clean_pool e pool"
    and c': "pending c' = rest" "inv c'" "out c' = out c"
    by (rule read_turn_dispatches [OF inv k c r])
  let ?s = "KeepAlive p (s\<lparr>ss_pool := pool\<rparr>)" and ?m = "m'\<lparr>code := word_of_nat (length (rq_path r))\<rparr>"
  let ?t = "sock_Emit EventTypeMessage [AMessage ?m] p ?s"
  have "handle_body e search pk' pick p m' ?s = (Ok (), ?t)"
    using holds_path_Path [OF m'(1)] none by (cases "split_query (rq_path r)") (simp add: handle_body_def)
  then have sh: "sock_handle e search pk' pick p m' ?s = (Ok (), ?t)" by (simp add: sock_handle_def)
  have "clean_pool e (ss_pool ?t)" using cl by (simp add: sock_Emit_def)
  then obtain pool2 where rl: "release_to_pool e m' ?t = (Ok (), ?t\<lparr>ss_pool := pool2\<rparr>)"
    using release_to_poolE ss_inv_facts(1) [OF inv] by metis
  have "conn_read_turn rd e False search pk pk' pick p s c = (Ok True, (?t\<lparr>ss_pool := pool2\<rparr>, c'))"
    by (simp add: turn sh rl)
  moreover have "ss_calls (?t\<lparr>ss_pool := pool2\<rparr>) = ss_calls s @ map (\<lambda>f. \<lparr>c_fun = f, c_sock = Some p,
      c_arg = AMessage ?m\<rparr>) (ss_emitter s EventTypeMessage)"
    by (simp add: sock_Emit_def Emit_def)
  moreover have "fst (Path e ?m) = Ok (split_query (rq_path r))" "fst (Body e ?m) = Ok (rq_body r)"
    using holds_path_read [OF m'(1)] by simp_all
  moreover have "h_flag ?m = rq_flag r" "h_index ?m = rq_index r"
    using m'(2) r(2) by (simp_all add: same_message_def carries_def)
  ultimately show ?thesis using that c'(1) by blast
qed

text \<open>
  What holds between the events of a schedule that started with \<open>c0\<close>: what was written since,
  followed by what is queued, are the accepted requests in order.
\<close>

definition in_transit :: "nat \<Rightarrow> nat \<Rightarrow> 'c \<Rightarrow> message list \<Rightarrow> request list \<Rightarrow> sockets \<Rightarrow> 'c \<Rightarrow> bool" where
  "in_transit p cap c0 ms acc s c \<longleftrightarrow>
     ss_inv e s \<and> inv c \<and> pending c = pending c0
     \<and> out c = out c0 @ concat (map put ms) \<and> (\<forall>m \<in> set ms. ok m)
     \<and> (\<exists>k. ss_heap s p = Some k \<and> IsReady k \<and> ccap (sk_cwrite k) = cap
           \<and> (\<forall>m \<in> set (items (sk_cwrite k)). ok m)
           \<and> map packet_of (ms @ items (sk_cwrite k)) = map (request_packet e) acc)"

lemma in_transitE:
  assumes "in_transit p cap c0 ms acc s c"
  obtains k where "ss_inv e s" "inv c" "pending c = pending c0" "out c = out c0 @ concat (map put ms)"
    "\<forall>m \<in> set ms. ok m" "ss_heap s p = Some k" "IsReady k" "ccap (sk_cwrite k) = cap"
    "\<forall>m \<in> set (items (sk_cwrite k)). ok m"
    "map packet_of (ms @ items (sk_cwrite k)) = map (request_packet e) acc"
  using assms unfolding in_transit_def by blast

lemma in_transit_push:
  assumes i: "in_transit p cap c0 ms acc s c" and r: "good r" and cap: "4 \<le> Capacity (opts e)"
  shows "(\<exists>t. send_request e pk pick safe p r s = (Ok (), t) \<and> in_transit p cap c0 ms (acc @ [r]) t c)
    \<or> (\<exists>x t. send_request e pk pick safe p r s = (x, t) \<and> in_transit p cap c0 ms acc t c
          \<and> (x = Blocked \<or> (\<exists>er. x = Err er)))"
  using i
proof (rule in_transitE)
  fix k
  assume inv: "ss_inv e s" and w: "inv c" "pending c = pending c0" "out c = out c0 @ concat (map put ms)"
      "\<forall>m \<in> set ms. ok m"
    and k: "ss_heap s p = Some k" "IsReady k" and cp: "ccap (sk_cwrite k) = cap"
    and q: "\<forall>m \<in> set (items (sk_cwrite k)). ok m"
      "map packet_of (ms @ items (sk_cwrite k)) = map (request_packet e) acc"
  show ?thesis
  proof (cases "length (items (sk_cwrite k)) < ccap (sk_cwrite k)")
    case True
    obtain m pool where send: "send_request e pk pick safe p r s
        = (Ok (), upd p (\<lambda>k. k\<lparr>sk_cwrite := (sk_cwrite k)\<lparr>items := items (sk_cwrite k) @ [m]\<rparr>\<rparr>)
            (s\<lparr>ss_pool := pool\<rparr>))" (is "_ = (_, ?t)") and m: "carries e r m" "clean_pool e pool"
      by (rule send_request_queues [OF inv k True good_path [OF r] cap])
    have "ss_inv e ?t" by (rule SendWithMagic_keeps [OF inv k(1) send [unfolded send_request_def]])
    moreover have "ss_heap ?t p = Some (k\<lparr>sk_cwrite := (sk_cwrite k)\<lparr>items := items (sk_cwrite k) @ [m]\<rparr>\<rparr>)"
      using k(1) by (simp add: upd_def)
    ultimately have "in_transit p cap c0 ms (acc @ [r]) ?t c"
      using w k(2) cp q good_ok [OF r m(1)] carries_packet [OF m(1)] by (simp add: in_transit_def IsReady_def)
    with send show ?thesis by blast
  next
    case False
    obtain x t where send: "send_request e pk pick safe p r s = (x, t)"
      and t: "ss_heap t = ss_heap s" "x = Blocked \<or> (\<exists>er. x = Err er)"
      using send_request_full [OF inv k False good_path [OF r] cap] by blast
    have "ss_inv e t" by (rule SendWithMagic_keeps [OF inv k(1) send [unfolded send_request_def]])
    then have "in_transit p cap c0 ms acc t c"
      using w k cp q t(1) unfolding in_transit_def by auto
    with send t(2) show ?thesis by blast
  qed
qed

lemma in_transit_flush:
  assumes i: "in_transit p cap c0 ms acc s c"
  shows "(\<exists>t c' m. conn_write_turn wr e False pick p s c = (Ok True, (t, c')) \<and> in_transit p cap c0 (ms @ [m]) acc t c')
    \<or> (\<exists>x. conn_write_turn wr e False pick p s c = (Blocked, x) \<and> length ms = length acc)"
  using i
proof (rule in_transitE)
  fix k
  assume inv: "ss_inv e s" and w: "inv c" "pending c = pending c0" "out c = out c0 @ concat (map put ms)"
      "\<forall>m \<in> set ms. ok m"
    and k: "ss_heap s p = Some k" "IsReady k" and cp: "ccap (sk_cwrite k) = cap"
    and q: "\<forall>m \<in> set (items (sk_cwrite k)). ok m"
      "map packet_of (ms @ items (sk_cwrite k)) = map (request_packet e) acc"
  show ?thesis
  proof (cases "items (sk_cwrite k)")
    case Nil
    have "sk_stop k = Some False"
      using ss_inv_facts(3) [OF inv k(1)] k(2) by (auto simp: IsReady_def sock_ok_def)
    then have "conn_write_turn wr e False pick p s c = (Blocked, (s, c))"
      using k(1) Nil by (simp add: conn_write_turn_def writeMsg_turn_def)
    moreover have "length ms = length acc" using map_eq_imp_length_eq [OF q(2)] Nil by simp
    ultimately show ?thesis by blast
  next
    case (Cons m rest)
    then have okm: "ok m" using q(1) by simp
    obtain t c' where turn: "conn_write_turn wr e False pick p s c = (Ok True, (t, c'))"
      and c': "inv c'" "out c' = out c @ put m" "pending c' = pending c"
      and t: "ss_inv e t" "ss_heap t p = Some (k\<lparr>sk_cwrite := (sk_cwrite k)\<lparr>items := rest\<rparr>\<rparr>)"
      by (rule write_turn_sends [OF inv k Cons w(1) okm])
    have "in_transit p cap c0 (ms @ [m]) acc t c'"
      using t w(2-4) c' k(2) cp q okm Cons by (simp add: in_transit_def IsReady_def)
    with turn show ?thesis by blast
  qed
qed

lemma traffic_in_transit:
  assumes cap: "4 \<le> Capacity (opts e)"
  shows "list_all (good_event good) es \<Longrightarrow> in_transit p n c0 ms acc s c \<Longrightarrow>
    \<exists>ms' acc' t c'. traffic wr e p es (acc, s, c) = Some (acc', t, c') \<and> in_transit p n c0 ms' acc' t c'"
proof (induction es arbitrary: ms acc s c)
  case Nil
  then show ?case by auto
next
  case (Cons ev es)
  have es: "list_all (good_event good) es" using Cons.prems(1) by simp
  show ?case
  proof (cases ev)
    case (Push pk pick safe r)
    then show ?thesis
      using in_transit_push [OF Cons.prems(2) _ cap, of r pk pick safe] Cons.prems
        Cons.IH [OF es] by auto
  next
    case (Flush pick)
    then show ?thesis
      using in_transit_flush [OF Cons.prems(2), of pick] Cons.prems(2) Cons.IH [OF es] by fastforce
  qed
qed

lemma in_transit_queued:
  assumes "in_transit p cap c0 ms acc s c"
  shows "length ms \<le> length acc \<and> length acc \<le> length ms + cap"
  using assms
proof (rule in_transitE)
  fix k
  assume "ss_inv e s" "ss_heap s p = Some k" "ccap (sk_cwrite k) = cap"
    and q: "map packet_of (ms @ items (sk_cwrite k)) = map (request_packet e) acc"
  then have "length (items (sk_cwrite k)) \<le> cap"
    using ss_inv_facts(3) by (fastforce simp: sock_ok_def)
  then show ?thesis using map_eq_imp_length_eq [OF q] by simp
qed

lemma traffic_flushes:
  "in_transit p cap c0 ms acc s c \<Longrightarrow> length acc \<le> length ms + n \<Longrightarrow>
   \<exists>ms' t c'. traffic wr e p (replicate n (Flush pick)) (acc, s, c) = Some (acc, t, c')
     \<and> in_transit p cap c0 ms' acc t c' \<and> length ms' = length acc"
proof (induction n arbitrary: ms s c)
  case 0
  then show ?case using in_transit_queued [OF 0(1)] by auto
next
  case (Suc n)
  from in_transit_flush [OF Suc.prems(1), of pick] show ?case
  proof (elim disjE exE conjE)
    fix t c' m
    assume "conn_write_turn wr e False pick p s c = (Ok True, (t, c'))" and i: "in_transit p cap c0 (ms @ [m]) acc t c'"
    moreover have "length acc \<le> length (ms @ [m]) + n" using Suc.prems(2) by simp
    ultimately show ?thesis using Suc.IH [OF i] by auto
  next
    fix x
    assume "conn_write_turn wr e False pick p s c = (Blocked, x)" "length ms = length acc"
    then show ?thesis using Suc.IH [OF Suc.prems(1)] by (cases x) auto
  qed
qed

text \<open>
  Any schedule, followed by as many turns of the write loop as the queue holds: the accepted
  requests are on the connection, in order, and nothing else is.
\<close>

lemma accepted_are_written:
  assumes inv: "ss_inv e s" and k: "ss_heap s p = Some k" "IsReady k" "items (sk_cwrite k) = []"
    and cap: "4 \<le> Capacity (opts e)" and es: "list_all (good_event good) es" and c: "inv c"
  obtains acc t c' ms where
    "traffic wr e p (es @ replicate (ccap (sk_cwrite k)) (Flush pick)) ([], s, c) = Some (acc, t, c')"
    "out c' = out c @ concat (map put ms)" "pending c' = pending c" "inv c'" "\<forall>m \<in> set ms. ok m"
    "map packet_of ms = map (request_packet e) acc"
proof -
  let ?cap = "ccap (sk_cwrite k)"
  have "in_transit p ?cap c [] [] s c" using inv k c by (simp add: in_transit_def)
  from traffic_in_transit [OF cap es this] obtain ms acc t c1 where
    t: "traffic wr e p es ([], s, c) = Some (acc, t, c1)" and i: "in_transit p ?cap c ms acc t c1" by blast
  have "length acc \<le> length ms + ?cap" using in_transit_queued [OF i] by blast
  from traffic_flushes [OF i this, of pick] obtain ms' u d where
    u: "traffic wr e p (replicate ?cap (Flush pick)) (acc, t, c1) = Some (acc, u, d)"
    and j: "in_transit p ?cap c ms' acc u d" and len: "length ms' = length acc" by blast
  from j obtain l :: socket where d: "inv d" "pending d = pending c" "out d = out c @ concat (map put ms')"
      "\<forall>m \<in> set ms'. ok m"
    and q: "map packet_of (ms' @ items (sk_cwrite l)) = map (request_packet e) acc"
    unfolding in_transit_def by blast
  have "items (sk_cwrite l) = []" using map_eq_imp_length_eq [OF q] len by simp
  then have "map packet_of ms' = map (request_packet e) acc" using q by simp
  moreover have "traffic wr e p (es @ replicate ?cap (Flush pick)) ([], s, c) = Some (acc, u, d)"
    using t u by (simp add: traffic_append)
  ultimately show ?thesis using that d by blast
qed

text \<open>A request that is pending, the handler's answer, and the answer on the connection.\<close>

lemma request_served:
  assumes b: "ss_inv e b" "ss_heap b q = Some l" "IsReady l" "items (sk_cwrite l) = []" "0 < ccap (sk_cwrite l)"
    and c: "inv c" "pending c = put m @ rest"
    and r: "good r" "carries e r m" "\<not> Has (rq_flag r) FlagConfirm" "\<not> Has (rq_flag r) FlagNoreply"
      "good (reply_request r v)"
    and served: "search (fst (split_query (rq_path r))) = Some (nd, OwnHandler h)"
      "\<forall>m. fst (Body e m) = Ok (rq_body r) \<longrightarrow> handler_handle h nd q m = Ok (VBytes v)"
    and opt: "S2CConfirm (opts e) = []" "4 \<le> Capacity (opts e)" "keys_ok (Magics e)"
  obtains b1 b2 c1 c2 m1 where
    "conn_read_turn rd e False search pk pk' pick q b c = (Ok True, (b1, c1))"
    "conn_write_turn wr e False pick' q b1 c1 = (Ok True, (b2, c2))"
    "out c2 = out c @ put m1" "pending c2 = rest" "inv c2" "carries e (reply_request r v) m1" "ss_inv e b2"
proof -
  have room: "length (items (sk_cwrite l)) < ccap (sk_cwrite l)" using b(4,5) by simp
  have dest: "fst (split_query (rq_path r)) \<noteq> []"
    using good_path [OF r(5)] by (simp add: path_request_def reply_request_def)
  obtain b1 c1 m1 where turn: "conn_read_turn rd e False search pk pk' pick q b c = (Ok True, (b1, c1))"
    and b1: "ss_inv e b1"
      "ss_heap b1 q = Some (l\<lparr>sk_heartbeat := 0, sk_cwrite := (sk_cwrite l)\<lparr>items := items (sk_cwrite l) @ [m1]\<rparr>\<rparr>)"
    and m1: "carries e (reply_request r v) m1" and c1: "pending c1 = rest" "inv c1" "out c1 = out c"
    by (rule read_turn_replies [where search = search, OF b(1-3) room c r(1-4) dest served opt])
  let ?l = "l\<lparr>sk_heartbeat := 0, sk_cwrite := (sk_cwrite l)\<lparr>items := items (sk_cwrite l) @ [m1]\<rparr>\<rparr>"
  have l: "IsReady ?l" "items (sk_cwrite ?l) = m1 # []" using b(3,4) by (simp_all add: IsReady_def)
  obtain b2 c2 where turn2: "conn_write_turn wr e False pick' q b1 c1 = (Ok True, (b2, c2))"
    and c2: "inv c2" "out c2 = out c1 @ put m1" "pending c2 = pending c1" "ss_inv e b2"
    by (rule write_turn_sends [OF b1 l c1(2) good_ok [OF r(5) m1]])
  show ?thesis by (rule that [OF turn turn2 _ _ c2(1) m1 c2(4)]) (simp_all add: c2 c1)
qed

end

end
