(* ===== verification/EndToEnd.thy ===== *)
theory EndToEnd
  imports Connections
begin

text \<open>
  The loops of a socket on the connections of the three packages, as interpretations of
  \<open>message_conn\<close>, and what the two ends of a connection get from each other: requests accepted
  by a sender arrive, and requests are answered, over tcp between two managers and over udp
  and websocket by a server.
\<close>

section \<open>tcp\<close>

text \<open>
  A request in path mode that is within the size limit and below the compression threshold
  (above it tcp does not transmit, see \<open>tcp_compressed_frame_fails\<close>).
\<close>

definition small :: "env \<Rightarrow> nat \<Rightarrow> bool" where
  "small e n \<longleftrightarrow> n < 2 ^ 31 \<and> int n \<le> sint (MaxDataSize (opts e))
     \<and> (sint (AutoCompressSize (opts e)) \<le> 0 \<or> int n \<le> sint (AutoCompressSize (opts e)))"

definition good_request :: "env \<Rightarrow> request \<Rightarrow> bool" where
  "good_request e r \<longleftrightarrow> path_request e r \<and> \<not> Has (rq_flag r) FlagCompressed
     \<and> small e (4 + length (rq_path r) + length (rq_body r))"

lemma carries_tcp_ok:
  assumes "good_request e r" "carries e r m"
  shows "tcp_ok e m"
proof -
  let ?n = "4 + length (rq_path r) + length (rq_body r)"
  have sm: "small e ?n" and plain: "\<not> Has (rq_flag r) FlagCompressed"
    using assms(1) by (simp_all add: good_request_def)
  have n: "?n < 2 ^ 31" using sm by (simp only: small_def)
  note sz = carries_size [OF assms(2) n] and wf = carries_wf [OF assms(2) plain n]
  show ?thesis using wf sz sm by (auto simp: tcp_ok_def fits_def auto_compress_def small_def)
qed

definition tcp_write_turn ::
  "env \<Rightarrow> bool \<Rightarrow> bool \<Rightarrow> nat \<Rightarrow> sockets \<Rightarrow> tcp_conn \<Rightarrow> (bool, sockets \<times> tcp_conn) run" where
  "tcp_write_turn e = conn_write_turn (\<lambda>m c. tcp_WriteMessage e c m) e"

definition tcp_read_turn ::
  "env \<Rightarrow> bool \<Rightarrow> registry \<Rightarrow> nat option \<Rightarrow> nat option \<Rightarrow> bool \<Rightarrow> nat \<Rightarrow> sockets \<Rightarrow> tcp_conn
    \<Rightarrow> (bool, sockets \<times> tcp_conn) run" where
  "tcp_read_turn e = conn_read_turn (tcp_ReadMessage e) e"

interpretation over_tcp: message_conn e "\<lambda>m c. tcp_WriteMessage e c m" "tcp_ReadMessage e" "wire e"
  "\<lambda>c. wrote (tc_out c)" "\<lambda>c. s_bytes (tc_in c)" "\<lambda>c. tcp_inv e c \<and> room (tc_out c) = None"
  "good_request e" "tcp_ok e" for e
proof
  fix r m assume g: "good_request e r" "carries e r m"
  show "tcp_ok e m" by (rule carries_tcp_ok [OF g])
next
  fix c m assume "tcp_inv e c \<and> room (tc_out c) = None" "tcp_ok e m"
  then show "\<exists>c'. tcp_WriteMessage e c m = (Ok (), c') \<and> (tcp_inv e c' \<and> room (tc_out c') = None)
      \<and> wrote (tc_out c') = wrote (tc_out c) @ wire e m \<and> s_bytes (tc_in c') = s_bytes (tc_in c)"
    by (simp add: tcp_WriteMessage_wire tcp_ok_def tcp_inv_def)
next
  fix c m rest m0
  assume c: "tcp_inv e c \<and> room (tc_out c) = None" and m: "tcp_ok e m"
    and b: "s_bytes (tc_in c) = wire e m @ rest" and m0: "empty_message m0"
  from c have "tcp_inv e c" ..
  from tcp_ReadMessage_wire [OF this m b m0] c
  show "\<exists>m' c'. tcp_ReadMessage e c m0 = (Ok (), (m', c')) \<and> same_message m m' \<and> code m' = code m0
      \<and> s_bytes (tc_in c') = rest \<and> (tcp_inv e c' \<and> room (tc_out c') = None) \<and> wrote (tc_out c') = wrote (tc_out c)"
    by auto
qed (simp add: good_request_def)

text \<open>Schedules of senders and the write loop over a tcp connection.\<close>

definition tcp_traffic ::
  "env \<Rightarrow> nat \<Rightarrow> traffic_event list \<Rightarrow> request list \<times> sockets \<times> tcp_conn
    \<Rightarrow> (request list \<times> sockets \<times> tcp_conn) option" where
  "tcp_traffic e = traffic (\<lambda>m c. tcp_WriteMessage e c m) e"

text \<open>
  C10. However senders and the write loop of a connected socket interleave, and whatever sends are
  refused because the queue is full: once the loop has had as many further turns as the queue
  holds, the peer of the tcp connection reads exactly the requests whose send returned
  without an error, in the order of those sends, each with its magic number, flag, index, path
  and body, and the stream behind them is untouched.
\<close>

theorem accepted_requests_arrive:
  assumes inv: "ss_inv e s" and k: "ss_heap s p = Some k" "IsReady k" "items (sk_cwrite k) = []"
    and env: "4 \<le> Capacity (opts e)" "HeadLen (opts e) = 10" and es: "list_all (good_event (good_request e)) es"
  shows "\<exists>acc t c c'. tcp_traffic e p (es @ replicate (ccap (sk_cwrite k)) (Flush pick))
        ([], s, tcp_NewConn r buffer_writer) = Some (acc, t, c)
    \<and> reads (tcp_recv e) (length acc) (tcp_NewConn \<lparr>s_bytes = wrote (tc_out c) @ rest, s_end = er\<rparr> w)
        = Some (map (request_packet e) acc, c')
    \<and> s_bytes (tc_in c') = rest"
proof -
  let ?c = "tcp_NewConn r buffer_writer"
  have c: "tcp_inv e ?c \<and> room (tc_out ?c) = None"
    using env(2) by (simp add: tcp_inv_def tcp_NewConn_def messageHeadSize_def buffer_writer_def)
  obtain acc t c' ms where t: "traffic (\<lambda>m c. tcp_WriteMessage e c m) e p
      (es @ replicate (ccap (sk_cwrite k)) (Flush pick)) ([], s, ?c) = Some (acc, t, c')"
    and w: "wrote (tc_out c') = wrote (tc_out ?c) @ concat (map (wire e) ms)" "\<forall>m \<in> set ms. tcp_ok e m"
      "map packet_of ms = map (request_packet e) acc"
    by (rule over_tcp.accepted_are_written [OF inv k env(1) es c])
  let ?r = "tcp_NewConn \<lparr>s_bytes = wrote (tc_out c') @ rest, s_end = er\<rparr> w"
  have b: "s_bytes (tc_in ?r) = concat (map (wire e) ms) @ rest" and i: "tcp_inv e ?r"
    using w(1) env(2) by (simp_all add: tcp_NewConn_def buffer_writer_def tcp_inv_def messageHeadSize_def)
  have "length ms = length acc" by (rule map_eq_imp_length_eq [OF w(3)])
  then show ?thesis
    using tcp.reads_puts [OF i w(2) b] t w(3) by (auto simp: tcp_traffic_def)
qed

text \<open>Two sends on the sample manager, one of them taken by the loop in between.\<close>

definition sample_rq :: "bytes \<Rightarrow> request" where
  "sample_rq b = \<lparr>rq_magic = MagicNumberPathJson, rq_flag = 0, rq_index = 3, rq_path = [97], rq_body = b\<rparr>"

lemma sample_rq_good: "length b \<le> 3 \<Longrightarrow> good_request sample_env (sample_rq b)"
  by (simp add: good_request_def path_request_def sample_rq_def small_def Has_def FlagCompressed_def MagicNumberPathJson_def
      Magics_init_entries(1) [unfolded MagicNumberPathJson_def])

theorem accepted_requests_arrive_witness:
  "\<exists>acc t c c'. tcp_traffic sample_env 0 ([Push None True [] (sample_rq [1]), Flush True, Push None True [] (sample_rq [2])]
        @ replicate 2 (Flush True)) ([], sample_manager, tcp_NewConn \<lparr>s_bytes = [], s_end = ErrEOF\<rparr> buffer_writer)
      = Some (acc, t, c)
    \<and> reads (tcp_recv sample_env) (length acc)
        (tcp_NewConn \<lparr>s_bytes = wrote (tc_out c) @ [9], s_end = ErrEOF\<rparr> buffer_writer)
      = Some (map (request_packet sample_env) acc, c')
    \<and> s_bytes (tc_in c') = [9]"
  using accepted_requests_arrive [OF sample_manager_inv sample_manager_heap(1),
      where es = "[Push None True [] (sample_rq [1]), Flush True, Push None True [] (sample_rq [2])]"
        and pick = True and r = "\<lparr>s_bytes = [], s_end = ErrEOF\<rparr>" and rest = "[9]" and er = ErrEOF and w = buffer_writer]
  by (simp add: IsReady_def fresh_socket_def make_chan_def sample_rq_good messageHeadSize_def)

section \<open>A request and its reply over tcp\<close>

text \<open>Bytes of the network appended to what a connection can read.\<close>

definition feed :: "bytes \<Rightarrow> tcp_conn \<Rightarrow> tcp_conn" where
  "feed bs c = c\<lparr>tc_in := (tc_in c)\<lparr>s_bytes := s_bytes (tc_in c) @ bs\<rparr>\<rparr>"

lemma feed_facts [simp]:
  "s_bytes (tc_in (feed bs c)) = s_bytes (tc_in c) @ bs" "tc_out (feed bs c) = tc_out c"
  "tcp_inv e (feed bs c) = tcp_inv e c"
  by (simp_all add: feed_def tcp_inv_def)

text \<open>
  C3. A request is answered across the network: a client sends a path-mode request over its
  connection, the server's read loop hands it to the handler registered for its path, and the
  handler's bytes come back over the same connection as a message of the client's message
  event, marked as a confirmation, with the index of the request, its path without the
  query, and exactly those bytes as the body; no step on the way fails or waits.
\<close>

theorem request_is_answered:
  assumes a: "ss_inv e a" "ss_heap a p = Some k" "IsReady k" "items (sk_cwrite k) = []" "0 < ccap (sk_cwrite k)"
    and b: "ss_inv e b" "ss_heap b q = Some l" "IsReady l" "items (sk_cwrite l) = []" "0 < ccap (sk_cwrite l)"
    and opt: "S2CConfirm (opts e) = []" "4 \<le> Capacity (opts e)" "HeadLen (opts e) = 10" "keys_ok (Magics e)"
    and r: "good_request e r" "\<not> Has (rq_flag r) FlagConfirm" "\<not> Has (rq_flag r) FlagNoreply"
    and v: "good_request e (reply_request r v)"
    and served: "search (fst (split_query (rq_path r))) = Some (nd, OwnHandler h)"
      "\<forall>m. fst (Body e m) = Ok (rq_body r) \<longrightarrow> handler_handle h nd q m = Ok (VBytes v)"
    and mine: "search' (fst (split_query (rq_path r))) = None"
    and conn: "conn = tcp_NewConn \<lparr>s_bytes = [], s_end = er\<rparr> buffer_writer"
  shows "\<exists>a1 a2 a3 b1 b2 ca cb cb' ca' m.
      send_request e (pk 0) (pick 0) [] p r a = (Ok (), a1)
    \<and> tcp_write_turn e False (pick 1) p a1 conn = (Ok True, (a2, ca))
    \<and> tcp_read_turn e False search (pk 1) (pk 2) (pick 2) q b (feed (wrote (tc_out ca)) conn) = (Ok True, (b1, cb))
    \<and> tcp_write_turn e False (pick 3) q b1 cb = (Ok True, (b2, cb'))
    \<and> tcp_read_turn e False search' (pk 3) (pk 4) (pick 4) p a2 (feed (wrote (tc_out cb')) ca) = (Ok True, (a3, ca'))
    \<and> ss_calls a3 = ss_calls a @ map (\<lambda>f. \<lparr>c_fun = f, c_sock = Some p, c_arg = AMessage m\<rparr>)
        (ss_emitter a EventTypeMessage)
    \<and> Has (h_flag m) FlagConfirm \<and> h_index m = rq_index r
    \<and> fst (Path e m) = Ok (fst (split_query (rq_path r)), []) \<and> fst (Body e m) = Ok v"
proof -
  let ?rr = "reply_request r v" and ?wr = "\<lambda>m c. tcp_WriteMessage e c m"
  have pr: "path_request e r" "path_request e ?rr" using r(1) v by (simp_all add: good_request_def)
  have room: "length (items (sk_cwrite k)) < ccap (sk_cwrite k)" using a by simp
  have i0: "tcp_inv e conn \<and> room (tc_out conn) = None"
    and w0: "wrote (tc_out conn) = []" "s_bytes (tc_in conn) = []"
    using opt(3) by (simp_all add: conn tcp_inv_def tcp_NewConn_def messageHeadSize_def buffer_writer_def)
  obtain m0 pool0 where send: "send_request e (pk 0) (pick 0) [] p r a
      = (Ok (), upd p (\<lambda>k. k\<lparr>sk_cwrite := (sk_cwrite k)\<lparr>items := items (sk_cwrite k) @ [m0]\<rparr>\<rparr>)
          (a\<lparr>ss_pool := pool0\<rparr>))" (is "_ = (_, ?a1)")
    and m0: "carries e r m0"
    by (rule send_request_queues [OF a(1-3) room pr(1) opt(2)])
  let ?k1 = "k\<lparr>sk_cwrite := (sk_cwrite k)\<lparr>items := [m0]\<rparr>\<rparr>"
  have a1: "ss_inv e ?a1" "ss_heap ?a1 p = Some ?k1"
      "IsReady ?k1" "items (sk_cwrite ?k1) = m0 # []" "ss_calls ?a1 = ss_calls a" "ss_emitter ?a1 = ss_emitter a"
    using SendWithMagic_keeps [OF a(1,2) send [unfolded send_request_def]] a
    by (simp_all add: upd_def IsReady_def)
  obtain a2 ca where turn1: "conn_write_turn ?wr e False (pick 1) p ?a1 conn = (Ok True, (a2, ca))"
    and ca: "tcp_inv e ca \<and> room (tc_out ca) = None" "wrote (tc_out ca) = wrote (tc_out conn) @ wire e m0"
      "s_bytes (tc_in ca) = s_bytes (tc_in conn)"
    and a2: "ss_inv e a2" "ss_heap a2 p = Some (?k1\<lparr>sk_cwrite := (sk_cwrite ?k1)\<lparr>items := []\<rparr>\<rparr>)"
      "ss_calls a2 = ss_calls ?a1" "ss_emitter a2 = ss_emitter ?a1"
    by (rule over_tcp.write_turn_sends [OF a1(1-4) i0 carries_tcp_ok [OF r(1) m0]])
  let ?in1 = "feed (wrote (tc_out ca)) conn"
  have in1: "tcp_inv e ?in1 \<and> room (tc_out ?in1) = None" "s_bytes (tc_in ?in1) = wire e m0 @ []"
    using i0 w0 ca(2) by simp_all
  obtain b1 b2 cb cb' m1 where turn2: "conn_read_turn (tcp_ReadMessage e) e False search (pk 1) (pk 2) (pick 2) q b ?in1
        = (Ok True, (b1, cb))"
    and turn3: "conn_write_turn ?wr e False (pick 3) q b1 cb = (Ok True, (b2, cb'))"
    and cb': "wrote (tc_out cb') = wrote (tc_out ?in1) @ wire e m1" and m1: "carries e ?rr m1"
    by (rule over_tcp.request_served [where search = search, OF b in1 r(1) m0 r(2,3) v served opt(1,2,4)])
  let ?in2 = "feed (wrote (tc_out cb')) ca"
  have in2: "tcp_inv e ?in2 \<and> room (tc_out ?in2) = None" "s_bytes (tc_in ?in2) = wire e m1 @ []"
    using ca w0 cb' by simp_all
  have cut: "split_query (rq_path ?rr) = (fst (split_query (rq_path r)), [])"
    by (simp add: reply_request_def split_query_cut)
  have none: "search' (fst (split_query (rq_path ?rr))) = None" using mine cut by simp
  have k2: "IsReady (?k1\<lparr>sk_cwrite := (sk_cwrite ?k1)\<lparr>items := []\<rparr>\<rparr>)" using a(3) by (simp add: IsReady_def)
  obtain a3 ca' m where turn4: "conn_read_turn (tcp_ReadMessage e) e False search' (pk 3) (pk 4) (pick 4) p a2 ?in2
        = (Ok True, (a3, ca'))"
    and a3: "ss_calls a3 = ss_calls a2 @ map (\<lambda>f. \<lparr>c_fun = f, c_sock = Some p, c_arg = AMessage m\<rparr>)
        (ss_emitter a2 EventTypeMessage)"
      "fst (Path e m) = Ok (split_query (rq_path ?rr))" "fst (Body e m) = Ok (rq_body ?rr)"
      "h_flag m = rq_flag ?rr" "h_index m = rq_index ?rr"
    by (rule over_tcp.read_turn_announces [where search = search', OF a2(1,2) k2 in2 v m1 none])
  have "ss_calls a3 = ss_calls a @ map (\<lambda>f. \<lparr>c_fun = f, c_sock = Some p, c_arg = AMessage m\<rparr>)
        (ss_emitter a EventTypeMessage)"
    using a3(1) a2(3,4) a1(5,6) by simp
  moreover have "Has (h_flag m) FlagConfirm" "h_index m = rq_index r" "fst (Body e m) = Ok v"
      "fst (Path e m) = Ok (fst (split_query (rq_path r)), [])"
    using a3(2-5) cut reply_flag_facts(1) by (simp_all add: reply_request_def)
  ultimately show ?thesis
    using send turn1 turn2 turn3 turn4 unfolding tcp_read_turn_def tcp_write_turn_def by blast
qed

text \<open>The sample manager as client and as server, and a handler that says \<open>[1, 2]\<close> to everything.\<close>

definition sample_node :: node where
  "sample_node = \<lparr>is_func = True, is_method = False, method_ok = True, num_in = 1, num_out = 1,
     has_caller = False, call_func = (\<lambda>_ _. Ok (VBytes [1, 2])), call_caller = (\<lambda>_ _. Panic),
     call_reflect = (\<lambda>_ _. Panic)\<rparr>"

lemma sample_handler: "handler_handle new_handler sample_node q m = Ok (VBytes [1, 2])"
  by (simp add: handler_handle_def new_handler_def sample_node_def)

lemma sample_rq_reply: "good_request sample_env (reply_request (sample_rq [9]) [1, 2])"
proof -
  have "split_query [97] = ([97], [])" by (rule split_query_plain) simp
  then show ?thesis
    using reply_flag_facts(3) [of 0]
    by (simp add: good_request_def path_request_def reply_request_def sample_rq_def small_def MagicNumberPathJson_def
        Magics_init_entries(1) [unfolded MagicNumberPathJson_def])
qed

theorem request_is_answered_witness:
  "\<exists>a3 s c ca' m. tcp_read_turn sample_env False (\<lambda>_. None) None None True 0 s c = (Ok True, (a3, ca'))
    \<and> Has (h_flag m) FlagConfirm \<and> h_index m = 3 \<and> fst (Body sample_env m) = Ok [1, 2]
    \<and> ss_calls a3 = ss_calls (On EventTypeMessage 4 sample_manager)
        @ [\<lparr>c_fun = 4, c_sock = Some 0, c_arg = AMessage m\<rparr>]"
proof -
  have d: "split_query [97] = ([97], [])" by (rule split_query_plain) simp
  have q: "ss_heap (On EventTypeMessage 4 sample_manager) 0 = Some (sock 0 sample_manager)"
      "ss_emitter (On EventTypeMessage 4 sample_manager) EventTypeMessage = [4]"
    by (simp_all add: On_def sample_manager_heap(1))
      (simp add: sample_manager_eq created_def sockets_New_def go_start_def sock_Emit_def Emit_def Let_def)
  have inv: "ss_inv sample_env (On EventTypeMessage 4 sample_manager)"
    using sample_manager_inv by (simp add: On_def)
  have k: "IsReady (sock 0 sample_manager)" "items (sk_cwrite (sock 0 sample_manager)) = []"
      "0 < ccap (sk_cwrite (sock 0 sample_manager))"
    by (simp_all add: sample_manager_heap(1) IsReady_def fresh_socket_def make_chan_def)
  have r: "good_request sample_env (sample_rq [9])" "\<not> Has (rq_flag (sample_rq [9])) FlagConfirm"
      "\<not> Has (rq_flag (sample_rq [9])) FlagNoreply"
    by (simp add: sample_rq_good, simp_all add: sample_rq_def Has_def FlagConfirm_def FlagNoreply_def)
  from request_is_answered [OF inv q(1) k inv q(1) k _ _ _ _ r sample_rq_reply,
      where search = "\<lambda>_. Some (sample_node, OwnHandler new_handler)" and search' = "\<lambda>_. None"
        and pk = "\<lambda>_. None" and pick = "\<lambda>_. True" and nd = sample_node and h = new_handler
        and er = ErrEOF and conn = "tcp_NewConn \<lparr>s_bytes = [], s_end = ErrEOF\<rparr> buffer_writer"]
  obtain a2 a3 ca ca' m and cb' :: tcp_conn where
    "tcp_read_turn sample_env False (\<lambda>_. None) None None True 0 a2 (feed (wrote (tc_out cb')) ca) = (Ok True, (a3, ca'))"
    "ss_calls a3 = ss_calls (On EventTypeMessage 4 sample_manager) @ map (\<lambda>f. \<lparr>c_fun = f, c_sock = Some 0,
        c_arg = AMessage m\<rparr>) (ss_emitter (On EventTypeMessage 4 sample_manager) EventTypeMessage)"
    "Has (h_flag m) FlagConfirm" "h_index m = rq_index (sample_rq [9])" "fst (Body sample_env m) = Ok [1, 2]"
    by (auto simp: sample_handler messageHeadSize_def keys_ok_init)
  moreover have "rq_index (sample_rq [9]) = 3" by (simp add: sample_rq_def)
  ultimately show ?thesis using q(2) by auto
qed

end
