(* ===== verification/ServerEnds.thy ===== *)
theory ServerEnds
  imports EndToEnd Listeners
begin

text \<open>
  The server's end of udp and websocket connections: the loops of a socket on a peer of the udp
  listener and on a websocket frame stream, as interpretations of \<open>message_conn\<close>, and how a
  request that comes in is answered.
\<close>

section \<open>Requests that fit a datagram or a frame\<close>

text \<open>
  Within the size limit; above the compression threshold gzip has to read back what it wrote.
\<close>

definition good_frame :: "env \<Rightarrow> request \<Rightarrow> bool" where
  "good_frame e r \<longleftrightarrow> path_request e r \<and> \<not> Has (rq_flag r) FlagCompressed
     \<and> int (4 + length (rq_path r) + length (rq_body r)) \<le> sint (MaxDataSize (opts e))
     \<and> gunzip e (gzip e (p_data (request_packet e r))) = Inr (p_data (request_packet e r))"

lemma carries_datagram_ok:
  assumes "good_frame e r" "carries e r m"
  shows "datagram_ok e m"
proof -
  let ?n = "4 + length (rq_path r) + length (rq_body r)"
  have fit: "int ?n \<le> sint (MaxDataSize (opts e))" and plain: "\<not> Has (rq_flag r) FlagCompressed"
    and gz: "gunzip e (gzip e (p_data (request_packet e r))) = Inr (p_data (request_packet e r))"
    using assms(1) by (simp_all add: good_frame_def)
  have n: "?n < 2 ^ 31" by (rule below_i32 [OF fit])
  have "p_data (packet_of m) = view (mbytes m)" by (simp add: packet_of_def)
  then have "gunzip e (gzip e (view (mbytes m))) = Inr (view (mbytes m))"
    using gz carries_packet [OF assms(2)] by simp
  then show ?thesis
    using carries_wf [OF assms(2) plain n] carries_size [OF assms(2) n] fit
    by (simp add: datagram_ok_def fits_def)
qed

section \<open>Websocket\<close>

text \<open>The converter's changes to the message are to its cached code, which a release clears.\<close>

definition wss_wr :: "env \<Rightarrow> transform \<Rightarrow> message \<Rightarrow> wss_conn \<Rightarrow> (unit, wss_conn) run" where
  "wss_wr e tr m c = (case wss_WriteMessage e tr c m of (x, (m, c)) \<Rightarrow> (x, c))"

definition wss_write_turn ::
  "env \<Rightarrow> transform \<Rightarrow> bool \<Rightarrow> bool \<Rightarrow> nat \<Rightarrow> sockets \<Rightarrow> wss_conn \<Rightarrow> (bool, sockets \<times> wss_conn) run" where
  "wss_write_turn e tr = conn_write_turn (wss_wr e tr) e"

definition wss_read_turn ::
  "env \<Rightarrow> transform \<Rightarrow> bool \<Rightarrow> registry \<Rightarrow> nat option \<Rightarrow> nat option \<Rightarrow> bool \<Rightarrow> nat \<Rightarrow> sockets \<Rightarrow> wss_conn
    \<Rightarrow> (bool, sockets \<times> wss_conn) run" where
  "wss_read_turn e tr = conn_read_turn (wss_ReadMessage e tr) e"

interpretation over_wss: message_conn e "wss_wr e DefaultTransform" "wss_ReadMessage e DefaultTransform"
  "\<lambda>m. [(BinaryMessage, wire e m)]" "\<lambda>c :: wss_conn. sx_out (wc_ctx c)" wc_in
  "\<lambda>c :: wss_conn. sx_fault (wc_ctx c) = None" "good_frame e" "datagram_ok e" for e
proof
  fix r m assume g: "good_frame e r" "carries e r m"
  show "datagram_ok e m" by (rule carries_datagram_ok [OF g])
next
  fix c :: wss_conn and m assume "sx_fault (wc_ctx c) = None" "datagram_ok e m"
  then show "\<exists>c'. wss_wr e DefaultTransform m c = (Ok (), c') \<and> sx_fault (wc_ctx c') = None
      \<and> sx_out (wc_ctx c') = sx_out (wc_ctx c) @ [(BinaryMessage, wire e m)] \<and> wc_in c' = wc_in c"
    by (simp add: wss_wr_def wss_WriteMessage_wire)
next
  fix c :: wss_conn and m rest m0
  assume "sx_fault (wc_ctx c) = None" "datagram_ok e m" "wc_in c = [(BinaryMessage, wire e m)] @ rest"
    "empty_message m0"
  then show "\<exists>m' c'. wss_ReadMessage e DefaultTransform c m0 = (Ok (), (m', c')) \<and> same_message m m'
      \<and> code m' = code m0 \<and> wc_in c' = rest \<and> sx_fault (wc_ctx c') = None \<and> sx_out (wc_ctx c') = sx_out (wc_ctx c)"
    using wss_ReadMessage_wire [of e m c rest m0] by auto
qed (simp add: good_frame_def)

section \<open>Udp\<close>

text \<open>
  The connection is object \<open>x\<close> of a listener; what it writes is on the listener's socket, under the
  address of the peer.
\<close>

definition udp_write_turn ::
  "env \<Rightarrow> nat \<Rightarrow> bool \<Rightarrow> bool \<Rightarrow> nat \<Rightarrow> sockets \<Rightarrow> udp_listener \<Rightarrow> (bool, sockets \<times> udp_listener) run" where
  "udp_write_turn e x = conn_write_turn (\<lambda>m l. udp_WriteMessage e None x m l) e"

definition udp_read_turn ::
  "env \<Rightarrow> nat \<Rightarrow> bool \<Rightarrow> registry \<Rightarrow> nat option \<Rightarrow> nat option \<Rightarrow> bool \<Rightarrow> nat \<Rightarrow> sockets \<Rightarrow> udp_listener
    \<Rightarrow> (bool, sockets \<times> udp_listener) run" where
  "udp_read_turn e x = conn_read_turn (\<lambda>l m. udp_ReadMessage e x m l) e"

definition udp_peer :: "env \<Rightarrow> nat \<Rightarrow> bytes \<Rightarrow> udp_listener \<Rightarrow> bool" where
  "udp_peer e x key l \<longleftrightarrow>
     udp_conn_inv e (x, l) \<and> (\<exists>c. ul_objs l x = Some c \<and> uc_key c = key)"

lemma udp_WriteMessage_wire:
  assumes "udp_peer e x key l" "datagram_ok e m"
  shows "udp_WriteMessage e None x m l = (Ok (), l\<lparr>ul_sent := ul_sent l @ [(key, wire e m)]\<rparr>)"
  using assms by (auto simp: udp_WriteMessage_def WriteToUDP_def Bytes_wire datagram_ok_def buffer_writer_def udp_peer_def)

interpretation over_udp: message_conn e "\<lambda>m l. udp_WriteMessage e None x m l" "\<lambda>l m. udp_ReadMessage e x m l"
  "\<lambda>m. [(key, wire e m)]" ul_sent "\<lambda>l. map (Pair key) (udp_pending (x, l))" "udp_peer e x key"
  "good_frame e" "datagram_ok e" for e x key
proof
  fix r m assume g: "good_frame e r" "carries e r m"
  show "datagram_ok e m" by (rule carries_datagram_ok [OF g])
next
  fix l m assume a: "udp_peer e x key l" "datagram_ok e m"
  let ?l = "l\<lparr>ul_sent := ul_sent l @ [(key, wire e m)]\<rparr>"
  have "udp_peer e x key ?l" "udp_pending (x, ?l) = udp_pending (x, l)"
    using a(1) by (simp_all add: udp_peer_def udp_conn_inv_def udp_pending_def)
  with udp_WriteMessage_wire [OF a]
  show "\<exists>c'. udp_WriteMessage e None x m l = (Ok (), c') \<and> udp_peer e x key c'
      \<and> ul_sent c' = ul_sent l @ [(key, wire e m)] \<and> map (Pair key) (udp_pending (x, c')) = map (Pair key) (udp_pending (x, l))"
    by simp
next
  fix l m rest m0
  assume a: "udp_peer e x key l" "datagram_ok e m"
    and p: "map (Pair key) (udp_pending (x, l)) = [(key, wire e m)] @ rest"
  then obtain ds where ds: "udp_pending (x, l) = wire e m # ds" "rest = map (Pair key) ds"
    by (cases "udp_pending (x, l)") auto
  have "udp_conn_inv e (x, l)" using a(1) by (simp add: udp_peer_def)
  from udp_ReadMessage_wire [OF this a(2) ds(1), of m0]
  show "\<exists>m' c'. udp_ReadMessage e x m0 l = (Ok (), (m', c')) \<and> same_message m m' \<and> code m' = code m0
      \<and> map (Pair key) (udp_pending (x, c')) = rest \<and> udp_peer e x key c' \<and> ul_sent c' = ul_sent l"
    using a(1) ds(2) by (fastforce simp: udp_peer_def)
qed (simp add: good_frame_def)

section \<open>From the first packet to the reply\<close>

text \<open>A manager that takes another connection.\<close>

definition can_serve :: "env \<Rightarrow> sockets \<Rightarrow> bool" where
  "can_serve e s \<longleftrightarrow> ss_inv e s \<and> \<not> full s \<and> 0 < sint (WriteChanSize (ss_opts s)) \<and> ss_index s \<noteq> - 1"

lemma can_serve_accepts:
  assumes "can_serve e s"
  obtains l where "accept_turn False (Inr c) s = (Ok True, created c s)" "ss_inv e (created c s)"
    "ss_heap (created c s) (ss_next s) = Some l" "IsReady l" "items (sk_cwrite l) = []" "0 < ccap (sk_cwrite l)"
    "sk_conn l = Some c" "sockets_Get (ss_index s + 1) (created c s) = Some (ss_next s)"
proof -
  have a: "ss_inv e s" "\<not> full s" "0 < sint (WriteChanSize (ss_opts s))" "ss_index s \<noteq> - 1"
    using assms by (simp_all add: can_serve_def)
  have room: "0 < sint (ConnectMaxSize (ss_opts s)) \<longrightarrow> sint (ss_count s) < sint (ConnectMaxSize (ss_opts s))"
    using a(2) by (auto simp: full_def)
  show ?thesis
    by (rule that [OF _ created_keeps [OF a(1,4) room] created_socket(1)])
      (use a in \<open>simp_all add: accept_turn_go IsReady_def fresh_socket_def make_chan_def sockets_Get_def\<close>)
qed

text \<open>What a datagram or a frame says to whoever reads it with an object from the pool.\<close>

definition datagram_says :: "env \<Rightarrow> bytes \<Rightarrow> packet \<Rightarrow> bool" where
  "datagram_says e d q \<longleftrightarrow>
     (case Reset e \<lparr>arr = d, slen = length d\<rparr> new_message of (Ok _, m) \<Rightarrow> packet_of m = q | _ \<Rightarrow> False)"

lemma wire_says:
  assumes "good_frame e r" "carries e r m"
  shows "datagram_says e (wire e m) (request_packet e r)"
proof -
  let ?s = "\<lparr>arr = wire e m, slen = length (wire e m)\<rparr>"
  have "wf_slice ?s" "view ?s = wire e m" by (simp_all add: wf_slice_def view_def)
  then obtain m' where m': "Reset e ?s new_message = (Ok (), m')" "same_message m m'"
    using carries_datagram_ok [OF assms] Reset_wire [of e m ?s new_message] by (auto simp: datagram_ok_def)
  then show ?thesis
    using packet_of_same [OF m'(2)] carries_packet [OF assms(2)] by (simp add: datagram_says_def)
qed

text \<open>The first packet of a peer that the listener does not know.\<close>

lemma udp_first_packet:
  assumes l: "udp_open l" "conns_get l key = None" "items (ul_connCh l) = []" "0 < ccap (ul_connCh l)"
    and d: "d \<noteq> []" "0 < sint (MsgChanSize cfg)"
  obtains l1 l2 c where "udp_packet cfg key d l = (Ok (), l1)" "udp_Accept l1 = (Ok (ul_next l), l2)"
    "ul_objs l2 (ul_next l) = Some c" "uc_key c = key" "uc_head c = None" "items (uc_msgs c) = [d]"
    "ul_sent l2 = ul_sent l"
proof -
  obtain cs where cs: "ul_conns l = Some cs" "cs key = None" "\<not> ul_mu l" "\<not> closed (ul_connCh l)"
    using l(1,2) by (auto simp: udp_open_def conns_get_def)
  let ?c = "\<lparr>uc_key = key, uc_msgs = make_chan (msg_room cfg), uc_head = None\<rparr>"
  let ?c' = "?c\<lparr>uc_msgs := (make_chan (msg_room cfg))\<lparr>items := [d]\<rparr>\<rparr>"
  let ?l1 = "l\<lparr>ul_mu := False, ul_objs := (ul_objs l)(ul_next l \<mapsto> ?c'), ul_next := Suc (ul_next l),
    ul_connCh := (ul_connCh l)\<lparr>items := [ul_next l]\<rparr>, ul_conns := Some (cs(key \<mapsto> ul_next l))\<rparr>"
  have "udp_packet cfg key d l = (Ok (), ?l1)"
    using cs l d by (simp add: udp_packet_def udp_dispatch_def lock_defs conns_get_def newConn_def Let_def
        try_send_def udp_deliver_def make_chan_def)
  moreover have "udp_Accept ?l1 = (Ok (ul_next l), ?l1\<lparr>ul_connCh := (ul_connCh l)\<lparr>items := []\<rparr>\<rparr>)"
    by (simp add: udp_Accept_def recv_def)
  ultimately show ?thesis by (rule that [where c = ?c']) simp_all
qed

text \<open>
  C9. A peer that the udp listener has never heard of is served from its first packet on: the
  packet makes a connection object for its address, the accept loop gives that a socket, the
  socket's read loop hands the request to the handler of its path, and one datagram leaves for
  that very address, which says the handler's bytes as a confirmation with the request's index;
  compressed or not, nothing on the way fails or waits.
\<close>

theorem udp_stranger_is_served:
  assumes s: "can_serve e s" and q: "q = ss_next s"
    and l: "udp_open l" "conns_get l key = None" "items (ul_connCh l) = []" "0 < ccap (ul_connCh l)"
      "0 < sint (MsgChanSize cfg)"
    and r: "good_frame e r" "carries e r m" "\<not> Has (rq_flag r) FlagConfirm" "\<not> Has (rq_flag r) FlagNoreply"
    and v: "good_frame e (reply_request r v)"
    and served: "search (fst (split_query (rq_path r))) = Some (nd, OwnHandler h)"
      "\<forall>m. fst (Body e m) = Ok (rq_body r) \<longrightarrow> handler_handle h nd q m = Ok (VBytes v)"
    and opt: "S2CConfirm (opts e) = []" "4 \<le> Capacity (opts e)" "HeadLen (opts e) = 10" "keys_ok (Magics e)"
  shows "\<exists>l1 l2 l3 l4 t b1 b2 d.
      udp_packet cfg key (wire e m) l = (Ok (), l1)
    \<and> udp_Accept l1 = (Ok (ul_next l), l2)
    \<and> accept_turn False (Inr (ul_next l)) s = (Ok True, t) \<and> sockets_Get (ss_index s + 1) t = Some q
    \<and> udp_read_turn e (ul_next l) False search (pk 0) (pk 1) (pick 0) q t l2 = (Ok True, (b1, l3))
    \<and> udp_write_turn e (ul_next l) False (pick 1) q b1 l3 = (Ok True, (b2, l4))
    \<and> ul_sent l4 = ul_sent l @ [(key, d)] \<and> datagram_says e d (request_packet e (reply_request r v))"
proof -
  let ?x = "ul_next l"
  have ok: "datagram_ok e m" by (rule carries_datagram_ok [OF r(1,2)])
  have d: "wire e m \<noteq> []"
    using ok length_wire [of e m] by (auto simp: datagram_ok_def messageHeadSize_def)
  obtain l1 l2 c where p: "udp_packet cfg key (wire e m) l = (Ok (), l1)" "udp_Accept l1 = (Ok ?x, l2)"
    and c: "ul_objs l2 ?x = Some c" "uc_key c = key" "uc_head c = None" "items (uc_msgs c) = [wire e m]"
    and sent: "ul_sent l2 = ul_sent l"
    by (rule udp_first_packet [OF l(1-4) d l(5)])
  have i: "udp_peer e ?x key l2" "map (Pair key) (udp_pending (?x, l2)) = [(key, wire e m)] @ []"
    using c opt(3) by (simp_all add: udp_peer_def udp_conn_inv_def head_ok_def udp_pending_def messageHeadSize_def)
  obtain k where a: "accept_turn False (Inr ?x) s = (Ok True, created ?x s)"
      "sockets_Get (ss_index s + 1) (created ?x s) = Some q"
    and k: "ss_inv e (created ?x s)" "ss_heap (created ?x s) q = Some k" "IsReady k" "items (sk_cwrite k) = []"
      "0 < ccap (sk_cwrite k)"
    unfolding q by (rule can_serve_accepts [OF s])
  obtain b1 b2 l3 l4 m1 where t: "conn_read_turn (\<lambda>l m. udp_ReadMessage e ?x m l) e False search (pk 0) (pk 1) (pick 0)
        q (created ?x s) l2 = (Ok True, (b1, l3))"
      "conn_write_turn (\<lambda>m l. udp_WriteMessage e None ?x m l) e False (pick 1) q b1 l3 = (Ok True, (b2, l4))"
    and o: "ul_sent l4 = ul_sent l2 @ [(key, wire e m1)]" "carries e (reply_request r v) m1"
    by (rule over_udp.request_served [where search = search, OF k i r v served opt(1,2,4)])
  have "datagram_says e (wire e m1) (request_packet e (reply_request r v))" by (rule wire_says [OF v o(2)])
  then show ?thesis
    using p a t o(1) sent unfolding udp_read_turn_def udp_write_turn_def by metis
qed

text \<open>A manager and a listener at their start, and the handler that says \<open>[1, 2]\<close>.\<close>

lemma carries_exists:
  assumes "path_request e r" "4 \<le> Capacity (opts e)"
  obtains m where "carries e r m"
proof -
  obtain mg where mg: "Magics e (rq_magic r) = Some mg" "Type mg = MagicTypePath"
    and a: "rq_path r \<noteq> []" "length (rq_path r) < 2 ^ 31" using assms(1) by (rule path_requestE)
  have "clean e new_message" using assms(2) by (simp add: clean_def nil_slice_def scap_def)
  from Marshal_holds_path [OF mg clean_room [OF this assms(2)] _ a]
  obtain s where "holds_path e mg (rq_path r) (rq_body r) (marshalled (rq_magic r) (rq_flag r) (rq_index r) s new_message)"
    by fastforce
  then have "carries e r (marshalled (rq_magic r) (rq_flag r) (rq_index r) s new_message)"
    by (auto simp: carries_def marshalled_def)
  then show ?thesis by (rule that)
qed

lemma sample_can_serve: "can_serve sample_env (sockets_New Config_default)"
proof -
  have "ss_inv sample_env (sockets_New Config_default)" by (rule ss_inv_New) simp
  then show ?thesis by (simp add: can_serve_def full_def sockets_New_def Config_default_def)
qed

lemma sample_frames:
  "good_frame sample_env (sample_rq [9])" "good_frame sample_env (reply_request (sample_rq [9]) [1, 2])"
  "\<not> Has (rq_flag (sample_rq [9])) FlagConfirm" "\<not> Has (rq_flag (sample_rq [9])) FlagNoreply"
  using sample_rq_good [of "[9]"] sample_rq_reply sample_gunzip_gzip
  by (simp_all add: good_frame_def good_request_def small_def)
    (simp_all add: sample_rq_def Has_def FlagConfirm_def FlagNoreply_def)

theorem udp_stranger_is_served_witness:
  "\<exists>m t l3 b1 b2 l4 d. carries sample_env (sample_rq [9]) m
    \<and> udp_write_turn sample_env 0 False True 0 b1 l3 = (Ok True, (b2, l4))
    \<and> ul_sent l4 = [([1], d)]
    \<and> datagram_says sample_env d (request_packet sample_env (reply_request (sample_rq [9]) [1, 2]))"
proof -
  have "path_request sample_env (sample_rq [9])" using sample_frames(1) by (simp add: good_frame_def)
  then obtain m where m: "carries sample_env (sample_rq [9]) m" by (rule carries_exists) simp
  define o1 where "o1 = \<lparr>ConnChanSize = 1, MsgChanSize = 4\<rparr>"
  define l where "l = new_udp 1"
  have l: "udp_open l" "conns_get l [1] = None" "items (ul_connCh l) = []" "0 < ccap (ul_connCh l)"
      "0 < sint (MsgChanSize o1)" "ul_sent l = []" "ul_next l = 0" "ss_next (sockets_New Config_default) = 0"
    by (simp_all add: l_def o1_def udp_open_def new_udp_def make_chan_def conns_get_def sockets_New_def)
  from udp_stranger_is_served [OF sample_can_serve refl l(1-5) sample_frames(1) m sample_frames(3,4,2),
      where search = "\<lambda>_. Some (sample_node, OwnHandler new_handler)" and nd = sample_node and h = new_handler
        and pk = "\<lambda>_. None" and pick = "\<lambda>_. True"]
  show ?thesis using m by (simp add: l sample_handler messageHeadSize_def keys_ok_init) blast
qed

text \<open>
  C15. A websocket client is served from its upgrade on: the upgraded connection goes through the
  listener's queue to the accept loop and gets a socket; the request in its first binary frame
  is handed to the handler of its path, and one binary frame goes back, which says the handler's
  bytes as a confirmation with the request's index; the frames behind it stay unread.
\<close>

theorem wss_client_is_served:
  assumes s: "can_serve e s" and q: "q = ss_next s"
    and ln: "wl_err ln = None" "wl_route ln = [] \<or> url_path = wl_route ln"
      "\<not> closed (wl_connChan ln)" "items (wl_connChan ln) = []" "0 < ccap (wl_connChan ln)"
    and c: "sx_fault (wc_ctx c) = None" "wc_in c = (BinaryMessage, wire e m) # fs"
    and r: "good_frame e r" "carries e r m" "\<not> Has (rq_flag r) FlagConfirm" "\<not> Has (rq_flag r) FlagNoreply"
    and v: "good_frame e (reply_request r v)"
    and served: "search (fst (split_query (rq_path r))) = Some (nd, OwnHandler h)"
      "\<forall>m. fst (Body e m) = Ok (rq_body r) \<longrightarrow> handler_handle h nd q m = Ok (VBytes v)"
    and opt: "S2CConfirm (opts e) = []" "4 \<le> Capacity (opts e)" "keys_ok (Magics e)"
  shows "\<exists>ln1 ln2 t b1 b2 c1 c2 d.
      ServeHTTP False is_head url_path (Inr conn) ln = (Ok [], ln1)
    \<and> wss_Accept ln1 = (Ok (Some conn), ln2)
    \<and> accept_turn False (Inr conn) s = (Ok True, t) \<and> sockets_Get (ss_index s + 1) t = Some q
    \<and> wss_read_turn e DefaultTransform False search (pk 0) (pk 1) (pick 0) q t c = (Ok True, (b1, c1))
    \<and> wss_write_turn e DefaultTransform False (pick 1) q b1 c1 = (Ok True, (b2, c2))
    \<and> sx_out (wc_ctx c2) = sx_out (wc_ctx c) @ [(BinaryMessage, d)] \<and> wc_in c2 = fs
    \<and> datagram_says e d (request_packet e (reply_request r v))"
proof -
  obtain ln1 ln2 where w: "ServeHTTP False is_head url_path (Inr conn) ln = (Ok [], ln1)"
      "wss_Accept ln1 = (Ok (Some conn), ln2)"
    using ln by (auto simp: ServeHTTP_def try_send_def wss_Accept_def recv_def)
  obtain k where a: "accept_turn False (Inr conn) s = (Ok True, created conn s)"
      "sockets_Get (ss_index s + 1) (created conn s) = Some q"
    and k: "ss_inv e (created conn s)" "ss_heap (created conn s) q = Some k" "IsReady k" "items (sk_cwrite k) = []"
      "0 < ccap (sk_cwrite k)"
    unfolding q by (rule can_serve_accepts [OF s])
  have p: "wc_in c = [(BinaryMessage, wire e m)] @ fs" using c(2) by simp
  obtain b1 b2 c1 c2 m1 where t: "conn_read_turn (wss_ReadMessage e DefaultTransform) e False search (pk 0) (pk 1) (pick 0)
        q (created conn s) c = (Ok True, (b1, c1))"
      "conn_write_turn (wss_wr e DefaultTransform) e False (pick 1) q b1 c1 = (Ok True, (b2, c2))"
    and o: "sx_out (wc_ctx c2) = sx_out (wc_ctx c) @ [(BinaryMessage, wire e m1)]" "wc_in c2 = fs"
      "carries e (reply_request r v) m1"
    by (rule over_wss.request_served [where search = search, OF k c(1) p r v served opt])
  have "datagram_says e (wire e m1) (request_packet e (reply_request r v))" by (rule wire_says [OF v o(3)])
  then show ?thesis
    using w a t o(1,2) unfolding wss_read_turn_def wss_write_turn_def by metis
qed

theorem wss_client_is_served_witness:
  "\<exists>m t b1 c1 b2 c2 d. carries sample_env (sample_rq [9]) m
    \<and> wss_read_turn sample_env DefaultTransform False (\<lambda>_. Some (sample_node, OwnHandler new_handler)) None None True 0 t
        \<lparr>wc_in = [(BinaryMessage, wire sample_env m), (CloseMessage, [])], wc_end = ErrEOF, wc_ctx = sample_ctx\<rparr>
      = (Ok True, (b1, c1))
    \<and> wss_write_turn sample_env DefaultTransform False True 0 b1 c1 = (Ok True, (b2, c2))
    \<and> sx_out (wc_ctx c2) = [(BinaryMessage, d)] \<and> wc_in c2 = [(CloseMessage, [])]
    \<and> datagram_says sample_env d (request_packet sample_env (reply_request (sample_rq [9]) [1, 2]))"
proof -
  have "path_request sample_env (sample_rq [9])" using sample_frames(1) by (simp add: good_frame_def)
  then obtain m where m: "carries sample_env (sample_rq [9]) m" by (rule carries_exists) simp
  let ?ln = "\<lparr>wl_err = None, wl_route = [], wl_connChan = make_chan 1\<rparr> :: wss_listener"
  let ?c = "\<lparr>wc_in = [(BinaryMessage, wire sample_env m), (CloseMessage, [])], wc_end = ErrEOF, wc_ctx = sample_ctx\<rparr>"
  have n: "ss_next (sockets_New Config_default) = 0" by (simp add: sockets_New_def)
  from wss_client_is_served [OF sample_can_serve refl, where ln = ?ln and c = ?c and m = m and conn = 7
      and fs = "[(CloseMessage, [])]", OF _ _ _ _ _ _ _ sample_frames(1) m sample_frames(3,4,2),
      where search = "\<lambda>_. Some (sample_node, OwnHandler new_handler)" and nd = sample_node and h = new_handler
        and pk = "\<lambda>_. None" and pick = "\<lambda>_. True" and url_path = "[]"]
  show ?thesis
    using m by (simp add: n sample_handler keys_ok_init make_chan_def sample_ctx_def) blast
qed

end
