(* ===== verification/SioEnds.thy ===== *)
theory SioEnds
  imports ServerEnds
begin

text \<open>
  The server's end of a websocket connection whose converter is \<open>SocketIO\<close>: how the loops of
  the socket answer an event that asks for an acknowledgement.
\<close>

section \<open>The message of an event, and the packet of a reply\<close>

text \<open>The environment in which events are read: their magic number is registered in path mode.\<close>

definition events_on :: "env \<Rightarrow> bool" where
  "events_on e \<longleftrightarrow>
     (case Magics e MagicNumberPathJson of None \<Rightarrow> False | Some mg \<Rightarrow> Type mg = MagicTypePath \<and> Key mg \<noteq> 0)"

lemma events_onE:
  assumes "events_on e"
  obtains mg where "Magics e MagicNumberPathJson = Some mg" "Type mg = MagicTypePath" "Key mg \<noteq> 0"
  using assms by (auto simp: events_on_def split: option.splits)

text \<open>An event that asks for an acknowledgement, read into an object from the pool.\<close>

lemma event_read_holds:
  assumes on: "events_on e" "4 \<le> Capacity (opts e)" "clean e m0"
    and name: "of_char CHR '','' \<notin> set name" "length name < 2 ^ 31 - 1"
    and n: "0 < n" "n < 2 ^ 31"
  obtains mg m where "sio_ReadMessage e t x m0 (BuildEventPacket name d [word_of_nat n]) = (Ok (), (m, x))"
    "holds_path e mg (str ''/'' @ name) d m" "h_magic m = MagicNumberPathJson" "h_flag m = 0"
    "h_index m = word_of_nat n" "Magics e (h_magic m) = Some mg" "Key mg \<noteq> 0"
proof -
  obtain mg where mg: "Magics e MagicNumberPathJson = Some mg" "Type mg = MagicTypePath" "Key mg \<noteq> 0"
    using on(1) by (rule events_onE)
  have code0: "code m0 = 0" using on(3) by (simp add: clean_def)
  have path: "str ''/'' @ name \<noteq> []" "length (str ''/'' @ name) < 2 ^ 31" using name(2) by simp_all
  have sn: "sint (word_of_nat n :: i64) = int n" using n(2) by (simp add: sint_word_of_nat64)
  have build: "BuildEventPacket name d [word_of_nat n]
      = str ''2'' @ (str ''/'' @ name @ str '','' @ (show_nat n @ str '','' @ d))"
    using n by (simp add: BuildEventPacket_def event_tail_def sn show_int_def)
  have ack: "parse_ack (show_nat n @ str '','' @ d) = (d, int n)" by (rule parse_ack_number) (use n(2) in simp)
  obtain s where ms: "Marshal e MagicNumberPathJson 0 (word_of_nat n) (PathString (str ''/'' @ name)) (VBytes d) m0
        = (Ok (), marshalled MagicNumberPathJson 0 (word_of_nat n) s m0)" (is "_ = (_, ?m)")
    and hp: "holds_path e mg (str ''/'' @ name) d (marshalled MagicNumberPathJson 0 (word_of_nat n) s m0)"
    using Marshal_holds_path [OF mg(1,2) clean_room [OF on(3,2)] code0 path] by blast
  have "event_message e (str ''/'' @ name) (show_nat n @ str '','' @ d) m0 = (Ok (), ?m)"
    unfolding event_message_def ack using n(1) ms by simp
  then have "sio_ReadMessage e t x m0 (BuildEventPacket name d [word_of_nat n]) = (Ok (), (?m, x))"
    unfolding build sio_ReadMessage_event handleEvent_split [OF name(1)] by simp
  then show ?thesis by (rule that [OF _ hp]) (simp_all add: marshalled_def mg)
qed

text \<open>A confirmation leaves as the acknowledgement packet of its index.\<close>

lemma sio_WriteMessage_ack:
  assumes "holds_path e mg p v m" "Has (h_flag m) FlagConfirm" "h_index m = word_of_nat n" "n < 2 ^ 31"
  shows "sio_WriteMessage e m
    = (Ok (BuildAckPacket (word_of_nat n) v), m\<lparr>code := word_of_nat (length p)\<rparr>)"
proof -
  have "sint (h_index m) = int n" "sint (word_of_nat n :: i64) = int n"
    using assms(3,4) by (simp_all add: sint_word_of_nat sint_word_of_nat64)
  then show ?thesis
    using holds_path_Path [OF assms(1)] holds_path_read(2) [OF assms(1)] assms(2)
    by (cases "split_query p") (simp add: sio_WriteMessage_def BuildAckPacket_def)
qed

lemma slash_path: "fst (split_query (str ''/'' @ name)) \<noteq> []"
  by (auto simp: split_query_def split: option.split)

section \<open>From the event to its acknowledgement\<close>

text \<open>
  C14. A Socket.IO event that asks for an acknowledgement gets one: the read loop hands the event
  to the handler registered under its name with a slash in front, and what the handler says
  leaves as one frame, the acknowledgement packet of the event's own number with the handler's
  bytes; nothing fails or waits, and the frames behind the event stay unread.
\<close>

theorem sio_event_is_acknowledged:
  assumes b: "ss_inv e b" "ss_heap b q = Some l" "IsReady l" "items (sk_cwrite l) = []" "0 < ccap (sk_cwrite l)"
    and c: "sx_fault (wc_ctx c) = None" "wc_in c = (ft, BuildEventPacket name d [word_of_nat n]) # rest"
      "ft = TextMessage \<or> ft = BinaryMessage"
    and name: "of_char CHR '','' \<notin> set name" "length name < 2 ^ 31 - 1" and n: "0 < n" "n < 2 ^ 31"
    and served: "search (fst (split_query (str ''/'' @ name))) = Some (nd, OwnHandler h)"
      "\<forall>m. fst (Body e m) = Ok d \<longrightarrow> handler_handle h nd q m = Ok (VBytes v)"
    and opt: "events_on e" "S2CConfirm (opts e) = []" "4 \<le> Capacity (opts e)" "keys_ok (Magics e)"
  shows "\<exists>b1 c1 b2 c2.
      wss_read_turn e (SocketIOTransform t) False search pk pk' pick q b c = (Ok True, (b1, c1))
    \<and> wss_write_turn e (SocketIOTransform t) False pick' q b1 c1 = (Ok True, (b2, c2))
    \<and> sx_out (wc_ctx c2) = sx_out (wc_ctx c) @ [(BinaryMessage, BuildAckPacket (word_of_nat n) v)]
    \<and> wc_in c2 = rest \<and> ss_inv e b2"
proof -
  let ?path = "str ''/'' @ name" and ?wr = "wss_wr e (SocketIOTransform t)"
  let ?good = "\<lambda>m c'. c' = c\<lparr>wc_in := rest\<rparr> \<and> (\<exists>mg. holds_path e mg ?path d m)
      \<and> h_flag m = 0 \<and> h_index m = word_of_nat n"
  have "\<exists>m c'. wss_ReadMessage e (SocketIOTransform t) c m0 = (Ok (), (m, c')) \<and> ?good m c'
      \<and> (\<exists>mg. Magics e (h_magic m) = Some mg \<and> Key mg \<noteq> 0)" if "clean e m0" for m0
  proof -
    have "BuildEventPacket name d [word_of_nat n] \<noteq> []" by (simp add: BuildEventPacket_def)
    with event_read_holds [OF opt(1,3) that name n, of t "wc_ctx c" d] c show ?thesis
      by (fastforce simp: wss_ReadMessage_def transform_ReadMessage_def)
  qed
  then obtain m pool c1 where turn: "wss_read_turn e (SocketIOTransform t) False search pk pk' pick q b c =
      (case and_then (sock_handle e search pk' pick q m (KeepAlive q (b\<lparr>ss_pool := pool\<rparr>)))
          (\<lambda>_ t. and_then (release_to_pool e m t) (\<lambda>_ t. (Ok True, t))) of (x, t) \<Rightarrow> (x, (t, c1)))"
    and m: "?good m c1" "clean_pool e pool"
    unfolding wss_read_turn_def by (rule conn_read_turn_ok [where good = ?good, OF b(1-3)])
  obtain mg where hp: "holds_path e mg ?path d m" using m(1) by blast
  let ?b = "KeepAlive q (b\<lparr>ss_pool := pool\<rparr>)" and ?l = "l\<lparr>sk_heartbeat := 0\<rparr>"
  have i: "ss_inv e ?b" using b(1) m(2) by (intro KeepAlive_keeps ss_inv_pool)
  have l: "ss_heap ?b q = Some ?l" "IsReady ?l" "length (items (sk_cwrite ?l)) < ccap (sk_cwrite ?l)"
    using b(2-5) by (simp_all add: IsReady_def)
  have nf: "\<not> Has (h_flag m) FlagConfirm" "\<not> Has (h_flag m) FlagNoreply" using m(1) by (simp_all add: Has_def)
  obtain b1 m1 where t: "and_then (sock_handle e search pk' pick q m ?b)
      (\<lambda>_ t. and_then (release_to_pool e m t) (\<lambda>_ t. (Ok True, t))) = (Ok True, b1)" "ss_inv e b1"
    "ss_heap b1 q = Some (?l\<lparr>sk_cwrite := (sk_cwrite ?l)\<lparr>items := items (sk_cwrite ?l) @ [m1]\<rparr>\<rparr>)"
    and m1: "holds_path e mg (fst (split_query ?path)) v m1" "h_flag m1 = reply_flag (h_flag m)" "h_index m1 = h_index m"
    by (rule dispatch_replies [where search = search, OF i l hp nf slash_path served opt(2-4)])
  let ?l1 = "?l\<lparr>sk_cwrite := (sk_cwrite ?l)\<lparr>items := items (sk_cwrite ?l) @ [m1]\<rparr>\<rparr>"
  have l1: "IsReady ?l1" "items (sk_cwrite ?l1) = m1 # []" using b(3,4) by (simp_all add: IsReady_def)
  have ack: "sio_WriteMessage e m1 = (Ok (BuildAckPacket (word_of_nat n) v),
      m1\<lparr>code := word_of_nat (length (fst (split_query ?path)))\<rparr>)"
    by (rule sio_WriteMessage_ack [OF m1(1) _ _ n(2)]) (use m(1) m1(2,3) in \<open>simp_all add: reply_flag_facts(1)\<close>)
  let ?c2 = "c\<lparr>wc_in := rest, wc_ctx := (wc_ctx c)
      \<lparr>sx_out := sx_out (wc_ctx c) @ [(BinaryMessage, BuildAckPacket (word_of_nat n) v)]\<rparr>\<rparr>"
  have "BuildAckPacket (word_of_nat n) v \<noteq> []" by (simp add: BuildAckPacket_def)
  then have wr: "?wr m1 c1 = (Ok (), ?c2)"
    using m(1) c(1) by (simp add: wss_wr_def wss_WriteMessage_def transform_WriteMessage_def ack ws_write_def)
  obtain b2 where "conn_write_turn ?wr e False pick' q b1 c1 = (Ok True, (b2, ?c2))" "ss_inv e b2"
    by (rule conn_write_turn_ok [OF t(2,3) l1, where wr = ?wr, OF wr])
  then show ?thesis using turn t(1) by (simp add: wss_write_turn_def)
qed

theorem sio_event_is_acknowledged_witness:
  "\<exists>b1 c1 b2 c2.
      wss_read_turn sample_env (SocketIOTransform (NewSocketIO [])) False
        (\<lambda>_. Some (sample_node, OwnHandler new_handler)) None None True 0 sample_manager
        \<lparr>wc_in = [(TextMessage, str ''2/hi,5,x'')], wc_end = ErrEOF, wc_ctx = sample_ctx\<rparr> = (Ok True, (b1, c1))
    \<and> wss_write_turn sample_env (SocketIOTransform (NewSocketIO [])) False True 0 b1 c1 = (Ok True, (b2, c2))
    \<and> sx_out (wc_ctx c2) = [(BinaryMessage, str ''3/5,'' @ [1, 2])]"
proof -
  let ?c = "\<lparr>wc_in = [(TextMessage, str ''2/hi,5,x'')], wc_end = ErrEOF, wc_ctx = sample_ctx\<rparr>"
  have k: "IsReady (sock 0 sample_manager)" "items (sk_cwrite (sock 0 sample_manager)) = []"
      "0 < ccap (sk_cwrite (sock 0 sample_manager))"
    by (simp_all add: sample_manager_heap(1) IsReady_def fresh_socket_def make_chan_def)
  have q: "ss_heap sample_manager 0 = Some (sock 0 sample_manager)" by (simp add: sample_manager_heap(1))
  have five: "show_nat 5 = str ''5''" by (subst show_nat.simps) (simp add: digit_def)
  have p: "BuildEventPacket (str ''hi'') (str ''x'') [word_of_nat 5] = str ''2/hi,5,x''"
      "BuildAckPacket (word_of_nat 5) [1, 2] = str ''3/5,'' @ [1, 2]"
    using show_int_pos [of 5] five by (simp_all add: BuildEventPacket_def event_tail_def BuildAckPacket_def)
  have "events_on sample_env"
    by (simp add: events_on_def MagicNumberPathJson_def Magics_init_entries(1) [unfolded MagicNumberPathJson_def])
  from sio_event_is_acknowledged [OF sample_manager_inv q k, where c = ?c and name = "str ''hi''" and d = "str ''x''"
      and n = 5 and ft = TextMessage and rest = "[]" and v = "[1, 2]" and t = "NewSocketIO []" and pk = None and pk' = None and pick = True
      and pick' = True and search = "\<lambda>_. Some (sample_node, OwnHandler new_handler)" and nd = sample_node
      and h = new_handler, OF _ _ _ _ _ _ _ _ _ this]
  show ?thesis using p by (auto simp: sample_handler sample_ctx_def keys_ok_init)
qed

end
