(* ===== verification/Dialled.thy ===== *)
theory Dialled
  imports TransportProperties
begin

text \<open>
  The connection of a dialled socket: \<open>tryConnect\<close> of \<open>sockets.go\<close> wraps whatever \<open>net.Dial\<close> returns
  in the connection of \<open>tcp/conn.go\<close>. Here that connection's reading is one definition over any
  reader, which is the one of \<open>Tcp\<close> on a byte stream, and is then put on a udp socket, where a
  \<open>Read\<close> takes one datagram and drops what does not fit its buffer.
\<close>

section \<open>Reading over any reader\<close>

text \<open>
  \<open>io.ReadFull\<close> of a reader: the bytes it got and the error, or waiting.
\<close>

type_synonym 's full_reader = "nat \<Rightarrow> 's \<Rightarrow> (bytes \<times> err option, 's) run"

definition Write_over :: "'s full_reader \<Rightarrow> env \<Rightarrow> 's \<Rightarrow> message \<Rightarrow> (nat, message \<times> 's) run" where
  "Write_over rf e r m =
     (let n = sint (h_size m) in
      if n = 0 then (Ok 0, (m, r))
      else case read_slice e n (mbytes m) of
        Ok s \<Rightarrow>
          (case rf (nat n) r of
             (Ok (got, _), r') \<Rightarrow>
               let m' = m\<lparr>mbytes := s\<lparr>arr := overwrite 0 got (arr s)\<rparr>\<rparr> in
               if length got \<noteq> nat n then (Err ErrShortBuffer, (m', r'))
               else (case decompress e m' of
                       (x, m'') \<Rightarrow> (map_outcome (\<lambda>_. length got) x, (m'', r')))
           | (x, r') \<Rightarrow> (map_outcome (\<lambda>_. 0) x, (m, r')))
      | _ \<Rightarrow> (Panic, (m, r)))"

definition readMsgTrue_over ::
  "'s full_reader \<Rightarrow> env \<Rightarrow> 's \<Rightarrow> message \<Rightarrow> (unit, message \<times> 's) run" where
  "readMsgTrue_over rf e r m =
     (if h_size m = 0 then (Ok (), (m, r))
      else case Write_over rf e r m of (x, mr) \<Rightarrow> (as_text ''READ BODY ERR'' (done_with x), mr))"

definition ReadMessage_over ::
  "'s full_reader \<Rightarrow> env \<Rightarrow> bytes option \<Rightarrow> 's \<Rightarrow> message \<Rightarrow> (unit, message \<times> bytes option \<times> 's) run" where
  "ReadMessage_over rf e head r m =
     (let h = (case head of None \<Rightarrow> replicate (HeadLen (opts e)) 0 | Some h \<Rightarrow> h) in
      case rf (length h) r of
        (Ok (got, er), r) \<Rightarrow>
          let h' = overwrite 0 got h in
          (case er of
             Some x \<Rightarrow> (Err x, (m, Some h', r))
           | None \<Rightarrow>
               (case Parse e h' m of
                  (Ok _, m) \<Rightarrow> (case readMsgTrue_over rf e r m of (x, (m, r)) \<Rightarrow> (x, (m, Some h', r)))
                | (x, m) \<Rightarrow> (as_text ''READ HEAD ERR'' x, (m, Some h', r))))
      | (x, r) \<Rightarrow> (done_with x, (m, Some h, r)))"

text \<open>On a byte stream it is the connection of \<open>Tcp\<close>.\<close>

definition stream_full :: "stream full_reader" where
  "stream_full n r = (case read_full n r of (got, er, r) \<Rightarrow> (Ok (got, er), r))"

lemma Write_over_stream: "Write_over stream_full e r m = Write e r m"
  by (simp add: Write_over_def Write_def stream_full_def Let_def split: prod.split outcome.split)

lemma ReadMessage_over_stream:
  "tcp_ReadMessage e c m =
     (case ReadMessage_over stream_full e (tc_head c) (tc_in c) m of
        (x, (m, h, r)) \<Rightarrow> (x, (m, c\<lparr>tc_head := h, tc_in := r\<rparr>)))"
  by (simp add: tcp_ReadMessage_def ReadMessage_over_def stream_full_def tcp_readMsgTrue_def
      readMsgTrue_over_def Write_over_stream Let_def split: prod.split outcome.split option.split)

section \<open>A udp socket as the reader\<close>

text \<open>
  \<open>UDPConn.Read\<close> into a buffer of \<open>n\<close> bytes takes the next datagram, cut to the buffer; the rest of
  it is gone. \<open>io.ReadFull\<close> reads on until the buffer is full. The state is what has arrived.
\<close>

fun dgram_full :: "bytes list full_reader" where
  "dgram_full n [] = (if n = 0 then (Ok ([], None), []) else (Blocked, []))"
| "dgram_full n (d # ds) =
     (if n = 0 then (Ok ([], None), d # ds)
      else case dgram_full (n - length (take n d)) ds of
        (Ok (b, er), r) \<Rightarrow> (Ok (take n d @ b, er), r)
      | (x, r) \<Rightarrow> (x, r))"

lemma dgram_full_0 [simp]: "dgram_full 0 ds = (Ok ([], None), ds)"
  by (cases ds) simp_all

lemma dgram_full_first: "n \<le> length d \<Longrightarrow> 0 < n \<Longrightarrow> dgram_full n (d # ds) = (Ok (take n d, None), ds)"
  by simp

declare dgram_full.simps [simp del]

text \<open>
  The head of the first datagram is read, and whatever follows it in that datagram is dropped.
\<close>

lemma ReadMessage_over_head:
  assumes ok: "tcp_ok e m" and hl: "HeadLen (opts e) = 10"
  shows "ReadMessage_over dgram_full e None (wire e m # ds) m0
    = (case readMsgTrue_over dgram_full e ds (parsed e m m0) of
        (x, (m1, r)) \<Rightarrow> (x, (m1, Some (take 10 (wire e m)), r)))"
proof -
  obtain mg where mg: "Magics e (h_magic m) = Some mg" using ok by (auto simp: tcp_ok_def wf_message_def)
  have fits: "fits e m" using ok by (simp add: tcp_ok_def)
  have w: "wire e m = wire_head e mg m @ wire_body e m" using mg by (simp add: wire_def)
  have len: "length (wire_head e mg m) = 10" by (simp add: messageHeadSize_def)
  have tk: "take 10 (wire e m) = wire_head e mg m" using len w by simp
  have "dgram_full 10 (wire e m # ds) = (Ok (wire_head e mg m, None), ds)"
    unfolding tk [symmetric] by (rule dgram_full_first) (use len w in simp_all)
  then show ?thesis
    unfolding ReadMessage_over_def by (simp add: hl tk Parse_wire_head [OF mg fits] Let_def messageHeadSize_def)
qed

text \<open>The body is taken from the datagram after it.\<close>

lemma Write_over_dgram:
  assumes n: "sint (h_size m) = int n" "0 < n" "n \<le> length d" and plain: "\<not> Has (h_flag m) FlagCompressed"
  obtains s where "wf_slice s" "view s = take n d"
    "Write_over dgram_full e (d # ds) m = (Ok n, (m\<lparr>mbytes := s\<rparr>, ds))"
proof -
  obtain s where s: "read_slice e (int n) (mbytes m) = Ok s" "slen s = n" "wf_slice s"
    using read_slice_ok [of "int n"] by auto
  let ?s = "s\<lparr>arr := overwrite 0 (take n d) (arr s)\<rparr>"
  have "wf_slice ?s" "view ?s = take n d" using s n(3) by (simp_all add: wf_slice_def view_def)
  moreover have "Write_over dgram_full e (d # ds) m = (Ok n, (m\<lparr>mbytes := ?s\<rparr>, ds))"
    using n s plain by (simp add: Write_over_def Let_def dgram_full_first decompress_def min_def)
  ultimately show ?thesis by (rule that)
qed

text \<open>
  A client that dials a udp address cannot receive: of a datagram with a reply the read of the
  head keeps ten bytes and drops the body. If nothing else arrives, the read loop waits; else it
  takes the body's length from the front of the next datagram, whatever that is, delivers this
  under the first message's head, and loses the second datagram as well.
\<close>

theorem udp_client_loses_body:
  assumes ok: "tcp_ok e m" and body: "view (mbytes m) \<noteq> []" and hl: "HeadLen (opts e) = 10"
    and d: "length (view (mbytes m)) \<le> length d"
  shows "fst (ReadMessage_over dgram_full e None [wire e m] m0) = Blocked
    \<and> (\<exists>m' h. ReadMessage_over dgram_full e None (wire e m # d # ds) m0 = (Ok (), (m', Some h, ds))
          \<and> h_magic m' = h_magic m \<and> h_flag m' = h_flag m \<and> h_index m' = h_index m
          \<and> view (mbytes m') = take (length (view (mbytes m))) d)"
proof -
  let ?n = "length (view (mbytes m))" and ?p = "parsed e m m0"
  have wf: "wf_message e m" using ok by (simp add: tcp_ok_def)
  have len: "?n = slen (mbytes m)" using wf by (simp add: wf_message_def)
  have pos: "0 < ?n" using body length_greater_0_conv by blast
  have p: "sint (h_size ?p) = int ?n" "h_size ?p \<noteq> 0" "0 < ?n" "\<not> Has (h_flag ?p) FlagCompressed"
      "h_flag ?p = h_flag m"
    using wf_message_size [OF wf] wf_message_size_0 [OF wf] body ok len pos
    by (simp_all add: parsed_def wire_flag_def tcp_ok_def wf_message_def del: length_view)
  obtain s1 where "read_slice e (int ?n) (mbytes ?p) = Ok s1" using read_slice_ok [of "int ?n"] by auto
  then have "fst (readMsgTrue_over dgram_full e [] ?p) = Blocked"
    using p(1-3) by (simp add: readMsgTrue_over_def Write_over_def Let_def dgram_full.simps)
  then have blocked: "fst (ReadMessage_over dgram_full e None [wire e m] m0) = Blocked"
    unfolding ReadMessage_over_head [OF ok hl] by (auto split: prod.split)
  obtain s where s: "wf_slice s" "view s = take ?n d"
    "Write_over dgram_full e (d # ds) ?p = (Ok ?n, (?p\<lparr>mbytes := s\<rparr>, ds))"
    by (rule Write_over_dgram [OF p(1,3) d p(4)])
  have "ReadMessage_over dgram_full e None (wire e m # d # ds) m0
      = (Ok (), (?p\<lparr>mbytes := s\<rparr>, Some (take 10 (wire e m)), ds))"
    unfolding ReadMessage_over_head [OF ok hl] using p(2) s(3) by (simp add: readMsgTrue_over_def)
  then show ?thesis using blocked s(2) p(5) by (simp add: parsed_def)
qed

theorem udp_client_loses_body_witness:
  "fst (ReadMessage_over dgram_full sample_env None [wire sample_env (sample_message [5])] new_message) = Blocked
    \<and> (\<exists>m' h. ReadMessage_over dgram_full sample_env None
            [wire sample_env (sample_message [5]), [7, 8], [9]] new_message = (Ok (), (m', Some h, [[9]]))
          \<and> view (mbytes m') = [7])"
proof -
  have "tcp_ok sample_env (sample_message [5])" "view (mbytes (sample_message [5])) = [5]"
    using sample_message_ok [of "[5]"] by (simp_all add: sample_message_def marshalled_def view_def)
  from udp_client_loses_body [OF this(1), of "[7, 8]" new_message "[[9]]"] this(2)
  show ?thesis by (simp add: messageHeadSize_def) blast
qed

end
