(* ===== verification/ConnApi.thy ===== *)
theory ConnApi
  imports TransportProperties Addresses
begin

text \<open>
  The rest of \<open>net.Conn\<close> and \<open>net.Listener\<close> in \<open>udp/\<close> and \<open>wss/\<close>: addresses, deadlines and the plain
  \<open>Read\<close>. All connections of a udp listener share its socket, and with it the deadlines.
\<close>

section \<open>The socket of a udp listener\<close>

text \<open>
  What \<open>net.UDPConn\<close> keeps besides its buffers: its own address and the two deadlines, \<open>None\<close> for
  none (the zero time).
\<close>

record udp_sock =
  us_local :: bytes
  us_rdl :: "nat option"
  us_wdl :: "nat option"

definition udp_conn_Read :: "(nat, unit) run" where
  "udp_conn_Read = (Err (ErrNew ''udp conn read not implemented''), ())"

definition udp_conn_LocalAddr :: "udp_sock \<Rightarrow> bytes" where
  "udp_conn_LocalAddr k = us_local k"

definition udp_conn_RemoteAddr :: "nat \<Rightarrow> udp_listener \<Rightarrow> bytes option" where
  "udp_conn_RemoteAddr p l = map_option uc_key (ul_objs l p)"

definition udp_conn_SetDeadline :: "nat option \<Rightarrow> udp_sock \<Rightarrow> udp_sock" where
  "udp_conn_SetDeadline t k = k\<lparr>us_rdl := t, us_wdl := t\<rparr>"

definition udp_conn_SetReadDeadline :: "nat option \<Rightarrow> udp_sock \<Rightarrow> udp_sock" where
  "udp_conn_SetReadDeadline t k = k\<lparr>us_rdl := t\<rparr>"

definition udp_conn_SetWriteDeadline :: "nat option \<Rightarrow> udp_sock \<Rightarrow> udp_sock" where
  "udp_conn_SetWriteDeadline t k = k\<lparr>us_wdl := t\<rparr>"

text \<open>The listener has noted the address when it was made.\<close>

definition udp_Addr :: "udp_sock \<Rightarrow> bytes" where
  "udp_Addr k = us_local k"

section \<open>Websocket connections and listeners\<close>

definition wss_NewConn :: "(ws_type \<times> bytes) list \<Rightarrow> err \<Rightarrow> sock_ctx \<Rightarrow> wss_conn" where
  "wss_NewConn frames er x = \<lparr>wc_in = frames, wc_end = er, wc_ctx = x\<rparr>"

text \<open>
  The options of the two packages. What the upgrade asks of a request is its URL's host, which is
  empty in the ordinary form of a request, whatever the \<open>Origin\<close> header says.
\<close>

record wss_options =
  Origin :: "bytes list"
  wo_ConnChanSize :: i32
  wo_Transform :: transform

definition wss_Options :: wss_options where
  "wss_Options = \<lparr>Origin = [], wo_ConnChanSize = 100, wo_Transform = DefaultTransform\<rparr>"

definition CheckOrigin :: "wss_options \<Rightarrow> bytes \<Rightarrow> bool" where
  "CheckOrigin o1 host = AccessControlAllow (Origin o1) host"

definition udp_Options :: udp_options where
  "udp_Options = \<lparr>ConnChanSize = 100, MsgChanSize = 100\<rparr>"

lemma listed_origins_refuse_all:
  "Origin o1 \<noteq> [] \<Longrightarrow> str ''*'' \<notin> set (Origin o1) \<Longrightarrow> [] \<notin> set (Origin o1) \<Longrightarrow> \<not> CheckOrigin o1 []"
  by (auto simp: CheckOrigin_def AccessControlAllow_def list_ex_iff)

text \<open>The two deadlines are set one after the other by the websocket library.\<close>

definition wss_SetDeadline ::
  "(nat option \<Rightarrow> 'c \<Rightarrow> (unit, 'c) run) \<Rightarrow> (nat option \<Rightarrow> 'c \<Rightarrow> (unit, 'c) run) \<Rightarrow> nat option \<Rightarrow> 'c
    \<Rightarrow> (unit, 'c) run" where
  "wss_SetDeadline set_read set_write t c = and_then (set_read t c) (\<lambda>_ c. set_write t c)"

text \<open>An address that cannot be resolved is that of an empty \<open>net.TCPAddr\<close>.\<close>

definition wss_Addr :: "(bytes \<Rightarrow> err + bytes) \<Rightarrow> bytes \<Rightarrow> bytes" where
  "wss_Addr resolve addr = (case resolve addr of Inl _ \<Rightarrow> str '':0'' | Inr a \<Rightarrow> a)"

text \<open>
  Such a listener in front hides the others from \<open>Sockets.Address\<close>, which gives port 0.
\<close>

lemma Address_unresolved_wss:
  assumes "resolve a = Inl er" "addr l = Some (wss_Addr resolve a)"
  shows "Address addr (Inr (str ''10.0.0.7'')) (l # ls) = str ''10.0.0.7:0''"
  using assms by (simp add: wss_Addr_def SplitHostPort_def split_rest_def local_hosts_def own_ip_def JoinHostPort_def)

section \<open>Deadlines and the receive loop\<close>

text \<open>
  \<open>ReadFromUDP\<close> for a packet that arrives at time \<open>now\<close>: with a deadline at or before that the read
  has failed.
\<close>

definition ReadFromUDP :: "udp_sock \<Rightarrow> nat \<times> bytes \<times> bytes \<Rightarrow> udp_event" where
  "ReadFromUDP k a =
     (case a of (now, key, data) \<Rightarrow>
        (case us_rdl k of
           Some t \<Rightarrow> if t \<le> now then ReadFault (ErrNew ''i/o timeout'') else Datagram key data
         | None \<Rightarrow> Datagram key data))"

definition received :: "udp_sock \<Rightarrow> (nat \<times> bytes \<times> bytes) list \<Rightarrow> (bool \<times> udp_event) list" where
  "received k arrivals = map (\<lambda>a. (False, ReadFromUDP k a)) arrivals"

lemma received_heard:
  "us_rdl k = Some t \<Longrightarrow> heard (received k as) = map snd (takeWhile (\<lambda>a. fst a < t) as)
    \<and> (loop_ends (received k as) \<longleftrightarrow> (\<exists>a \<in> set as. t \<le> fst a))"
  by (induction "as") (auto simp: received_def ReadFromUDP_def loop_ends_def)

lemma received_all: "us_rdl k = None \<Longrightarrow> heard (received k as) = map snd as \<and> \<not> loop_ends (received k as)"
  by (induction "as") (auto simp: received_def ReadFromUDP_def loop_ends_def)

text \<open>
  A read deadline set on one udp connection is a deadline of the listener: without one the
  receive loop takes every packet that arrives and waits for the next; but once the deadline set on
  any one connection has passed, the next read fails and the loop is over for good, so that the
  packets of all peers from then on are lost.
\<close>

theorem udp_deadline_ends_listener:
  assumes inv: "udp_inv l" "udp_open l" and late: "\<exists>a \<in> set arrivals. t \<le> fst a" and none: "us_rdl k = None"
    and size: "0 \<le> sint (MsgChanSize cfg)"
  shows "(\<exists>l'. readLoop cfg (received k arrivals) l = (Blocked, l')
            \<and> routes l' = fold (route cfg) (map snd arrivals) (routes l))
    \<and> (\<exists>l'. readLoop cfg (received (udp_conn_SetReadDeadline (Some t) k) arrivals) l = (Ok (), l')
            \<and> routes l' = fold (route cfg) (map snd (takeWhile (\<lambda>a. fst a < t) arrivals)) (routes l))"
proof
  show "\<exists>l'. readLoop cfg (received k arrivals) l = (Blocked, l')
            \<and> routes l' = fold (route cfg) (map snd arrivals) (routes l)"
    using readLoop_routes [OF inv size, of "received k arrivals"] received_all [OF none, of arrivals] by auto
  have "us_rdl (udp_conn_SetReadDeadline (Some t) k) = Some t" by (simp add: udp_conn_SetReadDeadline_def)
  from received_heard [OF this, of arrivals] late
  show "\<exists>l'. readLoop cfg (received (udp_conn_SetReadDeadline (Some t) k) arrivals) l = (Ok (), l')
            \<and> routes l' = fold (route cfg) (map snd (takeWhile (\<lambda>a. fst a < t) arrivals)) (routes l)"
    using readLoop_routes [OF inv size, of "received (udp_conn_SetReadDeadline (Some t) k) arrivals"] by auto
qed

theorem udp_deadline_ends_listener_witness:
  "\<exists>l'. readLoop \<lparr>ConnChanSize = 1, MsgChanSize = 4\<rparr>
        (received (udp_conn_SetReadDeadline (Some 5) \<lparr>us_local = [], us_rdl = None, us_wdl = None\<rparr>)
          [(1, [1], [7]), (6, [1], [8]), (7, [2], [9])]) sample_listener = (Ok (), l')
    \<and> peer_chan l' [1] = Some \<lparr>items = [[7]], ccap = 4, closed = False\<rparr>"
proof -
  have p: "peer_chan sample_listener [1] = Some (make_chan 4)"
    using sample_listener_inv(3,4) by (simp add: peer_chan_def)
  show ?thesis
    using udp_deadline_ends_listener [OF sample_listener_inv(1,2), where t = 5
        and arrivals = "[(1, [1], [7]), (6, [1], [8]), (7, [2], [9])]"
        and k = "\<lparr>us_local = [], us_rdl = None, us_wdl = None\<rparr>" and cfg = "\<lparr>ConnChanSize = 1, MsgChanSize = 4\<rparr>"]
    by (auto simp: routes_def p offer_def make_chan_def)
qed

end
