(* ===== verification/Shutdown.thy ===== *)
theory Shutdown
  imports Listeners
begin

text \<open>
  The end of the process: \<open>stop\<close> of \<open>sockets.go\<close> closes the listeners, the context of the write
  loops is done and the read loops see that the process is stopping. What that does to servers,
  as a composition of the listeners, the accept loops and the write loops; and what it does to
  dialled sockets.
\<close>

section \<open>Write loops whose context is done\<close>

text \<open>
  The loop \<open>writeMsg\<close> of a socket once the context is done, for a sequence of choices: whether the
  runtime takes the end or a waiting message, and how the write of that message fails, if it
  does. The result is whether the loop is still running when the choices are used up.
\<close>

fun writeMsg_ending ::
  "env \<Rightarrow> (bool \<times> err option) list \<Rightarrow> nat \<Rightarrow> sockets \<Rightarrow> (bool, sockets) run" where
  "writeMsg_ending e [] p s = (Ok True, s)"
| "writeMsg_ending e ((pick, fault) # cs) p s =
     and_then (writeMsg_turn e True pick fault p s) (\<lambda>more s.
       if more then writeMsg_ending e cs p s else (Ok False, s))"

text \<open>What one server socket's end leaves of the others.\<close>

definition gone :: "nat \<Rightarrow> sockets \<Rightarrow> sockets \<Rightarrow> bool" where
  "gone p s t \<longleftrightarrow>
     (\<forall>q. q \<noteq> p \<longrightarrow> ss_heap t q = ss_heap s q) \<and> set (ss_closed s) \<subseteq> set (ss_closed t)
     \<and> (\<exists>k c. ss_heap s p = Some k \<and> sk_conn k = Some c \<and> c \<in> set (ss_closed t)
          \<and> ss_sockets t = (ss_sockets s)(sk_id k := None))
     \<and> (\<exists>k'. ss_heap t p = Some k' \<and> sk_status k' = SocketStatusReleased)"

lemma writeMsg_turn_ends:
  assumes inv: "ss_inv e s" and k: "ss_heap s p = Some k" "isValidStatus (sk_status k)" "sk_address k = []"
    and stop: "pick \<or> items (sk_cwrite k) = []"
  obtains t where "writeMsg_turn e True pick fault p s = (Ok False, t)" "ss_inv e t" "gone p s t"
proof -
  have "sock_Type k = SocketTypeServer" using k(3) by (simp add: sock_Type_def)
  then obtain c pool where c: "sk_conn k = Some c" "disconnect e p s = (Ok True,
      released p (k\<lparr>sk_status := SocketStatusDisconnected, sk_stop := Some True, sk_conn := None\<rparr>) pool
        (cut p c k SocketStatusDisconnected s))" (is "_ = (_, ?t)")
    using disconnect_server_state [OF inv k(1,2)] by metis
  have turn: "writeMsg_turn e True pick fault p s = (Ok False, end_task (TWrite p) ?t)"
    using stop k(1) c(2) by (auto simp: writeMsg_turn_def Let_def split: list.split)
  have "gone p s (end_task (TWrite p) ?t)"
    using k(1) c(1) by (auto simp: gone_def end_task_def released_def cut_def go_start_def sock_Emit_def Emit_def Let_def)
  then show ?thesis by (rule that [OF turn writeMsg_turn_keeps [OF inv k(1) turn]])
qed

lemma writeMsg_turn_writes:
  assumes inv: "ss_inv e s" and k: "ss_heap s p = Some k" "isValidStatus (sk_status k)"
    and q: "items (sk_cwrite k) = m # ms"
  obtains t where "writeMsg_turn e True False fault p s = (Ok True, t)" "ss_inv e t"
    "ss_heap t = (ss_heap s)(p \<mapsto> k\<lparr>sk_cwrite := (sk_cwrite k)\<lparr>items := ms\<rparr>\<rparr>)"
    "ss_sockets t = ss_sockets s" "ss_closed t = ss_closed s"
proof -
  obtain c where c: "sk_conn k = Some c" using isValid_ok [OF ss_inv_facts(3) [OF inv k(1)] k(2)] by blast
  let ?u = "upd p (\<lambda>k. k\<lparr>sk_cwrite := (sk_cwrite k)\<lparr>items := ms\<rparr>\<rparr>) s"
  obtain m' where m': "message_Release e m = (Ok (), m')"
    using message_Release_ok [OF ss_inv_facts(1) [OF inv]] by blast
  define u1 where "u1 = (case fault of None \<Rightarrow> ?u | Some er \<Rightarrow> Errorf (Some p) er ?u)"
  have u1: "ss_heap u1 = (ss_heap s)(p \<mapsto> k\<lparr>sk_cwrite := (sk_cwrite k)\<lparr>items := ms\<rparr>\<rparr>)"
      "ss_sockets u1 = ss_sockets s" "ss_closed u1 = ss_closed s"
    using k(1) by (auto simp: u1_def upd_def Errorf_def Emit_def Let_def split: option.split)
  obtain pool where pool: "Release e (Some m) (ss_pool u1) = (Ok (), pool)"
    by (cases "Pool (opts e)") (simp_all add: Release_def m')
  have conn: "sk_conn (sock p ?u) = Some c" using k(1) c by (simp add: upd_def sock_def)
  have "writeMsgTrue e fault p m ?u = (Ok (), u1\<lparr>ss_pool := pool\<rparr>)"
    using pool unfolding writeMsgTrue_def conn Let_def u1_def by (cases fault) simp_all
  then obtain v where v: "writeMsgTrue e fault p m ?u = (Ok (), v)"
    "ss_heap v = (ss_heap s)(p \<mapsto> k\<lparr>sk_cwrite := (sk_cwrite k)\<lparr>items := ms\<rparr>\<rparr>)"
    "ss_sockets v = ss_sockets s" "ss_closed v = ss_closed s"
    using u1 by simp
  have turn: "writeMsg_turn e True False fault p s = (Ok True, v)"
    using k(1) q v(1) by (simp add: writeMsg_turn_def)
  show ?thesis by (rule that [OF turn writeMsg_turn_keeps [OF inv k(1) turn] v(2-4)])
qed

text \<open>With more turns than messages the loop ends, whatever the runtime chooses.\<close>

lemma writeMsg_ending_gone:
  assumes "ss_inv e s" "ss_heap s p = Some k" "isValidStatus (sk_status k)" "sk_address k = []"
    and "length (items (sk_cwrite k)) < length cs"
  shows "\<exists>t. writeMsg_ending e cs p s = (Ok False, t) \<and> ss_inv e t \<and> gone p s t"
  using assms
proof (induction cs arbitrary: s k)
  case (Cons x cs)
  obtain pick fault where x: "x = (pick, fault)" by fastforce
  show ?case
  proof (cases "pick \<or> items (sk_cwrite k) = []")
    case True
    obtain t where "writeMsg_turn e True pick fault p s = (Ok False, t)" "ss_inv e t" "gone p s t"
      by (rule writeMsg_turn_ends [OF Cons.prems(1-4) True])
    then show ?thesis by (simp add: x)
  next
    case False
    then obtain m ms where q: "items (sk_cwrite k) = m # ms" by (cases "items (sk_cwrite k)") auto
    let ?k = "k\<lparr>sk_cwrite := (sk_cwrite k)\<lparr>items := ms\<rparr>\<rparr>"
    obtain t where t: "writeMsg_turn e True False fault p s = (Ok True, t)" "ss_inv e t"
        "ss_heap t = (ss_heap s)(p \<mapsto> ?k)" "ss_sockets t = ss_sockets s" "ss_closed t = ss_closed s"
      by (rule writeMsg_turn_writes [OF Cons.prems(1-3) q])
    have "ss_heap t p = Some ?k" "isValidStatus (sk_status ?k)" "sk_address ?k = []"
        "length (items (sk_cwrite ?k)) < length cs"
      using t(3) Cons.prems(3-5) q by simp_all
    from Cons.IH [OF t(2) this] obtain u where u: "writeMsg_ending e cs p t = (Ok False, u)" "ss_inv e u" "gone p t u"
      by blast
    have "gone p s u" using u(3) t(3-5) Cons.prems(2) by (simp add: gone_def)
    then show ?thesis using u t(1) False x by simp
  qed
qed simp

text \<open>The loops of several sockets, one after the other.\<close>

fun end_writers ::
  "env \<Rightarrow> (nat \<times> (bool \<times> err option) list) list \<Rightarrow> sockets \<Rightarrow> (unit, sockets) run" where
  "end_writers e [] s = (Ok (), s)"
| "end_writers e ((p, cs) # plan) s = and_then (writeMsg_ending e cs p s) (\<lambda>_ s. end_writers e plan s)"

text \<open>A server socket of the table is connected or closing.\<close>

lemma server_is_valid:
  assumes "ss_inv e s" "ss_sockets s i = Some p" "ss_heap s p = Some k" "sk_address k = []"
  shows "isValidStatus (sk_status k)"
proof -
  have "sk_status k \<noteq> SocketStatusReleased"
    using assms(1-3) unfolding ss_inv_def table_inv_def by auto
  then show ?thesis
    using ss_inv_facts(3) [OF assms(1,3)] assms(4) by (cases "sk_status k") (auto simp: sock_ok_def isValidStatus_def)
qed

text \<open>Sockets without an address, of which the plan gives each enough turns.\<close>

definition covers :: "(nat \<times> (bool \<times> err option) list) list \<Rightarrow> sockets \<Rightarrow> bool" where
  "covers plan s \<longleftrightarrow> distinct (map fst plan) \<and> ran (ss_sockets s) = fst ` set plan
     \<and> (\<forall>(p, cs) \<in> set plan. \<exists>k. ss_heap s p = Some k \<and> sk_address k = []
          \<and> length (items (sk_cwrite k)) < length cs)"

lemma covers_gone:
  assumes inv: "ss_inv e s" and c: "covers ((p, cs) # plan) s" and g: "gone p s t"
  shows "covers plan t"
proof -
  obtain k where k: "ss_heap s p = Some k" "ss_sockets t = (ss_sockets s)(sk_id k := None)"
    using g by (auto simp: gone_def)
  have "p \<in> ran (ss_sockets s)" using c by (simp add: covers_def)
  then obtain i where i: "ss_sockets s i = Some p" by (auto simp: ran_def)
  have tab: "ss_sockets s j = Some q \<longleftrightarrow> (\<exists>k. ss_heap s q = Some k \<and> sk_id k = j \<and> sk_status k \<noteq> SocketStatusReleased)" for j q
    using inv unfolding ss_inv_def table_inv_def by blast
  have only: "ss_sockets s j = Some p \<longleftrightarrow> j = sk_id k" for j using tab [of j p] tab [of i p] i k(1) by auto
  then have "ran (ss_sockets t) = ran (ss_sockets s) - {p}"
    unfolding k(2) by (auto simp: ran_def) (metis option.inject)
  moreover have "p \<notin> fst ` set plan" using c by (auto simp: covers_def)
  ultimately have "ran (ss_sockets t) = fst ` set plan" using c by (auto simp: covers_def)
  moreover have "ss_heap t q = ss_heap s q" if "(q, cs') \<in> set plan" for q cs'
  proof -
    have "q \<noteq> p" using \<open>p \<notin> fst ` set plan\<close> that by force
    then show ?thesis using g by (simp add: gone_def)
  qed
  ultimately show ?thesis using c by (fastforce simp: covers_def)
qed

lemma end_writers_clear:
  assumes "ss_inv e s" "covers plan s"
  shows "\<exists>t. end_writers e plan s = (Ok (), t) \<and> ss_inv e t \<and> ss_sockets t = Map.empty
    \<and> set (ss_closed s) \<subseteq> set (ss_closed t)
    \<and> (\<forall>p \<in> fst ` set plan. \<forall>c. sk_conn (sock p s) = Some c \<longrightarrow> c \<in> set (ss_closed t))"
  using assms
proof (induction plan arbitrary: s)
  case Nil
  then have "ran (ss_sockets s) = {}" by (simp add: covers_def)
  then have "ss_sockets s = Map.empty" by (auto simp: ran_def fun_eq_iff) (metis not_None_eq)
  then show ?case using Nil by auto
next
  case (Cons x plan)
  obtain p cs where x: "x = (p, cs)" by fastforce
  obtain k where k: "ss_heap s p = Some k" "sk_address k = []" "length (items (sk_cwrite k)) < length cs"
    using Cons.prems(2) by (auto simp: covers_def x)
  have "p \<in> ran (ss_sockets s)" using Cons.prems(2) by (auto simp: covers_def x)
  then obtain i where "ss_sockets s i = Some p" by (auto simp: ran_def)
  then have v: "isValidStatus (sk_status k)" by (rule server_is_valid [OF Cons.prems(1) _ k(1,2)])
  obtain t where t: "writeMsg_ending e cs p s = (Ok False, t)" "ss_inv e t" "gone p s t"
    using writeMsg_ending_gone [OF Cons.prems(1) k(1) v k(2,3)] by blast
  have "covers plan t" using covers_gone [OF Cons.prems(1) _ t(3)] Cons.prems(2) x by blast
  from Cons.IH [OF t(2) this] obtain u where u: "end_writers e plan t = (Ok (), u)" "ss_inv e u"
      "ss_sockets u = Map.empty" "set (ss_closed t) \<subseteq> set (ss_closed u)"
      "\<forall>p \<in> fst ` set plan. \<forall>c. sk_conn (sock p t) = Some c \<longrightarrow> c \<in> set (ss_closed u)" by blast
  have "sk_conn (sock q s) = Some c \<longrightarrow> c \<in> set (ss_closed u)" if "q \<in> fst ` set (x # plan)" for q c
  proof (cases "q = p")
    case True
    then show ?thesis using t(3) u(4) k(1) by (auto simp: gone_def)
  next
    case False
    then have "sock q t = sock q s" "q \<in> fst ` set plan" using t(3) that by (auto simp: gone_def sock_def x)
    then show ?thesis using u(5) by metis
  qed
  moreover have "set (ss_closed s) \<subseteq> set (ss_closed u)" using t(3) u(4) by (auto simp: gone_def)
  ultimately show ?case using t(1) u(1-3) x by auto
qed

section \<open>Stopping a server\<close>

text \<open>\<open>Close\<close> on one of several tcp listeners.\<close>

definition tcp_Close_at :: "nat \<Rightarrow> (nat \<Rightarrow> tcp_listener) \<Rightarrow> (unit, nat \<Rightarrow> tcp_listener) run" where
  "tcp_Close_at ln w = (case tcp_Close (w ln) of (x, l) \<Rightarrow> (x, w(ln := l)))"

lemma stop_closes:
  "\<exists>w'. sockets_stop tcp_Close_at lns w = (Ok (), w') \<and> (\<forall>ln. tl_closed (w' ln) \<longleftrightarrow> ln \<in> set lns \<or> tl_closed (w ln))"
proof (induction lns arbitrary: w)
  case (Cons ln lns)
  obtain x l where c: "tcp_Close (w ln) = (x, l)" "tl_closed l" "x \<noteq> Panic" "x \<noteq> Blocked"
    by (cases "tl_closed (w ln)") (auto simp: tcp_Close_def)
  then have eq: "sockets_stop tcp_Close_at (ln # lns) w = sockets_stop tcp_Close_at lns (w(ln := l))"
    by (cases x) (simp_all add: tcp_Close_at_def)
  obtain w' where w': "sockets_stop tcp_Close_at lns (w(ln := l)) = (Ok (), w')"
      "\<forall>n. tl_closed (w' n) \<longleftrightarrow> n \<in> set lns \<or> tl_closed ((w(ln := l)) n)"
    using Cons.IH by blast
  show ?case unfolding eq using w' c(2) by (intro exI [of _ w']) auto
qed simp

lemma closed_loop_ends:
  assumes "tl_closed l"
  shows "accept_go tcp_Accept tcp_Close stop stop' ln l u = Some (Ok (), (l, end_task (TAccept ln) u))"
proof -
  have "accept_loop tcp_Accept stop stop' 0 l u = Some (Ok (), (l, u))"
    using assms by (subst accept_loop.simps) (simp add: tcp_Accept_def accept_turn_def)
  then show ?thesis using assms by (simp add: accept_go_def tcp_Close_def)
qed

text \<open>
  C24. A server of tcp listeners comes down: \<open>stop\<close> closes every listener without an error that matters,
  each accept loop then ends without admitting anyone, whatever it sees of the stop; and once
  every write loop has had more turns than it had messages, whichever of the end and the messages
  the runtime takes and however the writes fail, all sockets are released, the table is empty,
  the counter is zero and every connection is closed.
\<close>

theorem shutdown_clears_server:
  assumes inv: "ss_inv e s" and plan: "covers plan s"
  shows "(\<exists>w'. sockets_stop tcp_Close_at (ss_instance s) w = (Ok (), w')
      \<and> (\<forall>ln \<in> set (ss_instance s). \<forall>stop stop' u. \<exists>l. accept_go tcp_Accept tcp_Close stop stop' ln (w' ln) u
            = Some (Ok (), (l, end_task (TAccept ln) u))))
    \<and> (\<exists>t. end_writers e plan s = (Ok (), t) \<and> ss_sockets t = Map.empty \<and> ss_count t = 0
      \<and> (\<forall>i p c. ss_sockets s i = Some p \<and> sk_conn (sock p s) = Some c \<longrightarrow> c \<in> set (ss_closed t)))"
proof
  obtain w' where w': "sockets_stop tcp_Close_at (ss_instance s) w = (Ok (), w')"
      "\<forall>ln. tl_closed (w' ln) \<longleftrightarrow> ln \<in> set (ss_instance s) \<or> tl_closed (w ln)"
    using stop_closes by blast
  then show "\<exists>w'. sockets_stop tcp_Close_at (ss_instance s) w = (Ok (), w')
      \<and> (\<forall>ln \<in> set (ss_instance s). \<forall>stop stop' u. \<exists>l. accept_go tcp_Accept tcp_Close stop stop' ln (w' ln) u
            = Some (Ok (), (l, end_task (TAccept ln) u)))"
    using closed_loop_ends by (intro exI [of _ w']) blast
  obtain t where t: "end_writers e plan s = (Ok (), t)" "ss_inv e t" "ss_sockets t = Map.empty"
      "\<forall>p \<in> fst ` set plan. \<forall>c. sk_conn (sock p s) = Some c \<longrightarrow> c \<in> set (ss_closed t)"
    using end_writers_clear [OF inv plan] by blast
  have "ss_count t = 0" using t(2,3) by (simp add: ss_inv_def count_inv_def)
  moreover have "p \<in> fst ` set plan" if "ss_sockets s i = Some p" for i p
    using plan that by (auto simp: covers_def ran_def)
  ultimately show "\<exists>t. end_writers e plan s = (Ok (), t) \<and> ss_sockets t = Map.empty \<and> ss_count t = 0
      \<and> (\<forall>i p c. ss_sockets s i = Some p \<and> sk_conn (sock p s) = Some c \<longrightarrow> c \<in> set (ss_closed t))"
    using t(1,3,4) by blast
qed

text \<open>One listener and one socket, whose loop gets a single turn.\<close>

lemma sample_manager_covers: "covers [(0, [(True, None)])] sample_manager"
proof -
  have "ss_sockets sample_manager = [1 \<mapsto> 0]"
    by (simp add: sample_manager_eq created_def sockets_New_def go_start_def sock_Emit_def Let_def)
  then show ?thesis
    using sample_manager_heap(1) by (simp add: covers_def fresh_socket_def make_chan_def ran_def)
qed

theorem shutdown_clears_server_witness:
  "\<exists>t. end_writers sample_env [(0, [(True, None)])] sample_manager = (Ok (), t) \<and> ss_sockets t = Map.empty
    \<and> ss_count t = 0"
  using shutdown_clears_server [OF sample_manager_inv sample_manager_covers] by blast

section \<open>Stopping a client\<close>

text \<open>
  A dialled socket in a process that is stopping: its read loop sees the stop and disconnects,
  and the reconnection that this starts finds a server, again and again; the list holds the
  connections it finds.
\<close>

fun comes_back :: "env \<Rightarrow> registry \<Rightarrow> nat list \<Rightarrow> nat \<Rightarrow> sockets \<Rightarrow> (unit, sockets) run" where
  "comes_back e search [] p s = (Ok (), s)"
| "comes_back e search (c # cs) p s =
     and_then (readMsg_turn e True search None None True (\<lambda>m. (Blocked, m)) p s) (\<lambda>_ s.
     and_then (reconnect_done e p (Some c) s) (\<lambda>_ s. comes_back e search cs p s))"

lemma comes_back_once:
  assumes inv: "ss_inv e s" and k: "ss_heap s p = Some k" "IsReady k" "sk_address k \<noteq> []" "sk_conn k = Some c0"
  obtains t u l where "readMsg_turn e True search None None True rd p s = (Ok False, t)"
    "reconnect_done e p (Some c) t = (Ok (), u)" "ss_inv e u" "ss_heap u p = Some l" "IsReady l"
    "sk_address l = sk_address k" "sk_conn l = Some c" "ss_closed u = ss_closed s @ [c0]"
proof -
  have v: "isValidStatus (sk_status k)" "sock_Type k = SocketTypeClient"
    using k(2,3) by (simp_all add: IsReady_def isValidStatus_def sock_Type_def)
  obtain t c1 where d: "disconnect e p s = (Ok False, t)" "sk_conn k = Some c1" "ss_closed t = ss_closed s @ [c1]"
      "ss_heap t p = Some (sock p t)" "sk_address (sock p t) = sk_address k"
      "ss_tasks t = ss_tasks s @ [TReconnect p]" "ss_inv e t"
    by (rule disconnect_clientE [OF inv k(1) v])
  then obtain l0 where l0: "ss_heap t p = Some l0" "sk_address l0 = sk_address k" by blast
  let ?t = "end_task (TRead p) t"
  have t: "ss_inv e ?t" "ss_heap ?t p = Some l0" "TReconnect p \<in> set (ss_tasks ?t)"
      "ss_closed ?t = ss_closed s @ [c0]"
    using d(2,3,6) l0(1) k(4) ss_inv_end_task [OF d(7), of "TRead p"] by (simp_all add: end_task_def remove1_append)
  have turn: "readMsg_turn e True search None None True rd p s = (Ok False, ?t)"
    by (simp add: readMsg_turn_def d(1))
  obtain u where u: "reconnect_done e p (Some c) ?t = (Ok (), u)" "ss_closed u = ss_closed ?t"
      "ss_heap u p = Some (l0\<lparr>sk_conn := Some c, sk_stop := Some False,
        sk_status := SocketStatusConnected, sk_heartbeat := 0\<rparr>)" "ss_inv e u"
    by (rule reconnectE [OF t(1-3)])
  show ?thesis by (rule that [OF turn u(1,4,3)]) (simp_all add: IsReady_def l0(2) u(2) t(4))
qed

text \<open>
  Stopping does not stop a dialled socket as long as its server can be reached: the search for a
  server tries before it looks at the context, so it succeeds at once even when that has been
  cancelled, and any number of times the socket is disconnected by its own read loop, dials
  again and is connected again, every time over a new connection.
\<close>

theorem stopping_client_comes_back:
  assumes inv: "ss_inv e s" and k: "ss_heap s p = Some k" "IsReady k" "sk_address k \<noteq> []" "sk_conn k = Some c0"
  shows "(\<exists>t l. comes_back e search cs p s = (Ok (), t) \<and> ss_heap t p = Some l \<and> IsReady l
      \<and> sk_conn l = Some (last (c0 # cs)) \<and> ss_closed t = ss_closed s @ butlast (c0 # cs))
    \<and> (dial 0 = Inr c \<longrightarrow> tryConnect o1 dial (\<lambda>_. True) 0 [] = Some (Inr c, []))"
proof
  show "\<exists>t l. comes_back e search cs p s = (Ok (), t) \<and> ss_heap t p = Some l \<and> IsReady l
      \<and> sk_conn l = Some (last (c0 # cs)) \<and> ss_closed t = ss_closed s @ butlast (c0 # cs)"
    using assms
  proof (induction cs arbitrary: s k c0)
    case (Cons c cs)
    obtain t u l where t: "readMsg_turn e True search None None True (\<lambda>m. (Blocked, m)) p s = (Ok False, t)"
        "reconnect_done e p (Some c) t = (Ok (), u)" and u: "ss_inv e u" "ss_heap u p = Some l" "IsReady l"
        "sk_address l = sk_address k" "sk_conn l = Some c" "ss_closed u = ss_closed s @ [c0]"
      by (rule comes_back_once [OF Cons.prems])
    have "sk_address l \<noteq> []" using u(4) Cons.prems(4) by simp
    from Cons.IH [OF u(1-3) this u(5)] show ?case using t u(6) by auto
  qed simp
  show "dial 0 = Inr c \<longrightarrow> tryConnect o1 dial (\<lambda>_. True) 0 [] = Some (Inr c, [])"
    by (subst tryConnect.simps) auto
qed

theorem stopping_client_comes_back_witness:
  "\<exists>t l. comes_back sample_env (\<lambda>_. None) [6, 7] 0 sample_client = (Ok (), t) \<and> ss_heap t 0 = Some l \<and> IsReady l
    \<and> sk_conn l = Some 7 \<and> ss_closed t = ss_closed sample_client @ [5, 6]"
  using stopping_client_comes_back [OF sample_client_inv sample_client_heap(1), of 5 "\<lambda>_. None" "[6, 7]"]
  by (simp add: IsReady_def)

end
