(* ===== verification/Ownership.thy ===== *)
theory Ownership
  imports Manager Sample
begin

text \<open>
  Message objects as pointers. The other theories pass messages by value; the code passes
  pointers to objects that a pool recycles, that are filled in place, and that goroutines hand to
  each other through the queues. Here an object is a number, its contents are in a store, and
  \<open>Require\<close>, \<open>Release\<close>, \<open>SendWithMagic\<close>, \<open>Write\<close>, the two loops and the emptying of a released socket's
  queue are cut into their accesses, for any number of goroutines. As long as the application leaves
  a message alone once it has given it away, each object has one owner at any time.
\<close>

section \<open>State\<close>

text \<open>
  What a goroutine has in hands: nothing; the message its read loop reads and handles; a message
  to be sent on a socket, before and after it is filled, and after \<open>Write\<close> has returned with the
  message still its own; a message taken off a queue to be written, or to be thrown away. A send
  inside a handler has the handled message in hands as well.
\<close>

datatype opc =
    Idle
  | Reading nat nat
  | Filling nat nat "(nat \<times> nat) option"
  | Offering nat nat "(nat \<times> nat) option"
  | Failing nat nat "(nat \<times> nat) option"
  | Writing nat nat
  | Draining nat nat

text \<open>
  What is remembered of a run, with the goroutine that does it: a sender has filled its message,
  has put it into a socket's queue, or has given up on it; a message is taken off a queue, and is
  then passed to the connection or thrown away. The contents are those of the object at that time.
\<close>

datatype act =
    Filled nat message
  | Queued nat nat message
  | GaveUp nat message
  | Taken nat nat message
  | Wrote nat nat message
  | Threw nat nat message

text \<open>
  \<open>ob_gone\<close>: objects that nobody refers to, left to the garbage collector. \<open>ob_log\<close> is history: no
  step depends on it.
\<close>

record objs =
  ob_next :: nat
  ob_val :: "nat \<Rightarrow> message"
  ob_pool :: "nat list"
  ob_queue :: "nat \<Rightarrow> nat list"
  ob_gone :: "nat list"
  ob_pc :: "nat \<Rightarrow> opc"
  ob_log :: "act list"

definition goto :: "nat \<Rightarrow> opc \<Rightarrow> objs \<Rightarrow> objs" where
  "goto g c x = x\<lparr>ob_pc := (ob_pc x)(g := c)\<rparr>"

definition store :: "nat \<Rightarrow> message \<Rightarrow> objs \<Rightarrow> objs" where
  "store i m x = x\<lparr>ob_val := (ob_val x)(i := m)\<rparr>"

definition enqueue :: "nat \<Rightarrow> nat \<Rightarrow> objs \<Rightarrow> objs" where
  "enqueue q i x = x\<lparr>ob_queue := (ob_queue x)(q := ob_queue x q @ [i])\<rparr>"

definition dequeue :: "nat \<Rightarrow> objs \<Rightarrow> objs" where
  "dequeue q x = x\<lparr>ob_queue := (ob_queue x)(q := tl (ob_queue x q))\<rparr>"

definition forget :: "nat \<Rightarrow> objs \<Rightarrow> objs" where
  "forget i x = x\<lparr>ob_gone := i # ob_gone x\<rparr>"

definition remember :: "act list \<Rightarrow> objs \<Rightarrow> objs" where
  "remember as x = x\<lparr>ob_log := ob_log x @ as\<rparr>"

text \<open>
  \<open>Require\<close>: one of the objects in the pool, or a new one. \<open>Release\<close>: the object is reset and put
  into the pool; without a pool, or when the reset panics, it is left alone.
\<close>

inductive requires :: "env \<Rightarrow> objs \<Rightarrow> nat \<Rightarrow> objs \<Rightarrow> bool" for e x where
  reused: "Pool (opts e) \<Longrightarrow> i \<in> set (ob_pool x) \<Longrightarrow> requires e x i (x\<lparr>ob_pool := remove1 i (ob_pool x)\<rparr>)"
| made: "requires e x (ob_next x) (store (ob_next x) new_message (x\<lparr>ob_next := Suc (ob_next x)\<rparr>))"

definition releases :: "env \<Rightarrow> nat \<Rightarrow> objs \<Rightarrow> objs" where
  "releases e i x =
     (if Pool (opts e) then
        (case message_Release e (ob_val x i) of
           (Ok _, m) \<Rightarrow> store i m (x\<lparr>ob_pool := i # ob_pool x\<rparr>)
         | _ \<Rightarrow> forget i x)
      else forget i x)"

section \<open>Steps\<close>

text \<open>Where a send returns to: the handler that called it, or nowhere.\<close>

definition after :: "(nat \<times> nat) option \<Rightarrow> opc" where
  "after c = (case c of None \<Rightarrow> Idle | Some (p, i) \<Rightarrow> Reading p i)"

text \<open>
  The read loop: it takes an object, the connection and the code cache fill it, it goes back after
  the dispatch or after an error, and is lost when the connection panics.
\<close>

inductive read_step :: "env \<Rightarrow> objs \<Rightarrow> objs \<Rightarrow> bool" for e x where
  take_new: "ob_pc x g = Idle \<Longrightarrow> requires e x i y \<Longrightarrow> read_step e x (goto g (Reading p i) y)"
| fill: "ob_pc x g = Reading p i \<Longrightarrow> read_step e x (store i m x)"
| give_back: "ob_pc x g = Reading p i \<Longrightarrow> read_step e x (goto g Idle (releases e i x))"
| panic: "ob_pc x g = Reading p i \<Longrightarrow> read_step e x (goto g Idle (forget i x))"

text \<open>
  \<open>SendWithMagic\<close>: it takes an object and marshals into it; when that or \<open>Write\<close> fails it gives the
  object back, and a panic in \<open>Marshal\<close> loses it. An application may also fill an object itself and
  call \<open>Write\<close>, and when that fails drop it or try again, on any socket.
\<close>

inductive send_step :: "env \<Rightarrow> objs \<Rightarrow> objs \<Rightarrow> bool" for e x where
  take_new: "ob_pc x g = after c \<Longrightarrow> requires e x i y \<Longrightarrow> send_step e x (goto g (Filling q i c) y)"
| marshalled: "ob_pc x g = Filling q i c \<Longrightarrow>
    Marshal e magic flag index path data (ob_val x i) = (Ok (), m) \<Longrightarrow>
    send_step e x (goto g (Offering q i c) (remember [Filled g m] (store i m x)))"
| marshal_fails: "ob_pc x g = Filling q i c \<Longrightarrow>
    Marshal e magic flag index path data (ob_val x i) = (Err er, m) \<Longrightarrow>
    send_step e x (goto g (Failing q i c) (remember [Filled g m] (store i m x)))"
| marshal_panics: "ob_pc x g = Filling q i c \<Longrightarrow>
    Marshal e magic flag index path data (ob_val x i) = (Panic, m) \<Longrightarrow>
    send_step e x (goto g (after c) (forget i (store i m x)))"
| filled: "ob_pc x g = Filling q i c \<Longrightarrow>
    send_step e x (goto g (Offering q i c) (remember [Filled g m] (store i m x)))"
| give_back: "ob_pc x g = Failing q i c \<Longrightarrow>
    send_step e x (goto g (after c) (releases e i (remember [GaveUp g (ob_val x i)] x)))"
| dropped: "ob_pc x g = Failing q i c \<Longrightarrow>
    send_step e x (goto g (after c) (forget i (remember [GaveUp g (ob_val x i)] x)))"
| again: "ob_pc x g = Failing q i c \<Longrightarrow> send_step e x (goto g (Offering q' i c) x)"

text \<open>
  \<open>Write\<close>: the message is queued when there is room, or it is refused. On a queue of length zero the
  sender passes the object to the write loop when that waits for one.
\<close>

inductive offer_step :: "nat \<Rightarrow> objs \<Rightarrow> objs \<Rightarrow> bool" for cap x where
  queued: "ob_pc x g = Offering q i c \<Longrightarrow> length (ob_queue x q) < cap \<Longrightarrow>
    offer_step cap x (goto g (after c) (enqueue q i (remember [Queued g q (ob_val x i)] x)))"
| refused: "ob_pc x g = Offering q i c \<Longrightarrow> offer_step cap x (goto g (Failing q i c) x)"
| passed: "cap = 0 \<Longrightarrow> ob_pc x g = Offering q i c \<Longrightarrow> ob_pc x h = Idle \<Longrightarrow>
    offer_step cap x (goto h (Writing q i) (goto g (after c)
      (remember [Queued g q (ob_val x i), Taken h q (ob_val x i)] x)))"

text \<open>The write loop takes an object off the queue, passes it to the connection and gives it back.\<close>

inductive write_step :: "env \<Rightarrow> objs \<Rightarrow> objs \<Rightarrow> bool" for e x where
  taken: "ob_pc x g = Idle \<Longrightarrow> ob_queue x q = i # is \<Longrightarrow>
    write_step e x (goto g (Writing q i) (dequeue q (remember [Taken g q (ob_val x i)] x)))"
| written: "ob_pc x g = Writing q i \<Longrightarrow>
    write_step e x (goto g Idle (releases e i (remember [Wrote g q (ob_val x i)] x)))"

text \<open>\<open>release\<close> empties the queue.\<close>

inductive drain_step :: "env \<Rightarrow> objs \<Rightarrow> objs \<Rightarrow> bool" for e x where
  taken: "ob_pc x g = Idle \<Longrightarrow> ob_queue x q = i # is \<Longrightarrow>
    drain_step e x (goto g (Draining q i) (dequeue q (remember [Taken g q (ob_val x i)] x)))"
| thrown: "ob_pc x g = Draining q i \<Longrightarrow>
    drain_step e x (goto g Idle (releases e i (remember [Threw g q (ob_val x i)] x)))"

text \<open>
  \<open>Context.Write\<close> of the handler's own message: when there is room the object is queued, and the
  goroutine goes on having it in hands; an error is dropped.
\<close>

definition ctx_Write_object :: "nat \<Rightarrow> nat \<Rightarrow> nat \<Rightarrow> nat \<Rightarrow> objs \<Rightarrow> objs" where
  "ctx_Write_object cap g p i x =
     (if length (ob_queue x p) < cap then enqueue p i (remember [Queued g p (ob_val x i)] x) else x)"

text \<open>
  What an application can do with a message that it has given away: a handler passes the message it
  handles to the context's \<open>Write\<close>, and the read loop goes on with it; a sender goes on with a
  message that \<open>Write\<close> or \<open>Async\<close> has queued, to release it or to queue it again.
\<close>

inductive share_step :: "nat \<Rightarrow> objs \<Rightarrow> objs \<Rightarrow> bool" for cap x where
  forwarded: "ob_pc x g = Reading p i \<Longrightarrow> share_step cap x (ctx_Write_object cap g p i x)"
| kept: "ob_pc x g = Offering q i c \<Longrightarrow> length (ob_queue x q) < cap \<Longrightarrow>
    share_step cap x (goto g (Failing q i c) (enqueue q i (remember [Queued g q (ob_val x i)] x)))"

text \<open>
  All goroutines together. \<open>sharing\<close> says whether the application does the last; the garbage
  collector may take objects out of a \<open>sync.Pool\<close>.
\<close>

inductive own_step :: "env \<Rightarrow> nat \<Rightarrow> bool \<Rightarrow> objs \<Rightarrow> objs \<Rightarrow> bool" for e cap sharing x where
  reads: "read_step e x y \<Longrightarrow> own_step e cap sharing x y"
| sends: "send_step e x y \<Longrightarrow> own_step e cap sharing x y"
| offers: "offer_step cap x y \<Longrightarrow> own_step e cap sharing x y"
| writes: "write_step e x y \<Longrightarrow> own_step e cap sharing x y"
| drains: "drain_step e x y \<Longrightarrow> own_step e cap sharing x y"
| shares: "sharing \<Longrightarrow> share_step cap x y \<Longrightarrow> own_step e cap sharing x y"
| collected: "i \<in> set (ob_pool x) \<Longrightarrow>
    own_step e cap sharing x (forget i (x\<lparr>ob_pool := remove1 i (ob_pool x)\<rparr>))"

inductive_cases own_stepE: "own_step e cap sharing x y"
inductive_cases requiresE: "requires e x i y"

lemmas step_cases = read_step.cases send_step.cases offer_step.cases write_step.cases drain_step.cases

definition start_objs :: objs where
  "start_objs =
     \<lparr>ob_next = 0, ob_val = (\<lambda>_. new_message), ob_pool = [], ob_queue = (\<lambda>_. []), ob_gone = [],
      ob_pc = (\<lambda>_. Idle), ob_log = []\<rparr>"

section \<open>One owner\<close>

datatype place = InPool | InQueue nat | InHands nat | Garbage

definition outer :: "(nat \<times> nat) option \<Rightarrow> nat list" where
  "outer c = (case c of None \<Rightarrow> [] | Some (p, i) \<Rightarrow> [i])"

fun hands :: "opc \<Rightarrow> nat list" where
  "hands Idle = []"
| "hands (Reading p i) = [i]"
| "hands (Filling q i c) = i # outer c"
| "hands (Offering q i c) = i # outer c"
| "hands (Failing q i c) = i # outer c"
| "hands (Writing q i) = [i]"
| "hands (Draining q i) = [i]"

lemma hands_after [simp]: "hands (after c) = outer c"
  by (cases c) (auto simp: after_def outer_def)

definition home :: "objs \<Rightarrow> place \<Rightarrow> nat list" where
  "home x a =
     (case a of InPool \<Rightarrow> ob_pool x | InQueue q \<Rightarrow> ob_queue x q | InHands g \<Rightarrow> hands (ob_pc x g)
      | Garbage \<Rightarrow> ob_gone x)"

text \<open>Object \<open>i\<close> is at \<open>a\<close>, once, and nowhere else.\<close>

definition sole :: "objs \<Rightarrow> nat \<Rightarrow> place \<Rightarrow> bool" where
  "sole x i a \<longleftrightarrow> (\<forall>b. count_list (home x b) i = (if b = a then 1 else 0))"

definition own_inv :: "objs \<Rightarrow> bool" where
  "own_inv x \<longleftrightarrow> (\<forall>i < ob_next x. \<exists>a. sole x i a) \<and> (\<forall>i \<ge> ob_next x. \<forall>b. i \<notin> set (home x b))"

lemma home_simps [simp]:
  "home x InPool = ob_pool x" "home x (InQueue q) = ob_queue x q"
  "home x (InHands g) = hands (ob_pc x g)" "home x Garbage = ob_gone x"
  by (simp_all add: home_def)

lemma sole_unique: "sole x i a \<Longrightarrow> i \<in> set (home x b) \<Longrightarrow> b = a"
  unfolding sole_def by (metis count_list_0_iff)

lemma distinct_count_list: "(\<And>i. i \<in> set is \<Longrightarrow> count_list is i = 1) \<Longrightarrow> distinct is"
proof (induction "is")
  case (Cons k ks)
  have k: "k \<notin> set ks" using Cons.prems [of k] by (simp add: count_list_0_iff)
  then have "count_list ks i = 1" if "i \<in> set ks" for i
    using Cons.prems [of i] that k by (auto split: if_splits)
  with Cons.IH k show ?case by simp
qed simp

lemma own_inv_sole:
  assumes "own_inv x" "i \<in> set (home x a)"
  shows "sole x i a" "i < ob_next x"
proof -
  show n: "i < ob_next x" using assms by (meson not_le own_inv_def)
  then obtain b where "sole x i b" using assms(1) by (auto simp: own_inv_def)
  then show "sole x i a" using assms(2) sole_unique by blast
qed

text \<open>A step that moves one object, or makes one, keeps the invariant.\<close>

definition minus_one :: "nat \<Rightarrow> nat list \<Rightarrow> nat list \<Rightarrow> bool" where
  "minus_one i is js \<longleftrightarrow> (\<forall>k. count_list is k = count_list js k + (if k = i then 1 else 0))"

lemma minus_one_simps [simp]:
  "minus_one i (i # is) is" "minus_one i (is @ [i]) is"
  "i \<in> set is \<Longrightarrow> minus_one i is (remove1 i is)"
proof -
  have "i \<in> set is \<Longrightarrow> count_list is k = count_list (remove1 i is) k + (if k = i then 1 else 0)" for k
    by (induction "is") auto
  then show "i \<in> set is \<Longrightarrow> minus_one i is (remove1 i is)" by (simp add: minus_one_def)
qed (simp_all add: minus_one_def)

lemma own_inv_move:
  assumes inv: "own_inv x" and ab: "a \<noteq> b" and y: "home y = (home x)(a := as, b := bs)" "ob_next y = ob_next x"
    and m: "minus_one i (home x a) as" "minus_one i bs (home x b)"
  shows "own_inv y"
proof -
  have "count_list (home x a) i \<noteq> 0" using m(1) by (simp add: minus_one_def)
  then have i: "i \<in> set (home x a)" by (meson count_notin)
  have "sole x i a" "i < ob_next x" using own_inv_sole [OF inv i] by auto
  moreover from this(1) have "count_list as i = 0"
    using m(1) [unfolded minus_one_def, rule_format, of i] by (simp add: sole_def)
  ultimately have new: "sole y i b" using m(2) ab by (auto simp: sole_def y minus_one_def)
  have other: "count_list (home y c) k = count_list (home x c) k" if "k \<noteq> i" for k c
    using m that by (simp add: y minus_one_def)
  show ?thesis
    unfolding own_inv_def y(2)
  proof (intro conjI allI impI)
    fix k assume "k < ob_next x"
    then show "\<exists>a. sole y k a" using inv new other by (cases "k = i") (auto simp: own_inv_def sole_def)
  next
    fix k c assume k: "ob_next x \<le> k"
    then have "k \<noteq> i" "k \<notin> set (home x c)" using inv own_inv_sole(2) [OF inv i] by (auto simp: own_inv_def)
    then show "k \<notin> set (home y c)" using other by (simp add: count_list_0_iff [symmetric])
  qed
qed

lemma own_inv_make:
  assumes inv: "own_inv x" and y: "home y = (home x)(b := ob_next x # home x b)" "ob_next y = Suc (ob_next x)"
  shows "own_inv y"
proof -
  have new: "\<forall>b. count_list (home x b) (ob_next x) = 0" using inv by (simp add: own_inv_def)
  show ?thesis
    unfolding own_inv_def y(2)
  proof (intro conjI allI impI)
    fix k assume "k < Suc (ob_next x)"
    then consider "k = ob_next x" | "k < ob_next x" by linarith
    then show "\<exists>a. sole y k a"
    proof cases
      case 1
      then have "sole y k b" using new by (auto simp: sole_def y)
      then show ?thesis ..
    next
      case 2
      then obtain a where "sole x k a" using inv by (auto simp: own_inv_def)
      then have "sole y k a" using 2 by (simp add: sole_def y)
      then show ?thesis ..
    qed
  next
    fix k c assume "Suc (ob_next x) \<le> k"
    then show "k \<notin> set (home y c)" using inv by (auto simp: own_inv_def y)
  qed
qed

lemma home_moves [simp]:
  "home (store i m x) = home x" "home (goto g c x) = (home x)(InHands g := hands c)"
  "home (forget i x) = (home x)(Garbage := i # home x Garbage)"
  "home (enqueue q i x) = (home x)(InQueue q := home x (InQueue q) @ [i])"
  "home (dequeue q x) = (home x)(InQueue q := tl (home x (InQueue q)))"
  "home (x\<lparr>ob_pool := js\<rparr>) = (home x)(InPool := js)" "home (x\<lparr>ob_next := n\<rparr>) = home x"
  "home (remember as x) = home x"
  by (auto simp: home_def remember_def store_def goto_def forget_def enqueue_def dequeue_def fun_eq_iff split: place.splits)

lemma next_moves [simp]:
  "ob_next (store i m x) = ob_next x" "ob_next (goto g c x) = ob_next x" "ob_next (forget i x) = ob_next x"
  "ob_next (enqueue q i x) = ob_next x" "ob_next (dequeue q x) = ob_next x" "ob_next (remember as x) = ob_next x"
  by (simp_all add: remember_def store_def goto_def forget_def enqueue_def dequeue_def)

lemma moves [simp]:
  "ob_val (goto g c x) = ob_val x" "ob_val (forget i x) = ob_val x" "ob_val (enqueue q i x) = ob_val x"
  "ob_val (dequeue q x) = ob_val x" "ob_val (store i m x) = (ob_val x)(i := m)" "ob_val (remember as x) = ob_val x"
  "ob_pc (goto g c x) = (ob_pc x)(g := c)" "ob_pc (forget i x) = ob_pc x" "ob_pc (enqueue q i x) = ob_pc x"
  "ob_pc (dequeue q x) = ob_pc x" "ob_pc (store i m x) = ob_pc x" "ob_pc (remember as x) = ob_pc x"
  "ob_pool (goto g c x) = ob_pool x" "ob_pool (forget i x) = ob_pool x" "ob_pool (enqueue q i x) = ob_pool x"
  "ob_pool (dequeue q x) = ob_pool x" "ob_pool (store i m x) = ob_pool x" "ob_pool (remember as x) = ob_pool x"
  "ob_queue (goto g c x) = ob_queue x" "ob_queue (forget i x) = ob_queue x"
  "ob_queue (enqueue q i x) = (ob_queue x)(q := ob_queue x q @ [i])"
  "ob_queue (dequeue q x) = (ob_queue x)(q := tl (ob_queue x q))" "ob_queue (store i m x) = ob_queue x"
  "ob_queue (remember as x) = ob_queue x"
  "ob_log (goto g c x) = ob_log x" "ob_log (forget i x) = ob_log x" "ob_log (enqueue q i x) = ob_log x"
  "ob_log (dequeue q x) = ob_log x" "ob_log (store i m x) = ob_log x" "ob_log (remember as x) = ob_log x @ as"
  by (simp_all add: goto_def forget_def enqueue_def dequeue_def store_def remember_def)

lemma releases_moves [simp]:
  "ob_pc (releases e i x) = ob_pc x" "ob_queue (releases e i x) = ob_queue x" "ob_log (releases e i x) = ob_log x"
  by (simp_all add: releases_def store_def forget_def split: outcome.split prod.split)

lemma releases_cases:
  obtains a where "a = InPool \<or> a = Garbage" "home (releases e i x) = (home x)(a := i # home x a)"
    "ob_next (releases e i x) = ob_next x"
proof (cases "Pool (opts e) \<and> (\<exists>m. message_Release e (ob_val x i) = (Ok (), m))")
  case True
  then show ?thesis using that [of InPool] by (auto simp: releases_def)
next
  case False
  then have "releases e i x = forget i x" by (auto simp: releases_def split: outcome.split prod.split)
  then show ?thesis using that [of Garbage] by simp
qed

lemma own_inv_requires:
  assumes inv: "own_inv x" and r: "requires e x i y" and h: "hands c = i # hands (ob_pc x g)"
  shows "own_inv (goto g c y)"
  using r
proof (cases rule: requires.cases)
  case reused
  show ?thesis
    by (rule own_inv_move [OF inv, of InPool "InHands g" _ _ _ i]) (use reused h in auto)
next
  case made
  show ?thesis
    by (rule own_inv_make [OF inv, of _ "InHands g"]) (use made h in auto)
qed

lemma own_inv_hand_over:
  assumes inv: "own_inv x" and h: "hands (ob_pc x g) = i # hands c"
  shows "own_inv (goto g c (releases e i x))" "own_inv (goto g c (forget i x))"
    "own_inv (goto g c (enqueue q i x))"
proof -
  obtain a where a: "a = InPool \<or> a = Garbage" "home (releases e i x) = (home x)(a := i # home x a)"
    "ob_next (releases e i x) = ob_next x" by (rule releases_cases)
  show "own_inv (goto g c (releases e i x))"
    by (rule own_inv_move [OF inv, of "InHands g" a _ "hands c" "i # home x a" i]) (use a h in \<open>auto simp: fun_upd_twist\<close>)
  show "own_inv (goto g c (forget i x))"
    by (rule own_inv_move [OF inv, of "InHands g" Garbage _ _ _ i]) (use h in \<open>auto simp: fun_upd_twist\<close>)
  show "own_inv (goto g c (enqueue q i x))"
    by (rule own_inv_move [OF inv, of "InHands g" "InQueue q" _ _ _ i]) (use h in \<open>auto simp: fun_upd_twist\<close>)
qed

lemma own_inv_goto:
  assumes "own_inv x" "hands c = hands (ob_pc x g)" "home y = home x" "ob_next y = ob_next x"
  shows "own_inv (goto g c y)"
proof -
  have "home (goto g c y) = home x" by (simp add: assms fun_upd_idem)
  then show ?thesis using assms(1,4) by (simp add: own_inv_def sole_def)
qed

lemma own_inv_take:
  assumes inv: "own_inv x" and h: "ob_pc x g = Idle" "ob_queue x q = i # is" and c: "hands c = [i]"
  shows "own_inv (goto g c (dequeue q x))"
  by (rule own_inv_move [OF inv, of "InQueue q" "InHands g" _ "is" "[i]" i]) (use h c in auto)

text \<open>The invariant is kept, by the steps of each part and then by all of them.\<close>

lemma own_inv_simps [simp]: "own_inv (remember as x) = own_inv x" "own_inv (store i m x) = own_inv x"
  by (simp_all add: own_inv_def sole_def)

lemma read_step_keeps: "read_step e x y \<Longrightarrow> own_inv x \<Longrightarrow> own_inv y"
  by (erule read_step.cases) (auto intro: own_inv_requires own_inv_hand_over)

lemma send_step_keeps:
  assumes st: "send_step e x y" and inv: "own_inv x"
  shows "own_inv y"
  using st
proof (cases rule: send_step.cases)
  case (marshal_panics g q i c magic flag index path data m)
  have "own_inv (goto g (after c) (forget i x))"
    by (rule own_inv_hand_over(2) [OF inv]) (use marshal_panics in auto)
  then show ?thesis using marshal_panics by (simp add: own_inv_def sole_def)
qed (use inv in \<open>auto intro: own_inv_requires own_inv_hand_over own_inv_goto\<close>)

lemma offer_step_keeps:
  assumes st: "offer_step cap x y" and inv: "own_inv x"
  shows "own_inv y"
  using st
proof (cases rule: offer_step.cases)
  case (passed g q i c h)
  then have "g \<noteq> h" by auto
  then show ?thesis
    unfolding passed(1)
    by (intro own_inv_move [OF inv, of "InHands g" "InHands h" _ "outer c" "[i]" i])
      (use passed in \<open>auto simp: fun_upd_twist\<close>)
qed (use inv in \<open>auto intro: own_inv_hand_over own_inv_goto\<close>)

lemma take_step_keeps: "write_step e x y \<or> drain_step e x y \<Longrightarrow> own_inv x \<Longrightarrow> own_inv y"
  by (auto elim!: write_step.cases drain_step.cases intro!: own_inv_take own_inv_hand_over)

lemma own_step_keeps:
  assumes st: "own_step e cap False x y" and inv: "own_inv x"
  shows "own_inv y"
  using st
proof (cases rule: own_step.cases)
  case (collected i)
  show ?thesis
    unfolding collected(1)
    by (rule own_inv_move [OF inv, of InPool Garbage _ _ _ i]) (use collected(2) in \<open>auto simp: fun_upd_twist\<close>)
qed (use inv in \<open>blast intro: read_step_keeps send_step_keeps offer_step_keeps take_step_keeps\<close>)+

interpretation own: step_invariant "own_step e cap False" own_inv for e cap
  by unfold_locales (rule own_step_keeps)

lemma own_inv_start: "own_inv start_objs"
  by (auto simp: own_inv_def start_objs_def home_def split: place.split)

section \<open>Contents\<close>

text \<open>Only an object in somebody's hands changes, and what is in the pool is clean.\<close>

lemma val_releases: "k \<noteq> i \<Longrightarrow> ob_val (releases e i x) k = ob_val x k"
  by (auto simp: releases_def store_def forget_def split: outcome.split prod.split)

lemma val_requires: "requires e x i y \<Longrightarrow> k < ob_next x \<Longrightarrow> ob_val y k = ob_val x k"
  by (erule requiresE) (auto simp: store_def)

lemma untouched:
  assumes st: "own_step e cap False x y" and inv: "own_inv x" and i: "i \<in> set (home x a)" and a: "\<forall>g. a \<noteq> InHands g"
  shows "ob_val y i = ob_val x i"
proof -
  have n: "i < ob_next x" by (rule own_inv_sole(2) [OF inv i])
  have h: "i \<notin> set (hands (ob_pc x g))" for g
    using sole_unique [OF own_inv_sole(1) [OF inv i], of "InHands g"] a by auto
  have k: "i \<noteq> k" if "ob_pc x g = c" "hands c = k # ks" for g c k ks
    using h [of g] that by auto
  from st show ?thesis
    by cases (auto elim!: step_cases simp: val_requires [OF _ n] val_releases k)
qed

definition clean_objs :: "env \<Rightarrow> objs \<Rightarrow> bool" where
  "clean_objs e x \<longleftrightarrow> own_inv x \<and> (\<forall>i \<in> set (ob_pool x). clean e (ob_val x i))"

lemma pool_releases:
  "i \<in> set (ob_pool (releases e k x)) \<Longrightarrow> i \<in> set (ob_pool x) \<or> i = k \<and> clean e (ob_val (releases e k x) k)"
  by (auto simp: releases_def store_def forget_def dest: message_Release_clean split: outcome.splits prod.splits if_splits)

lemma pool_requires: "requires e x i y \<Longrightarrow> set (ob_pool y) \<subseteq> set (ob_pool x)"
  by (erule requiresE) (auto simp: store_def dest: notin_set_remove1 set_remove1_subset [THEN subsetD])

lemma pool_grows:
  assumes "own_step e cap False x y" "i \<in> set (ob_pool y)"
  shows "i \<in> set (ob_pool x) \<or> clean e (ob_val y i)"
  using assms
  by cases (auto elim!: step_cases dest!: pool_requires pool_releases dest: set_remove1_subset [THEN subsetD])

lemma clean_objs_step: "own_step e cap False x y \<Longrightarrow> clean_objs e x \<Longrightarrow> clean_objs e y"
  using own_step_keeps pool_grows untouched [of e cap x y _ InPool]
  unfolding clean_objs_def by (metis home_simps(1) place.distinct(3))

interpretation clean_run: step_invariant "own_step e cap False" "clean_objs e" for e cap
  by unfold_locales (rule clean_objs_step)

lemma clean_objs_start: "clean_objs e start_objs"
  using own_inv_start by (simp add: clean_objs_def start_objs_def)

lemma own_inv_places:
  assumes inv: "own_inv x"
  shows "\<forall>i < ob_next x. \<exists>!a. i \<in> set (home x a)" "\<forall>a. distinct (home x a)"
proof -
  show "\<forall>i < ob_next x. \<exists>!a. i \<in> set (home x a)"
  proof (intro allI impI)
    fix i assume "i < ob_next x"
    then obtain a where a: "sole x i a" using inv unfolding own_inv_def by blast
    then have "i \<in> set (home x a)" by (metis count_notin sole_def zero_neq_one)
    then show "\<exists>!a. i \<in> set (home x a)" using sole_unique [OF a] by blast
  qed
  have "distinct (home x a)" for a
    by (rule distinct_count_list) (use own_inv_sole(1) [OF inv] in \<open>simp add: sole_def\<close>)
  then show "\<forall>a. distinct (home x a)" ..
qed

text \<open>
  C4. Message objects are never shared, as long as the application leaves a message alone once it has
  given it to \<open>Write\<close> or \<open>Async\<close>, and no handler passes the message it handles to \<open>Context.Write\<close> (the
  steps of \<open>share_step\<close>, which break this: C40). Whatever read loops, write loops, senders,
  handlers and disconnections run at the same time, and however they interleave: every object that
  was ever made is in exactly one place, the pool, one queue, one goroutine's hands or the garbage,
  and there once. So what a goroutine fills or writes no other goroutine holds and no pool hands
  out; an object in a queue keeps its contents until it is taken out; and what is in the pool is
  reset.
\<close>

theorem objects_have_one_owner:
  assumes run: "(own_step e cap False)\<^sup>*\<^sup>* start_objs x"
  shows "(\<forall>i < ob_next x. \<exists>!a. i \<in> set (home x a))
    \<and> (\<forall>a. distinct (home x a))
    \<and> (\<forall>g i. i \<in> set (hands (ob_pc x g)) \<longrightarrow>
          i \<notin> set (ob_pool x) \<and> (\<forall>q. i \<notin> set (ob_queue x q)) \<and> (\<forall>h. h \<noteq> g \<longrightarrow> i \<notin> set (hands (ob_pc x h))))
    \<and> (\<forall>y q i. own_step e cap False x y \<and> i \<in> set (ob_queue x q) \<longrightarrow> ob_val y i = ob_val x i)
    \<and> (\<forall>i \<in> set (ob_pool x). clean e (ob_val x i))"
proof -
  have inv: "own_inv x" and clean: "\<forall>i \<in> set (ob_pool x). clean e (ob_val x i)"
    using clean_run.run_keeps [OF run clean_objs_start] by (simp_all add: clean_objs_def)
  have one: "b = a" if "i \<in> set (home x a)" "i \<in> set (home x b)" for i a b
    using own_inv_sole(1) [OF inv that(1)] that(2) by (rule sole_unique)
  note own_inv_places [OF inv]
  moreover have "i \<notin> set (ob_pool x) \<and> (\<forall>q. i \<notin> set (ob_queue x q)) \<and> (\<forall>h. h \<noteq> g \<longrightarrow> i \<notin> set (hands (ob_pc x h)))"
    if "i \<in> set (hands (ob_pc x g))" for g i
  proof -
    have "b = InHands g" if "i \<in> set (home x b)" for b
      using one [of i "InHands g" b] that \<open>i \<in> set (hands (ob_pc x g))\<close> by simp
    from this [of InPool] this [of "InQueue _"] this [of "InHands _"] show ?thesis by auto
  qed
  moreover have "ob_val y i = ob_val x i" if "own_step e cap False x y" "i \<in> set (ob_queue x q)" for y q i
    using untouched [OF that(1) inv, of i "InQueue q"] that(2) by simp
  ultimately show ?thesis using clean by blast
qed

lemma own_into: "own_step e cap sh x y \<Longrightarrow> (own_step e cap sh)\<^sup>*\<^sup>* s x \<Longrightarrow> (own_step e cap sh)\<^sup>*\<^sup>* s y"
  by (rule rtranclp.rtrancl_into_rtrancl)

theorem objects_have_one_owner_witness:
  "\<exists>x. (own_step sample_env 1 False)\<^sup>*\<^sup>* start_objs x \<and> ob_queue x 7 = [1] \<and> hands (ob_pc x 0) = [0]
    \<and> 1 \<notin> set (ob_pool x) \<and> (\<forall>h. h \<noteq> 0 \<longrightarrow> 0 \<notin> set (hands (ob_pc x h)))"
proof -
  let ?new = "\<lambda>x. store (ob_next x) new_message (x\<lparr>ob_next := Suc (ob_next x)\<rparr>)"
  let ?a = "goto 0 (Reading 7 (ob_next start_objs)) (?new start_objs)"
  let ?b = "goto 0 (Filling 7 (ob_next ?a) (Some (7, 0))) (?new ?a)"
  let ?c = "goto 0 (Offering 7 (ob_next ?a) (Some (7, 0)))
    (remember [Filled 0 new_message] (store (ob_next ?a) new_message ?b))"
  let ?d = "goto 0 (after (Some (7, 0))) (enqueue 7 (ob_next ?a)
    (remember [Queued 0 7 (ob_val ?c (ob_next ?a))] ?c))"
  have s1: "own_step sample_env 1 False start_objs ?a"
    by (rule reads, rule read_step.take_new [OF _ made]) (simp add: start_objs_def)
  have s2: "own_step sample_env 1 False ?a ?b"
    by (rule sends, rule send_step.take_new [OF _ made]) (simp add: after_def start_objs_def)
  have s3: "own_step sample_env 1 False ?b ?c" by (rule sends, rule filled) simp
  have s4: "own_step sample_env 1 False ?c ?d"
    by (rule offers, rule queued) (simp_all add: start_objs_def)
  have run: "(own_step sample_env 1 False)\<^sup>*\<^sup>* start_objs ?d"
    by (rule own_into [OF s4 own_into [OF s3 own_into [OF s2 own_into [OF s1 rtranclp.rtrancl_refl]]]])
  have "ob_queue ?d 7 = [1]" "ob_pc ?d 0 = Reading 7 0"
    by (simp_all add: start_objs_def after_def)
  moreover have "1 \<notin> set (ob_pool ?d)" by (simp add: start_objs_def)
  moreover have "\<forall>h. h \<noteq> 0 \<longrightarrow> 0 \<notin> set (hands (ob_pc ?d h))"
    using objects_have_one_owner [OF run] calculation(2) by (metis hands.simps(2) list.set_intros(1))
  ultimately show ?thesis using run by (metis hands.simps(2))
qed

section \<open>Messages that are kept\<close>

text \<open>
  C40. A handler that answers by passing its own message to the context's \<open>Write\<close> breaks this: the
  object is queued and, when the handler returns, released as well. What waits in the queue is then an
  empty message, the pool hands it out again, and the write loop sends it while a read loop fills it.
\<close>

theorem own_message_is_shared:
  assumes run: "(own_step e cap False)\<^sup>*\<^sup>* start_objs x" and g: "ob_pc x g = Reading p i"
    and p: "ob_queue x p = []" "0 < cap" and e: "Pool (opts e)" "0 \<le> Capacity (opts e)"
    and h: "h \<noteq> g" "ob_pc x h = Idle"
  shows "own_step e cap True x (ctx_Write_object cap g p i x)
    \<and> (\<exists>y z. own_step e cap False (ctx_Write_object cap g p i x) y
    \<and> ob_queue y p = [i] \<and> i \<in> set (ob_pool y) \<and> clean e (ob_val y i)
    \<and> (own_step e cap False)\<^sup>*\<^sup>* y z \<and> ob_pc z g = Reading p i \<and> ob_pc z h = Writing p i)"
proof -
  let ?w = "ctx_Write_object cap g p i x"
  let ?y = "goto g Idle (releases e i ?w)"
  have s0: "own_step e cap True x ?w" by (intro shares forwarded g TrueI)
  have w: "?w = enqueue p i (remember [Queued g p (ob_val x i)] x)" using p by (simp add: ctx_Write_object_def)
  obtain m where m: "message_Release e (ob_val x i) = (Ok (), m)" using message_Release_ok [OF e(2)] by blast
  have s1: "own_step e cap False ?w ?y" unfolding w by (rule reads, rule read_step.give_back) (simp add: g)
  have r: "releases e i ?w = store i m (?w\<lparr>ob_pool := i # ob_pool ?w\<rparr>)"
    using e(1) m by (simp add: w releases_def)
  have y: "ob_queue ?y p = [i]" "i \<in> set (ob_pool ?y)" "clean e (ob_val ?y i)" "ob_pc ?y g = Idle" "ob_pc ?y h = Idle"
    using p(1) message_Release_clean [OF m] h unfolding r by (simp_all add: w)
  let ?u = "goto g (Reading p i) (?y\<lparr>ob_pool := remove1 i (ob_pool ?y)\<rparr>)"
  have s2: "own_step e cap False ?y ?u" by (rule reads, rule read_step.take_new [OF y(4) reused [OF e(1) y(2)]])
  have u: "ob_queue ?u p = [i]" "ob_pc ?u h = Idle" using y h(1) by simp_all
  let ?z = "goto h (Writing p i) (dequeue p (remember [Taken h p (ob_val ?u i)] ?u))"
  have s3: "own_step e cap False ?u ?z" by (rule writes, rule write_step.taken [OF u(2,1)])
  have "ob_pc ?z g = Reading p i" "ob_pc ?z h = Writing p i" using h(1) by simp_all
  moreover have "(own_step e cap False)\<^sup>*\<^sup>* ?y ?z" by (rule own_into [OF s3 own_into [OF s2 rtranclp.rtrancl_refl]])
  ultimately show ?thesis using s0 s1 y(1-3) by blast
qed

theorem own_message_is_shared_witness:
  "\<exists>x y z. (own_step sample_env 1 False)\<^sup>*\<^sup>* start_objs x
    \<and> own_step sample_env 1 False (ctx_Write_object 1 0 7 0 x) y \<and> ob_queue y 7 = [0] \<and> 0 \<in> set (ob_pool y)
    \<and> (own_step sample_env 1 False)\<^sup>*\<^sup>* y z \<and> ob_pc z 0 = Reading 7 0 \<and> ob_pc z 1 = Writing 7 0"
proof -
  let ?x = "goto 0 (Reading 7 (ob_next start_objs))
    (store (ob_next start_objs) new_message (start_objs\<lparr>ob_next := Suc (ob_next start_objs)\<rparr>))"
  have n: "ob_next start_objs = 0" by (simp add: start_objs_def)
  have "own_step sample_env 1 False start_objs ?x"
    by (rule reads, rule read_step.take_new [OF _ made]) (simp add: start_objs_def)
  then have run: "(own_step sample_env 1 False)\<^sup>*\<^sup>* start_objs ?x" ..
  have "ob_pc ?x 0 = Reading 7 0" "ob_queue ?x 7 = []" "ob_pc ?x 1 = Idle"
    by (simp_all add: start_objs_def)
  from own_message_is_shared [OF run this(1,2) _ _ _ _ this(3)] run show ?thesis by simp blast
qed

text \<open>
  The same for a sender that follows the README's example and releases a message that \<open>Async\<close> has
  queued: the object is in the queue and in the pool.
\<close>

theorem released_after_queueing_is_shared:
  assumes g: "ob_pc x g = Offering q i c" and room: "length (ob_queue x q) < cap"
    and e: "Pool (opts e)" "0 \<le> Capacity (opts e)"
  shows "\<exists>y z. own_step e cap True x y \<and> own_step e cap False y z
    \<and> i \<in> set (ob_queue z q) \<and> i \<in> set (ob_pool z) \<and> clean e (ob_val z i)"
proof -
  let ?y = "goto g (Failing q i c) (enqueue q i (remember [Queued g q (ob_val x i)] x))"
  let ?y' = "remember [GaveUp g (ob_val ?y i)] ?y"
  let ?z = "goto g (after c) (releases e i ?y')"
  obtain m where m: "message_Release e (ob_val x i) = (Ok (), m)" using message_Release_ok [OF e(2)] by blast
  have s1: "own_step e cap True x ?y" by (intro shares kept g room TrueI)
  have s2: "own_step e cap False ?y ?z" by (rule sends, rule send_step.give_back) simp
  have r: "releases e i ?y' = store i m (?y'\<lparr>ob_pool := i # ob_pool ?y'\<rparr>)"
    using e(1) m by (simp add: releases_def)
  have "i \<in> set (ob_queue ?z q)" "i \<in> set (ob_pool ?z)" "clean e (ob_val ?z i)"
    using message_Release_clean [OF m] unfolding r by simp_all
  then show ?thesis using s1 s2 by blast
qed

theorem released_after_queueing_is_shared_witness:
  "\<exists>y z. own_step sample_env 1 True (goto 0 (Offering 7 0 None) start_objs) y \<and> own_step sample_env 1 False y z
    \<and> 0 \<in> set (ob_queue z 7) \<and> 0 \<in> set (ob_pool z)"
  using released_after_queueing_is_shared [of "goto 0 (Offering 7 0 None) start_objs" 0 7 0 None 1 sample_env]
  by (simp add: start_objs_def) blast

end
