(* ===== verification/Delivery.thy ===== *)
theory Delivery
  imports Ownership "HOL-Library.Multiset"
begin

text \<open>
  What the write loops pass to the connections is what the senders have filled, unchanged and in
  order, although only references to recycled objects travel: from the history of any run of the
  goroutines of \<open>Ownership\<close>. This is what makes it right to pass messages by value elsewhere.
\<close>

section \<open>Reading the history\<close>

text \<open>What has been put into a queue, taken off it and passed to the connection, in order.\<close>

definition queued_at :: "nat \<Rightarrow> act list \<Rightarrow> message list" where
  "queued_at q l = concat (map (\<lambda>a. case a of Queued g p v \<Rightarrow> if p = q then [v] else [] | _ \<Rightarrow> []) l)"

definition taken_at :: "nat \<Rightarrow> act list \<Rightarrow> message list" where
  "taken_at q l = concat (map (\<lambda>a. case a of Taken g p v \<Rightarrow> if p = q then [v] else [] | _ \<Rightarrow> []) l)"

definition written_at :: "nat \<Rightarrow> act list \<Rightarrow> message list" where
  "written_at q l = concat (map (\<lambda>a. case a of Wrote g p v \<Rightarrow> if p = q then [v] else [] | _ \<Rightarrow> []) l)"

text \<open>
  The messages a goroutine has filled, and those it has queued or given up on; the messages it has
  taken off queues, and those it has passed to a connection or thrown away.
\<close>

definition filled_by :: "nat \<Rightarrow> act list \<Rightarrow> message list" where
  "filled_by g l = concat (map (\<lambda>a. case a of Filled h v \<Rightarrow> if h = g then [v] else [] | _ \<Rightarrow> []) l)"

definition settled_by :: "nat \<Rightarrow> act list \<Rightarrow> message list" where
  "settled_by g l = concat (map (\<lambda>a. case a of Queued h q v \<Rightarrow> if h = g then [v] else []
     | GaveUp h v \<Rightarrow> if h = g then [v] else [] | _ \<Rightarrow> []) l)"

definition taken_by :: "nat \<Rightarrow> act list \<Rightarrow> (nat \<times> message) list" where
  "taken_by g l = concat (map (\<lambda>a. case a of Taken h q v \<Rightarrow> if h = g then [(q, v)] else [] | _ \<Rightarrow> []) l)"

definition finished_by :: "nat \<Rightarrow> act list \<Rightarrow> (nat \<times> message) list" where
  "finished_by g l = concat (map (\<lambda>a. case a of Wrote h q v \<Rightarrow> if h = g then [(q, v)] else []
     | Threw h q v \<Rightarrow> if h = g then [(q, v)] else [] | _ \<Rightarrow> []) l)"

lemmas history_defs =
  queued_at_def taken_at_def written_at_def filled_by_def settled_by_def taken_by_def finished_by_def

text \<open>What a goroutine has filled and not settled, or taken and not finished, is in its hands.\<close>

fun offered :: "(nat \<Rightarrow> message) \<Rightarrow> opc \<Rightarrow> message list" where
  "offered f (Offering q i c) = [f i]"
| "offered f (Failing q i c) = [f i]"
| "offered f _ = []"

fun carried :: "(nat \<Rightarrow> message) \<Rightarrow> opc \<Rightarrow> (nat \<times> message) list" where
  "carried f (Writing q i) = [(q, f i)]"
| "carried f (Draining q i) = [(q, f i)]"
| "carried f _ = []"

lemma after_nothing [simp]: "offered f (after c) = []" "carried f (after c) = []"
  by (simp_all add: after_def split: option.split)

lemma held_cong:
  assumes "\<And>k. k \<in> set (hands c) \<Longrightarrow> f k = f' k"
  shows "offered f c = offered f' c" "carried f c = carried f' c"
  using assms by (cases c; simp)+

section \<open>The history is true\<close>

definition true_log :: "nat \<Rightarrow> objs \<Rightarrow> bool" where
  "true_log cap x \<longleftrightarrow> own_inv x
     \<and> (\<forall>q. length (ob_queue x q) \<le> cap
          \<and> queued_at q (ob_log x) = taken_at q (ob_log x) @ map (ob_val x) (ob_queue x q))
     \<and> (\<forall>g. filled_by g (ob_log x) = settled_by g (ob_log x) @ offered (ob_val x) (ob_pc x g)
          \<and> taken_by g (ob_log x) = finished_by g (ob_log x) @ carried (ob_val x) (ob_pc x g))"

text \<open>The queues: the contents of queued objects do not change.\<close>

lemma requires_moves:
  assumes "requires e x i y"
  shows "ob_queue y = ob_queue x" "ob_pc y = ob_pc x" "ob_log y = ob_log x"
  using assms by (auto elim!: requiresE simp: store_def)

lemma queue_bound_step:
  "own_step e cap False x y \<Longrightarrow> length (ob_queue x q) \<le> cap \<Longrightarrow> length (ob_queue y q) \<le> cap"
  by (erule own_stepE) (auto elim!: step_cases simp: requires_moves)

lemma queue_log_step:
  assumes st: "own_step e cap False x y" and inv: "own_inv x" and len: "length (ob_queue x q) \<le> cap"
    and eq: "queued_at q (ob_log x) = taken_at q (ob_log x) @ map (ob_val x) (ob_queue x q)"
  shows "queued_at q (ob_log y) = taken_at q (ob_log y) @ map (ob_val y) (ob_queue y q)"
proof -
  have "map (ob_val y) (ob_queue x q) = map (ob_val x) (ob_queue x q)"
    using untouched [OF st inv, of _ "InQueue q"] by simp
  with st eq len show ?thesis
    by cases (auto elim!: step_cases simp: history_defs requires_moves)
qed

text \<open>The goroutines: an object in hands is changed by whoever has it in hands only.\<close>

lemma after_neq [simp]:
  "after c \<noteq> Filling q i d" "after c \<noteq> Offering q i d" "after c \<noteq> Failing q i d" "after c \<noteq> Writing q i"
  "after c \<noteq> Draining q i" "Filling q i d \<noteq> after c" "Offering q i d \<noteq> after c" "Failing q i d \<noteq> after c"
  by (auto simp: after_def split: option.split)

lemma val_thrown: "(i = k \<Longrightarrow> False) \<Longrightarrow> ob_val (releases e i (remember as x)) k = ob_val x k"
  using val_releases [of k i e "remember as x"] by auto

lemma held_untouched:
  assumes st: "own_step e cap False x y" and inv: "own_inv x"
    and k: "k \<in> set (hands (ob_pc x g))" and pc: "ob_pc y g = ob_pc x g" "\<And>p i. ob_pc x g \<noteq> Reading p i"
  shows "ob_val y k = ob_val x k"
proof -
  have n: "k < ob_next x" using own_inv_sole(2) [OF inv, of k "InHands g"] k by simp
  have one: "h = g" if "ob_pc x h = c" "k \<in> set (hands c)" for h c
    using sole_unique [OF own_inv_sole(1) [OF inv], of k "InHands g" "InHands h"] k that by auto
  have not_g: "ob_pc x h = Reading p i \<Longrightarrow> h \<noteq> g" for h p i using pc(2) by auto
  have other: "\<And>h p i. ob_pc x h = Reading p i \<Longrightarrow> i \<noteq> k"
      "\<And>h q i c. ob_pc x h = Filling q i c \<Longrightarrow> g \<noteq> h \<Longrightarrow> i \<noteq> k"
      "\<And>h q i c. ob_pc x h = Failing q i c \<Longrightarrow> g \<noteq> h \<Longrightarrow> i \<noteq> k"
      "\<And>h q i. ob_pc x h = Writing q i \<Longrightarrow> g \<noteq> h \<Longrightarrow> i \<noteq> k"
      "\<And>h q i. ob_pc x h = Draining q i \<Longrightarrow> g \<noteq> h \<Longrightarrow> i \<noteq> k"
    using one not_g by fastforce+
  from st show ?thesis
    by cases (use pc(1) in \<open>auto elim!: step_cases dest: other intro!: val_thrown simp: val_requires [OF _ n] val_releases split: if_splits\<close>)
qed

lemma hands_log_step:
  assumes st: "own_step e cap False x y" and inv: "own_inv x"
    and eq: "filled_by g (ob_log x) = settled_by g (ob_log x) @ offered (ob_val x) (ob_pc x g)"
      "taken_by g (ob_log x) = finished_by g (ob_log x) @ carried (ob_val x) (ob_pc x g)"
  shows "filled_by g (ob_log y) = settled_by g (ob_log y) @ offered (ob_val y) (ob_pc y g)
    \<and> taken_by g (ob_log y) = finished_by g (ob_log y) @ carried (ob_val y) (ob_pc y g)"
proof -
  have kept: "offered (ob_val y) (ob_pc x g) = offered (ob_val x) (ob_pc x g)"
      "carried (ob_val y) (ob_pc x g) = carried (ob_val x) (ob_pc x g)" if "ob_pc y g = ob_pc x g"
    using held_cong [of "ob_pc x g" "ob_val y" "ob_val x"] held_untouched [OF st inv _ that]
    by (cases "ob_pc x g"; auto)+
  from st kept eq show ?thesis
    by cases (auto elim!: step_cases simp: history_defs requires_moves split: if_splits)
qed

lemma true_log_step:
  assumes st: "own_step e cap False x y" and tl: "true_log cap x"
  shows "true_log cap y"
  unfolding true_log_def
  using tl [unfolded true_log_def] own_step_keeps [OF st] queue_bound_step [OF st] queue_log_step [OF st]
    hands_log_step [OF st]
  by (intro conjI allI) metis+

interpretation log: step_invariant "own_step e cap False" "true_log cap" for e cap
  by unfold_locales (rule true_log_step)

lemma true_log_start: "true_log cap start_objs"
  using own_inv_start by (simp add: true_log_def start_objs_def history_defs)

section \<open>What is written\<close>

definition actor :: "act \<Rightarrow> nat" where
  "actor a = (case a of Filled g _ \<Rightarrow> g | Queued g _ _ \<Rightarrow> g | GaveUp g _ \<Rightarrow> g | Taken g _ _ \<Rightarrow> g
     | Wrote g _ _ \<Rightarrow> g | Threw g _ _ \<Rightarrow> g)"

text \<open>Counting over the goroutines that occur.\<close>

lemma count_taken:
  "finite G \<Longrightarrow> actor ` set l \<subseteq> G \<Longrightarrow> count_list (taken_at q l) v = (\<Sum>g\<in>G. count_list (taken_by g l) (q, v))"
proof (induction l)
  case (Cons a l)
  have "count_list (taken_by g [a]) (q, v) = (if g = actor a then count_list (taken_at q [a]) v else 0)" for g
    by (cases a) (auto simp: history_defs actor_def)
  moreover have "taken_by g (a # l) = taken_by g [a] @ taken_by g l" "taken_at q (a # l) = taken_at q [a] @ taken_at q l" for g
    by (simp_all add: history_defs)
  ultimately show ?case using Cons by (simp add: sum.distrib)
qed (simp add: history_defs)

lemma count_written:
  "finite G \<Longrightarrow> actor ` set l \<subseteq> G \<Longrightarrow>
   count_list (written_at q l) v \<le> (\<Sum>g\<in>G. count_list (finished_by g l) (q, v))"
proof (induction l)
  case (Cons a l)
  have "(if g = actor a then count_list (written_at q [a]) v else 0) \<le> count_list (finished_by g [a]) (q, v)" for g
    by (cases a) (auto simp: history_defs actor_def)
  then have "(\<Sum>g\<in>G. if g = actor a then count_list (written_at q [a]) v else 0) \<le>
      (\<Sum>g\<in>G. count_list (finished_by g [a]) (q, v))" by (rule sum_mono)
  moreover have "finished_by g (a # l) = finished_by g [a] @ finished_by g l"
      "written_at q (a # l) = written_at q [a] @ written_at q l" for g
    by (simp_all add: history_defs)
  ultimately show ?case using Cons by (simp add: sum.distrib)
qed (simp add: history_defs)

lemma count_list_sum_le:
  assumes "\<And>g. \<exists>zs. taken_by g l = finished_by g l @ zs"
  shows "count_list (written_at q l) v \<le> count_list (taken_at q l) v"
proof -
  let ?G = "actor ` set l"
  have "count_list (finished_by g l) (q, v) \<le> count_list (taken_by g l) (q, v)" for g
    using assms [of g] by auto
  then have "(\<Sum>g\<in>?G. count_list (finished_by g l) (q, v)) \<le> (\<Sum>g\<in>?G. count_list (taken_by g l) (q, v))"
    by (rule sum_mono)
  then show ?thesis using count_written [of ?G l q v] count_taken [of ?G l q v] by simp
qed

lemma written_taken:
  "(\<And>g. \<exists>zs. taken_by g l = finished_by g l @ zs) \<Longrightarrow> mset (written_at q l) \<subseteq># mset (taken_at q l)"
  by (rule mset_subset_eqI) (simp add: count_mset count_list_sum_le)

lemma queued_settled:
  assumes "v \<in> set (queued_at q l)"
  obtains g where "v \<in> set (settled_by g l)"
proof -
  obtain g where "Queued g q v \<in> set l"
    using assms by (auto simp: queued_at_def split: act.splits if_splits)
  then have "v \<in> set (settled_by g l)" by (force simp: settled_by_def)
  then show ?thesis by (rule that)
qed

text \<open>A queue with one reader.\<close>

lemma one_reader:
  "\<forall>h v. Taken h q v \<in> set l \<longrightarrow> h = g \<Longrightarrow> taken_at q l = map snd (List.filter (\<lambda>z. fst z = q) (taken_by g l))"
proof (induction l)
  case (Cons a l)
  then show ?case by (cases a) (auto simp: history_defs)
qed (simp add: history_defs)

lemma one_writer:
  "\<forall>h v. Wrote h q v \<in> set l \<longrightarrow> h = g \<Longrightarrow> \<forall>h v. Threw h q v \<notin> set l \<Longrightarrow>
   written_at q l = map snd (List.filter (\<lambda>z. fst z = q) (finished_by g l))"
proof (induction l)
  case (Cons a l)
  then show ?case by (cases a) (auto simp: history_defs)
qed (simp add: history_defs)

lemma member_by:
  "(q, v) \<in> set (taken_by g l) \<longleftrightarrow> Taken g q v \<in> set l"
  "(q, v) \<in> set (finished_by g l) \<longleftrightarrow> Wrote g q v \<in> set l \<or> Threw g q v \<in> set l"
proof -
  have "((q, v) \<in> set (taken_by g l) \<longleftrightarrow> Taken g q v \<in> set l)
      \<and> ((q, v) \<in> set (finished_by g l) \<longleftrightarrow> Wrote g q v \<in> set l \<or> Threw g q v \<in> set l)"
  proof (induction l)
    case (Cons a l)
    then show ?case by (cases a) (auto simp: taken_by_def finished_by_def)
  qed (simp add: taken_by_def finished_by_def)
  then show "(q, v) \<in> set (taken_by g l) \<longleftrightarrow> Taken g q v \<in> set l"
    "(q, v) \<in> set (finished_by g l) \<longleftrightarrow> Wrote g q v \<in> set l \<or> Threw g q v \<in> set l" by simp_all
qed

text \<open>
  C1. Messages arrive as they were filled, although only references to shared, recycled objects
  travel. In every run of read loops, write loops, senders, handlers and disconnections, however they
  interleave, and as long as the application leaves a message alone once it has given it away:
  what has been put into a queue is what has been taken off it so far followed by what is still in
  it, contents and order unchanged; every sender's messages are queued, or given up, in the order
  and with the contents it filled them with; every goroutine that takes messages off queues passes
  on, or throws away, exactly those, in order. So no message is written twice or invented, each was
  filled by a sender, and a queue that has one write loop and is not emptied by \<open>release\<close> is written
  in order, but for the one message in the loop's hands and those that still wait.
\<close>

theorem messages_arrive_as_filled:
  assumes run: "(own_step e cap False)\<^sup>*\<^sup>* start_objs x"
  shows "(\<forall>q. queued_at q (ob_log x) = taken_at q (ob_log x) @ map (ob_val x) (ob_queue x q))
    \<and> (\<forall>g. filled_by g (ob_log x) = settled_by g (ob_log x) @ offered (ob_val x) (ob_pc x g))
    \<and> (\<forall>g. taken_by g (ob_log x) = finished_by g (ob_log x) @ carried (ob_val x) (ob_pc x g))
    \<and> (\<forall>q. mset (written_at q (ob_log x)) \<subseteq># mset (queued_at q (ob_log x)))
    \<and> (\<forall>q. \<forall>v \<in> set (written_at q (ob_log x)). \<exists>g. v \<in> set (filled_by g (ob_log x)))
    \<and> (\<forall>q g. (\<forall>h v. Taken h q v \<in> set (ob_log x) \<longrightarrow> h = g) \<and> (\<forall>h v. Threw h q v \<notin> set (ob_log x)) \<longrightarrow>
          queued_at q (ob_log x) = written_at q (ob_log x)
            @ map snd (List.filter (\<lambda>z. fst z = q) (carried (ob_val x) (ob_pc x g))) @ map (ob_val x) (ob_queue x q))"
proof -
  let ?l = "ob_log x"
  have "true_log cap x" by (rule log.run_keeps [OF run true_log_start])
  then have q: "queued_at q ?l = taken_at q ?l @ map (ob_val x) (ob_queue x q)"
    and f: "filled_by g ?l = settled_by g ?l @ offered (ob_val x) (ob_pc x g)"
    and t: "taken_by g ?l = finished_by g ?l @ carried (ob_val x) (ob_pc x g)" for q g
    by (simp_all add: true_log_def)
  have w: "mset (written_at q ?l) \<subseteq># mset (taken_at q ?l)" for q by (rule written_taken) (use t in simp)
  have wq: "mset (written_at q ?l) \<subseteq># mset (queued_at q ?l)" for q
    using w [of q] by (simp add: q subset_mset.add_increasing2)
  have "\<exists>g. v \<in> set (filled_by g ?l)" if v: "v \<in> set (written_at q ?l)" for v q
  proof -
    have "v \<in> set (queued_at q ?l)" using wq [of q] v by (metis mset_subset_eqD set_mset_mset)
    then obtain g where "v \<in> set (settled_by g ?l)" by (rule queued_settled)
    then show ?thesis using f [of g] by (intro exI [of _ g]) simp
  qed
  moreover have "queued_at q ?l = written_at q ?l
      @ map snd (List.filter (\<lambda>z. fst z = q) (carried (ob_val x) (ob_pc x g))) @ map (ob_val x) (ob_queue x q)"
    if only: "\<forall>h v. Taken h q v \<in> set ?l \<longrightarrow> h = g" "\<forall>h v. Threw h q v \<notin> set ?l" for q g
  proof -
    have "\<forall>h v. Wrote h q v \<in> set ?l \<longrightarrow> h = g"
      using only(1) t by (metis Un_iff member_by set_append)
    then have "written_at q ?l = map snd (List.filter (\<lambda>z. fst z = q) (finished_by g ?l))"
      using only(2) by (rule one_writer)
    then show ?thesis using q [of q] one_reader [OF only(1)] t [of g] by simp
  qed
  ultimately show ?thesis using q f t wq by blast
qed

theorem messages_arrive_as_filled_witness:
  "\<exists>x. (own_step sample_env 1 False)\<^sup>*\<^sup>* start_objs x \<and> ob_pool x \<noteq> []
    \<and> queued_at 7 (ob_log x) = [new_message\<lparr>h_index := 5\<rparr>] \<and> written_at 7 (ob_log x) = [new_message\<lparr>h_index := 5\<rparr>]"
proof -
  let ?m = "new_message\<lparr>h_index := 5\<rparr>"
  let ?a = "goto 0 (Filling 7 (ob_next start_objs) None)
    (store (ob_next start_objs) new_message (start_objs\<lparr>ob_next := Suc (ob_next start_objs)\<rparr>))"
  let ?b = "goto 0 (Offering 7 0 None) (remember [Filled 0 ?m] (store 0 ?m ?a))"
  let ?c = "goto 0 (after None) (enqueue 7 0 (remember [Queued 0 7 (ob_val ?b 0)] ?b))"
  let ?d = "goto 1 (Writing 7 0) (dequeue 7 (remember [Taken 1 7 (ob_val ?c 0)] ?c))"
  let ?e = "goto 1 Idle (releases sample_env 0 (remember [Wrote 1 7 (ob_val ?d 0)] ?d))"
  have s1: "own_step sample_env 1 False start_objs ?a"
    by (rule sends, rule send_step.take_new [OF _ made]) (simp add: after_def start_objs_def)
  have s2: "own_step sample_env 1 False ?a ?b" by (rule sends, rule filled) (simp add: start_objs_def)
  have s3: "own_step sample_env 1 False ?b ?c" by (rule offers, rule queued) (simp_all add: start_objs_def)
  have s4: "own_step sample_env 1 False ?c ?d"
    by (rule writes, rule write_step.taken) (simp_all add: start_objs_def)
  have s5: "own_step sample_env 1 False ?d ?e" by (rule writes, rule written) simp
  have run: "(own_step sample_env 1 False)\<^sup>*\<^sup>* start_objs ?e"
    by (rule own_into [OF s5 own_into [OF s4 own_into [OF s3 own_into [OF s2 own_into [OF s1 rtranclp.rtrancl_refl]]]]])
  obtain m where m: "message_Release sample_env (ob_val ?d 0) = (Ok (), m)"
    using message_Release_ok [of sample_env "ob_val ?d 0"] by (auto simp: sample_env_def)
  have "ob_pool ?e \<noteq> []" using m by (simp add: releases_def sample_env_def)
  moreover have "queued_at 7 (ob_log ?e) = written_at 7 (ob_log ?e)
      @ map snd (List.filter (\<lambda>z. fst z = 7) (carried (ob_val ?e) (ob_pc ?e 1))) @ map (ob_val ?e) (ob_queue ?e 7)"
    by (rule messages_arrive_as_filled [OF run, THEN conjunct2, THEN conjunct2, THEN conjunct2, THEN conjunct2,
        THEN conjunct2, rule_format]) (simp add: start_objs_def)
  moreover have "queued_at 7 (ob_log ?e) = [?m]" "ob_queue ?e 7 = []" "carried (ob_val ?e) (ob_pc ?e 1) = []"
    by (simp_all add: start_objs_def history_defs)
  ultimately have "ob_pool ?e \<noteq> [] \<and> queued_at 7 (ob_log ?e) = [?m] \<and> written_at 7 (ob_log ?e) = [?m]"
    by (simp only: list.map List.filter.simps append_Nil2 simp_thms)
  then show ?thesis using run by blast
qed

end
