(* ===== verification/ByValue.thy ===== *)
theory ByValue
  imports Delivery SocketProperties
begin

text \<open>
  From values to objects: what a send, a turn of the write loop and a release do to the manager's
  state, in which messages are values, they do to the objects of \<open>Ownership\<close>, with one object
  taken, filled, moved and given back.
\<close>

section \<open>Objects behind the values\<close>

text \<open>
  What a state of the manager's machine keeps of messages: its pool, the length of the queues and
  the queues. A state of the objects tracks it when the contents agree.
\<close>

definition chan_of :: "sockets \<Rightarrow> nat \<rightharpoonup> message chan" where
  "chan_of s p = map_option sk_cwrite (ss_heap s p)"

definition mail :: "sockets \<Rightarrow> pool \<times> nat \<times> (nat \<rightharpoonup> message chan)" where
  "mail s = (ss_pool s, nat (sint (WriteChanSize (ss_opts s))), chan_of s)"

definition boxed :: "nat \<Rightarrow> message list \<Rightarrow> message chan option \<Rightarrow> bool" where
  "boxed cap ms c = (case c of None \<Rightarrow> ms = [] | Some c \<Rightarrow> ms = items c \<and> ccap c = cap)"

definition tracks :: "nat \<Rightarrow> objs \<Rightarrow> sockets \<Rightarrow> bool" where
  "tracks cap x s \<longleftrightarrow>
     map (ob_val x) (ob_pool x) = ss_pool s \<and> nat (sint (WriteChanSize (ss_opts s))) = cap
     \<and> (\<forall>p. boxed cap (map (ob_val x) (ob_queue x p)) (chan_of s p))"

lemma tracks_mail: "tracks cap x s \<Longrightarrow> mail t = mail s \<Longrightarrow> tracks cap x t"
  by (simp add: tracks_def mail_def)

lemma tracks_pool: "tracks cap x s \<Longrightarrow> map (ob_val x) (ob_pool x) = ss_pool s"
  by (simp add: tracks_def)

lemma tracks_queue:
  "tracks cap x s \<Longrightarrow> ss_heap s p = Some k \<Longrightarrow>
   map (ob_val x) (ob_queue x p) = items (sk_cwrite k) \<and> ccap (sk_cwrite k) = cap"
  by (auto simp: tracks_def chan_of_def boxed_def dest!: spec [of _ p])

lemma chan_of_records [simp]: "chan_of (s\<lparr>ss_pool := pool\<rparr>) = chan_of s"
  by (simp add: chan_of_def fun_eq_iff)

lemma tracks_goto [simp]: "tracks cap (goto g c x) s = tracks cap x s" "tracks cap (remember as x) s = tracks cap x s"
  by (simp_all add: tracks_def)

lemma mail_upd: "(\<And>k. sk_cwrite (f k) = sk_cwrite k) \<Longrightarrow> mail (upd p f s) = mail s"
  by (cases "ss_heap s p") (auto simp: mail_def chan_of_def upd_def fun_eq_iff)

lemma mail_simps [simp]:
  "mail (Emit ev q a s) = mail s" "mail (sock_Emit ev a p s) = mail s" "mail (Errorf q er s) = mail s"
  "mail (go_start ts s) = mail s" "mail (end_task t s) = mail s" "mail (On ev f s) = mail s"
  "mail (s\<lparr>ss_tasks := ts\<rparr>) = mail s" "mail (s\<lparr>ss_closed := cs\<rparr>) = mail s" "mail (s\<lparr>ss_kept := ks\<rparr>) = mail s"
  "mail (s\<lparr>ss_count := n\<rparr>) = mail s" "mail (s\<lparr>ss_sockets := tb\<rparr>) = mail s" "mail (s\<lparr>ss_index := i\<rparr>) = mail s"
  "mail (s\<lparr>ss_instance := ls\<rparr>) = mail s" "mail (s\<lparr>ss_started := b\<rparr>) = mail s"
  by (simp_all add: mail_def chan_of_def fun_eq_iff Emit_def sock_Emit_def Errorf_def go_start_def end_task_def On_def)

lemma mail_calls [simp]:
  "mail (Close p delay s) = mail s" "mail (Authentication p v rc s) = mail s" "mail (Replaced p ip s) = mail s"
  "mail (KeepAlive p s) = mail s" "mail (snd (sock_Magic p ms s)) = mail s" "mail (close_conn p s) = mail s"
  "mail (Accept ln s) = mail s" "mail (Start s) = mail s" "mail (connect p conn s) = mail s"
  by (auto simp: Close_def Authentication_def Replaced_def KeepAlive_def sock_Magic_def close_conn_def Accept_def
      Start_def connect_def Let_def mail_upd split: list.split option.split)

text \<open>An object that is neither in the pool nor in a queue: what the tracking does not depend on.\<close>

definition apart :: "nat \<Rightarrow> objs \<Rightarrow> bool" where
  "apart i x \<longleftrightarrow> i \<notin> set (ob_pool x) \<and> (\<forall>q. i \<notin> set (ob_queue x q))"

lemma tracks_store: "apart i x \<Longrightarrow> tracks cap (store i m x) s = tracks cap x s"
  by (auto simp: tracks_def apart_def intro!: arg_cong2 [where f = boxed])

lemma distinct_pool: "own_inv x \<Longrightarrow> distinct (ob_pool x)"
  using own_inv_places(2) [of x] by (metis home_simps(1))

lemma remove1_nth: "distinct is \<Longrightarrow> k < length is \<Longrightarrow> remove1 (is ! k) is = take k is @ drop (Suc k) is"
proof (induction "is" arbitrary: k)
  case (Cons j js)
  then show ?case by (cases k) auto
qed simp

lemma own_inv_apart: "own_inv x \<Longrightarrow> i \<in> set (home x a) \<Longrightarrow> i \<in> set (home x b) \<Longrightarrow> b = a"
  using sole_unique [OF own_inv_sole(1)] by blast

lemma tracks_get:
  assumes inv: "own_inv x" and tr: "tracks cap x s" and rq: "Require e pk (ss_pool s) = (m, pool)"
  obtains i y where "requires e x i y" "ob_val y i = m" "tracks cap y (s\<lparr>ss_pool := pool\<rparr>)" "apart i y"
    "ob_queue y = ob_queue x"
proof (cases "Pool (opts e) \<and> (\<exists>k. pk = Some k \<and> k < length (ss_pool s))")
  case True
  then obtain k where k: "Pool (opts e)" "pk = Some k" "k < length (ss_pool s)" by blast
  let ?i = "ob_pool x ! k"
  have len: "k < length (ob_pool x)" using k(3) tracks_pool [OF tr, symmetric] by simp
  then have rm: "remove1 ?i (ob_pool x) = take k (ob_pool x) @ drop (Suc k) (ob_pool x)"
    by (rule remove1_nth [OF distinct_pool [OF inv]])
  moreover have "ob_val x ?i = m" "pool = take k (ss_pool s) @ drop (Suc k) (ss_pool s)"
    using rq k len tracks_pool [OF tr, symmetric] by (simp_all add: Require_def)
  moreover have "apart ?i (x\<lparr>ob_pool := remove1 ?i (ob_pool x)\<rparr>)"
    using own_inv_apart [OF inv, of ?i InPool "InQueue _"] nth_mem [OF len] distinct_pool [OF inv]
    by (auto simp: apart_def)
  ultimately show ?thesis
    using that [OF reused [OF k(1) nth_mem [OF len]]] tr
    by (simp add: tracks_def take_map [symmetric] drop_map [symmetric])
next
  case False
  then have m: "m = new_message" "pool = ss_pool s" using rq by (auto simp: Require_def split: if_splits option.splits)
  have "ob_next x \<notin> set (home x a)" for a using inv by (simp add: own_inv_def)
  from this [of InPool] this [of "InQueue _"] have a: "apart (ob_next x) (x\<lparr>ob_next := Suc (ob_next x)\<rparr>)"
    by (simp add: apart_def)
  have "tracks cap (x\<lparr>ob_next := Suc (ob_next x)\<rparr>) (s\<lparr>ss_pool := pool\<rparr>)" using tr m by (simp add: tracks_def)
  then have "tracks cap (store (ob_next x) new_message (x\<lparr>ob_next := Suc (ob_next x)\<rparr>)) (s\<lparr>ss_pool := pool\<rparr>)"
    by (simp add: tracks_store [OF a])
  moreover have "apart (ob_next x) (store (ob_next x) new_message (x\<lparr>ob_next := Suc (ob_next x)\<rparr>))"
    using a by (simp add: apart_def)
  ultimately show ?thesis by (intro that [OF made]) (simp_all add: m)
qed

lemma tracks_put:
  assumes i: "apart i x" and tr: "tracks cap x s" and rl: "Release e (Some (ob_val x i)) (ss_pool s) = (r, pool)"
  shows "tracks cap (releases e i x) (s\<lparr>ss_pool := pool\<rparr>)"
proof -
  have "tracks cap (store i m (x\<lparr>ob_pool := i # ob_pool x\<rparr>)) (s\<lparr>ss_pool := m # ss_pool s\<rparr>)" for m
    using tr i by (auto simp: tracks_def apart_def intro!: arg_cong2 [where f = boxed])
  moreover have "tracks cap (forget i x) s" using tr by (simp add: tracks_def)
  ultimately show ?thesis
    using rl tr
    by (auto simp: Release_def releases_def split: if_splits prod.splits outcome.splits)
qed

lemma tracks_set_queue:
  assumes "tracks cap x s" "ss_heap s p = Some k" "items (sk_cwrite (f k)) = map (ob_val x) js"
    "ccap (sk_cwrite (f k)) = ccap (sk_cwrite k)"
  shows "tracks cap (x\<lparr>ob_queue := (ob_queue x)(p := js)\<rparr>) (upd p f s)"
  using assms tracks_queue [OF assms(1,2)]
  by (auto simp: tracks_def boxed_def upd_def chan_of_def)

section \<open>A send\<close>

text \<open>
  \<open>SendWithMagic\<close> on objects: one object is taken and marshalled into; it is put into the queue,
  stays with a sender that waits, or is given back.
\<close>

inductive obj_send ::
  "env \<Rightarrow> nat \<Rightarrow> nat \<Rightarrow> byte \<Rightarrow> flag \<Rightarrow> i32 \<Rightarrow> path_arg \<Rightarrow> any \<Rightarrow> objs \<Rightarrow> unit outcome \<Rightarrow> objs \<Rightarrow> bool"
  for e cap p magic flag index path data x where
  sent: "requires e x i y \<Longrightarrow> Marshal e magic flag index path data (ob_val y i) = (Ok (), m) \<Longrightarrow>
    length (ob_queue y p) < cap \<Longrightarrow>
    obj_send e cap p magic flag index path data x (Ok ()) (enqueue p i (store i m y))"
| waits: "requires e x i y \<Longrightarrow> Marshal e magic flag index path data (ob_val y i) = (Ok (), m) \<Longrightarrow>
    cap \<le> length (ob_queue y p) \<Longrightarrow> obj_send e cap p magic flag index path data x Blocked (store i m y)"
| write_fails: "requires e x i y \<Longrightarrow> Marshal e magic flag index path data (ob_val y i) = (Ok (), m) \<Longrightarrow>
    obj_send e cap p magic flag index path data x (Err (ErrWrap ''socket send write error'' er))
      (releases e i (store i m y))"
| marshal_fails: "requires e x i y \<Longrightarrow> Marshal e magic flag index path data (ob_val y i) = (Err er, m) \<Longrightarrow>
    obj_send e cap p magic flag index path data x (Err (ErrWrap ''socket send marshal error'' er))
      (releases e i (store i m y))"

lemma sock_Write_effect:
  assumes k: "ss_heap s p = Some k" and w: "sock_Write pick p m safe s = (r, t)"
  obtains "r = Ok ()" "length (items (sk_cwrite k)) < ccap (sk_cwrite k)"
      "t = upd p (\<lambda>k'. k'\<lparr>sk_cwrite := (sk_cwrite k)\<lparr>items := items (sk_cwrite k) @ [m]\<rparr>\<rparr>) s"
  | "r = Blocked" "mail t = mail s" "ccap (sk_cwrite k) \<le> length (items (sk_cwrite k))"
  | er where "r = Err er" "mail t = mail s"
proof -
  have same: "mail (upd p (\<lambda>k'. k'\<lparr>sk_cwrite := sk_cwrite k\<rparr>) s) = mail s"
    using k by (auto simp: mail_def upd_def chan_of_def fun_eq_iff)
  obtain y ch where y: "Write_select pick safe m k = (y, ch)" by fastforce
  show ?thesis
    using w k y same that
    by (cases y) (auto simp: sock_Write_def Write_select_def Let_def split: if_splits)
qed

text \<open>Giving the object back after an error.\<close>

lemma give_back_tracks:
  assumes i: "apart i x" and tr: "tracks cap x s" and c: "0 \<le> Capacity (opts e)"
    and gb: "give_back e (ob_val x i) er s = (r, t)"
  shows "r = Err er" "tracks cap (releases e i x) t"
proof -
  obtain z pool where rl: "Release e (Some (ob_val x i)) (ss_pool s) = (z, pool)" by fastforce
  moreover obtain m where "message_Release e (ob_val x i) = (Ok (), m)" using message_Release_ok [OF c] by blast
  ultimately have "z = Ok ()" by (auto simp: Release_def split: if_splits)
  then have "r = Err er" "t = s\<lparr>ss_pool := pool\<rparr>" using gb rl by (simp_all add: give_back_def)
  then show "r = Err er" "tracks cap (releases e i x) t" using tracks_put [OF i tr rl] by simp_all
qed

lemma SendWithMagic_on_objects:
  assumes inv: "ss_inv e s" "own_inv x" and tr: "tracks cap x s" and k: "ss_heap s p = Some k"
    and c: "4 \<le> Capacity (opts e)"
    and send: "SendWithMagic e pk pick p magic flag index path data safe s = (r, t)"
  obtains z where "obj_send e cap p magic flag index path data x r z" "tracks cap z t"
proof -
  obtain m pool where rq: "Require e pk (ss_pool s) = (m, pool)" by fastforce
  let ?s = "s\<lparr>ss_pool := pool\<rparr>"
  obtain i y where i: "requires e x i y" "ob_val y i = m" "tracks cap y ?s" "apart i y" "ob_queue y = ob_queue x"
    by (rule tracks_get [OF inv(2) tr rq])
  have "clean e m" using Require_clean [OF ss_inv_facts(2) [OF inv(1)] rq] by blast
  from Marshal_result [OF clean_room [OF this c]] obtain w m1
    where ms: "Marshal e magic flag index path data m = (w, m1)" and w: "w \<notin> {Panic, Blocked}"
    by (metis prod.collapse)
  let ?y = "store i m1 y"
  have ty: "tracks cap ?y ?s" and ay: "apart i ?y" and v: "ob_val ?y i = m1"
    using i(3,4) by (simp_all add: tracks_store apart_def)
  have ms': "Marshal e magic flag index path data (ob_val y i) = (w, m1)" using ms i(2) by simp
  have c0: "0 \<le> Capacity (opts e)" using c by simp
  have ks: "ss_heap ?s p = Some k" using k by simp
  have q: "map (ob_val ?y) (ob_queue ?y p) = items (sk_cwrite k)" "ccap (sk_cwrite k) = cap"
    using tracks_queue [OF ty ks] by auto
  have len: "length (ob_queue y p) = length (items (sk_cwrite k))" using q(1) by (metis length_map moves(23))
  show ?thesis
  proof (cases w)
    case (Err er)
    have "give_back e (ob_val ?y i) (ErrWrap ''socket send marshal error'' er) ?s = (r, t)"
      using send rq ms Err v by (simp add: SendWithMagic_def)
    note back_ = give_back_tracks [OF ay ty c0 this]
    show ?thesis
      by (rule that [OF _ back_(2)], unfold back_(1), rule obj_send.marshal_fails [OF i(1) ms' [unfolded Err]])
  next
    case (Ok a)
    obtain z u where wr: "sock_Write pick p m1 safe ?s = (z, u)" by fastforce
    have rt: "(case z of Err er \<Rightarrow> give_back e m1 (ErrWrap ''socket send write error'' er) u | _ \<Rightarrow> (z, u)) = (r, t)"
      using send rq ms Ok wr by (auto simp: SendWithMagic_def split: outcome.splits)
    have ok: "Marshal e magic flag index path data (ob_val y i) = (Ok (), m1)" using ms' Ok by simp
    from ks wr show ?thesis
    proof (cases rule: sock_Write_effect)
      case 1
      have "tracks cap (enqueue p i ?y) u"
        unfolding 1(3) enqueue_def by (rule tracks_set_queue [OF ty ks]) (simp_all add: q(1) [symmetric] v)
      moreover have "r = Ok ()" "t = u" using 1(1) rt by simp_all
      moreover have "length (ob_queue y p) < cap" using 1(2) len q(2) by simp
      ultimately show ?thesis using that obj_send.sent [OF i(1) ok] by blast
    next
      case 2
      have "r = Blocked" "t = u" using 2(1) rt by simp_all
      moreover have "cap \<le> length (ob_queue y p)" using 2(3) len q(2) by simp
      ultimately show ?thesis using that obj_send.waits [OF i(1) ok] tracks_mail [OF ty 2(2)] by blast
    next
      case (3 er)
      then have "give_back e (ob_val ?y i) (ErrWrap ''socket send write error'' er) u = (r, t)" using rt v by simp
      note back_ = give_back_tracks [OF ay tracks_mail [OF ty 3(2)] c0 this]
      show ?thesis by (rule that [OF _ back_(2)], unfold back_(1), rule obj_send.write_fails [OF i(1) ok])
    qed
  qed (use w in simp_all)
qed

section \<open>A turn of the write loop, and a release\<close>

lemma writeMsgTrue_tracks:
  assumes i: "apart i x" and tr: "tracks cap x s" and w: "writeMsgTrue e fault p (ob_val x i) s = (z, t)"
  shows "tracks cap (releases e i x) t"
proof -
  define u where "u = (case (sk_conn (sock p s), fault) of
      (None, _) \<Rightarrow> Errorf (Some p) (ErrNew ''nil pointer dereference'') s
    | (Some _, Some er) \<Rightarrow> Errorf (Some p) er s | (Some _, None) \<Rightarrow> s)"
  have mu: "mail u = mail s" by (auto simp: u_def split: option.split)
  obtain y pool where rl: "Release e (Some (ob_val x i)) (ss_pool u) = (y, pool)" by fastforce
  have "t = u\<lparr>ss_pool := pool\<rparr>"
    using w unfolding writeMsgTrue_def Let_def u_def [symmetric] rl by simp
  then show ?thesis using tracks_put [OF i tracks_mail [OF tr mu] rl] by simp
qed

text \<open>The head of a queue, once it is taken off.\<close>

lemma dequeued_apart:
  assumes inv: "own_inv x" and q: "ob_queue x p = i # is"
  shows "apart i (dequeue p x)"
proof -
  have i: "i \<in> set (home x (InQueue p))" using q by simp
  have d: "distinct (i # is)" using own_inv_places(2) [OF inv] q by (metis home_simps(2))
  show ?thesis
    using own_inv_apart [OF inv i, of InPool] own_inv_apart [OF inv i, of "InQueue _"] d q
    by (auto simp: apart_def)
qed

lemma drain_on_objects:
  assumes c: "0 \<le> Capacity (opts e)"
  shows "distinct is \<Longrightarrow> \<forall>i \<in> set is. apart i x \<Longrightarrow> tracks cap x s \<Longrightarrow>
    drain e (map (ob_val x) is) (ss_pool s) = (r, ms, pool) \<Longrightarrow>
    r = Ok () \<and> ms = [] \<and> tracks cap (fold (releases e) is x) (s\<lparr>ss_pool := pool\<rparr>)"
proof (induction "is" arbitrary: x s)
  case Nil
  then show ?case by (simp add: tracks_def)
next
  case (Cons i "is")
  obtain z pool1 where rl: "Release e (Some (ob_val x i)) (ss_pool s) = (z, pool1)" by fastforce
  obtain m where "message_Release e (ob_val x i) = (Ok (), m)" using message_Release_ok [OF c] by blast
  then have z: "z = Ok ()" using rl by (auto simp: Release_def split: if_splits)
  let ?x = "releases e i x" and ?s = "s\<lparr>ss_pool := pool1\<rparr>"
  have v: "map (ob_val ?x) is = map (ob_val x) is" using Cons.prems(1) by (auto intro!: val_releases)
  have "\<forall>j \<in> set is. apart j ?x"
    using Cons.prems(1,2) by (auto simp: apart_def releases_def split: outcome.split prod.split)
  moreover have "tracks cap ?x ?s" using Cons.prems(2,3) rl by (intro tracks_put) simp_all
  moreover have "drain e (map (ob_val x) is) pool1 = (r, ms, pool)" using Cons.prems(4) rl z by simp
  then have "drain e (map (ob_val ?x) is) (ss_pool ?s) = (r, ms, pool)" unfolding v by simp
  ultimately show ?case using Cons.IH [of ?x ?s] Cons.prems(1) by simp
qed

lemma release_on_objects:
  assumes inv: "own_inv x" and tr: "tracks cap x s" and k: "ss_heap s p = Some k" and c: "0 \<le> Capacity (opts e)"
    and rel: "release e p s = (r, t)"
  shows "r = Ok ()" "tracks cap (fold (releases e) (ob_queue x p) (x\<lparr>ob_queue := (ob_queue x)(p := [])\<rparr>)) t"
proof -
  let ?s1 = "upd p (\<lambda>k. k\<lparr>sk_status := SocketStatusReleased\<rparr>) s"
  let ?s2 = "?s1\<lparr>ss_count := ss_count ?s1 - 1\<rparr>"
  let ?s3 = "?s2\<lparr>ss_sockets := (ss_sockets ?s2)(sk_id (sock p ?s2) := None)\<rparr>"
  let ?s = "upd p (\<lambda>k. k\<lparr>sk_data := None\<rparr>) ?s3"
  let ?f = "\<lambda>k :: socket. k\<lparr>sk_cwrite := (sk_cwrite k)\<lparr>items := []\<rparr>\<rparr>"
  let ?x = "x\<lparr>ob_queue := (ob_queue x)(p := [])\<rparr>"
  have m: "mail ?s = mail s" by (simp add: mail_upd)
  obtain k' where k': "ss_heap ?s p = Some k'" "sk_cwrite k' = sk_cwrite k" using k by (simp add: upd_def)
  have q: "map (ob_val x) (ob_queue x p) = items (sk_cwrite k)" using tracks_queue [OF tr k] by simp
  obtain z ms pool where d: "drain e (items (sk_cwrite k')) (ss_pool ?s) = (z, ms, pool)" by (metis prod_cases3)
  have t0: "tracks cap ?x (upd p ?f ?s)"
    using tracks_set_queue [OF tracks_mail [OF tr m] k'(1), of ?f "[]"] by simp
  have "distinct (ob_queue x p)" using own_inv_places(2) [OF inv] by (metis home_simps(2))
  moreover have "\<forall>i \<in> set (ob_queue x p). apart i ?x"
    using own_inv_apart [OF inv, of _ "InQueue p" InPool] own_inv_apart [OF inv, of _ "InQueue p" "InQueue _"]
    by (auto simp: apart_def)
  moreover have "drain e (map (ob_val ?x) (ob_queue x p)) (ss_pool (upd p ?f ?s)) = (z, ms, pool)"
    using d q k'(2) by (simp add: upd_def)
  ultimately have e: "z = Ok ()" "ms = []"
      "tracks cap (fold (releases e) (ob_queue x p) ?x) ((upd p ?f ?s)\<lparr>ss_pool := pool\<rparr>)"
    using drain_on_objects [OF c _ _ t0] by blast+
  have "r = z" "t = upd p (\<lambda>k. k\<lparr>sk_cwrite := (sk_cwrite k)\<lparr>items := ms\<rparr>\<rparr>) (?s\<lparr>ss_pool := pool\<rparr>)"
    using rel d k' by (simp_all add: release_def Let_def)
  moreover have "mail (upd p ?f (?s\<lparr>ss_pool := pool\<rparr>)) = mail ((upd p ?f ?s)\<lparr>ss_pool := pool\<rparr>)"
    by (simp add: mail_def upd_def chan_of_def fun_eq_iff)
  ultimately show "r = Ok ()" "tracks cap (fold (releases e) (ob_queue x p) ?x) t"
    using e tracks_mail [OF e(3)] by simp_all
qed

lemma write_turn_on_objects:
  assumes inv: "own_inv x" and tr: "tracks cap x s" and k: "ss_heap s p = Some k" and c: "0 \<le> Capacity (opts e)"
    and go: "items (sk_cwrite k) \<noteq> []" "\<not> ((ctx \<or> sk_stop k = Some True) \<and> pick)"
    and w: "writeMsg_turn e ctx pick fault p s = (r, t)"
  shows "r = Ok True" "tracks cap (releases e (hd (ob_queue x p)) (dequeue p x)) t"
proof -
  obtain m ms where ms: "items (sk_cwrite k) = m # ms" using go(1) by (cases "items (sk_cwrite k)") auto
  obtain i "is" where i: "ob_queue x p = i # is" "ob_val x i = m" "map (ob_val x) is = ms"
    using tracks_queue [OF tr k] ms by (auto simp: map_eq_Cons_conv)
  let ?f = "\<lambda>k :: socket. k\<lparr>sk_cwrite := (sk_cwrite k)\<lparr>items := ms\<rparr>\<rparr>"
  obtain z u where z: "writeMsgTrue e fault p m (upd p ?f s) = (z, u)" by fastforce
  obtain m' where "message_Release e m = (Ok (), m')" using message_Release_ok [OF c] by blast
  then have "z = Ok ()" using z by (auto simp: writeMsgTrue_def Release_def Let_def split: if_splits)
  then have rt: "r = Ok True" "t = u" using w k ms go(2) z by (auto simp: writeMsg_turn_def Let_def)
  have "tracks cap (dequeue p x) (upd p ?f s)"
    using tracks_set_queue [OF tr k, of ?f "is"] i by (simp add: dequeue_def)
  from writeMsgTrue_tracks [OF dequeued_apart [OF inv i(1)] this] z i rt
  show "r = Ok True" "tracks cap (releases e (hd (ob_queue x p)) (dequeue p x)) t" by simp_all
qed

text \<open>
  C35. What the manager does with messages as values is what it does with recycled objects. Take any
  objects, each in one place, whose contents are those of the manager's pool and queues, and a
  \<open>Capacity\<close> of at least four bytes. A send is then the one of \<open>obj_send\<close>: it takes one object out of
  the pool or makes one, marshals into it, and puts that object at the end of the socket's queue,
  keeps it while it waits for room, or gives it back to the pool once, with the error. A turn of the
  write loop that finds a message, and is not told to stop, takes the first object off the queue
  and gives it back once. A release gives back every object that waits, in order, and leaves none.
  After each of them the contents of pool and queues agree again, so a message that is lost,
  doubled, out of order or given back twice on one side would show on the other.
\<close>

theorem calls_act_on_objects:
  assumes inv: "ss_inv e s" "own_inv x" and tr: "tracks cap x s" and k: "ss_heap s p = Some k"
    and c: "4 \<le> Capacity (opts e)"
  shows "(\<forall>pk pick magic flag index path data safe r t.
        SendWithMagic e pk pick p magic flag index path data safe s = (r, t) \<longrightarrow>
        (\<exists>z. obj_send e cap p magic flag index path data x r z \<and> tracks cap z t))
    \<and> (\<forall>ctx pick fault r t. items (sk_cwrite k) \<noteq> [] \<and> \<not> ((ctx \<or> sk_stop k = Some True) \<and> pick)
        \<and> writeMsg_turn e ctx pick fault p s = (r, t) \<longrightarrow>
        r = Ok True \<and> tracks cap (releases e (hd (ob_queue x p)) (dequeue p x)) t)
    \<and> (\<forall>r t. release e p s = (r, t) \<longrightarrow>
        r = Ok () \<and> tracks cap (fold (releases e) (ob_queue x p) (x\<lparr>ob_queue := (ob_queue x)(p := [])\<rparr>)) t)"
proof (intro conjI allI impI)
  fix pk pick magic flag index path data safe r t
  assume "SendWithMagic e pk pick p magic flag index path data safe s = (r, t)"
  then show "\<exists>z. obj_send e cap p magic flag index path data x r z \<and> tracks cap z t"
    using SendWithMagic_on_objects [OF inv tr k c] by metis
next
  fix ctx pick fault and r :: "bool outcome" and t
  assume a: "items (sk_cwrite k) \<noteq> [] \<and> \<not> ((ctx \<or> sk_stop k = Some True) \<and> pick)
    \<and> writeMsg_turn e ctx pick fault p s = (r, t)"
  from c have c0: "0 \<le> Capacity (opts e)" by simp
  note turn = write_turn_on_objects [OF inv(2) tr k c0 a [THEN conjunct1] a [THEN conjunct2, THEN conjunct1]
      a [THEN conjunct2, THEN conjunct2]]
  show "r = Ok True" by (rule turn(1))
  show "tracks cap (releases e (hd (ob_queue x p)) (dequeue p x)) t" by (rule turn(2))
next
  fix r :: "unit outcome" and t
  assume "release e p s = (r, t)"
  from release_on_objects [OF inv(2) tr k _ this] c
  show "r = Ok ()" "tracks cap (fold (releases e) (ob_queue x p) (x\<lparr>ob_queue := (ob_queue x)(p := [])\<rparr>)) t"
    by simp_all
qed

text \<open>One queued message, and one object that holds it.\<close>

definition one_queued :: sockets where
  "one_queued = snd (sock_Write True 0 new_message [] sample_manager)"

definition one_object :: objs where
  "one_object = start_objs\<lparr>ob_next := 1, ob_queue := (\<lambda>_. [])(0 := [0])\<rparr>"

lemma one_queued_heap:
  "ss_heap one_queued 0 = Some (fresh_socket 1 2\<lparr>sk_conn := Some 5, sk_stop := Some False,
     sk_status := SocketStatusConnected, sk_heartbeat := 0, sk_cwrite := (make_chan 2)\<lparr>items := [new_message]\<rparr>\<rparr>)"
  using sample_manager_heap(1)
  by (simp add: one_queued_def sock_Write_def IsReady_def Write_select_def fresh_socket_def make_chan_def Let_def upd_def)

lemma one_object_tracks: "tracks 2 one_object one_queued"
  by (auto simp: one_queued_def sample_manager_eq created_def sockets_New_def go_start_def sock_Emit_def
      Config_default_def Let_def sock_Write_def IsReady_def Write_select_def fresh_socket_def make_chan_def upd_def
      tracks_def one_object_def start_objs_def chan_of_def boxed_def)

lemma one_object_inv: "own_inv one_object"
  by (auto simp: own_inv_def sole_def one_object_def start_objs_def home_def split: place.split intro!: exI [of _ "InQueue 0"])

theorem calls_act_on_objects_witness:
  "\<exists>t. writeMsg_turn sample_env False True None 0 one_queued = (Ok True, t) \<and> ss_pool t \<noteq> []
    \<and> tracks 2 (releases sample_env 0 (dequeue 0 one_object)) t"
proof -
  obtain r t where w: "writeMsg_turn sample_env False True None 0 one_queued = (r, t)" by fastforce
  have i: "ss_inv sample_env one_queued"
    unfolding one_queued_def using sock_Write_keeps [OF sample_manager_inv sample_manager_heap(1)]
    by (metis prod.collapse)
  have q: "ob_queue one_object 0 = [0]" by (simp add: one_object_def)
  have "r = Ok True" "tracks 2 (releases sample_env 0 (dequeue 0 one_object)) t"
    using calls_act_on_objects [OF i one_object_inv one_object_tracks one_queued_heap, THEN conjunct2, THEN conjunct1,
        rule_format, of False True None r t] w q
    by (simp_all add: sample_env_def)
  moreover obtain m where "message_Release sample_env (ob_val (dequeue 0 one_object) 0) = (Ok (), m)"
    using message_Release_ok [of sample_env] by (auto simp: sample_env_def)
  then have "ob_pool (releases sample_env 0 (dequeue 0 one_object)) \<noteq> []"
    by (simp add: releases_def sample_env_def)
  ultimately show ?thesis using w tracks_pool [of 2 "releases sample_env 0 (dequeue 0 one_object)" t] by auto
qed

end
