(* ===== verification/Isolation.thy ===== *)
theory Isolation
  imports SocketProperties
begin

text \<open>
  What one socket's calls and loops can do to the rest of the manager: \<open>frame\<close> says what two states
  have in common when only one socket was at work between them, and every operation is shown to keep
  it. A step of one socket leaves every other one alone.
\<close>

section \<open>The steps of one socket\<close>

text \<open>The steps of the machine of \<open>Manager\<close> that are calls on one socket or turns of its loops.\<close>

inductive socket_step :: "env \<Rightarrow> nat \<Rightarrow> sockets \<Rightarrow> sockets \<Rightarrow> bool" for e p where
  close_call: "ss_heap s p = Some k \<Longrightarrow> Close p delay s = t \<Longrightarrow> socket_step e p s t"
| authentication: "ss_heap s p = Some k \<Longrightarrow> Authentication p v rc s = t \<Longrightarrow> socket_step e p s t"
| replaced: "ss_heap s p = Some k \<Longrightarrow> Replaced p ip s = t \<Longrightarrow> socket_step e p s t"
| set_magic: "ss_heap s p = Some k \<Longrightarrow> sock_Magic p ms s = (b, t) \<Longrightarrow> socket_step e p s t"
| send: "ss_heap s p = Some k \<Longrightarrow>
    SendWithMagic e pk pick p magic flag index path data safe s = (x, t) \<Longrightarrow> socket_step e p s t"
| put: "ss_heap s p = Some k \<Longrightarrow> sock_Write pick p m safe s = (x, t) \<Longrightarrow> socket_step e p s t"
| reader: "ss_heap s p = Some k \<Longrightarrow>
    readMsg_turn e stopped search pk pk' pick rd p s = (y, t) \<Longrightarrow> socket_step e p s t"
| writer: "ss_heap s p = Some k \<Longrightarrow> writeMsg_turn e ctx pick fault p s = (y, t) \<Longrightarrow> socket_step e p s t"
| hand: "ss_heap s p = Some k \<Longrightarrow> ccap (sk_cwrite k) = 0 \<Longrightarrow>
    hand_over e pick fault p m s = (x, y, t) \<Longrightarrow> socket_step e p s t"
| reconnect: "TReconnect p \<in> set (ss_tasks s) \<Longrightarrow>
    reconnect_done e p c s = (x, t) \<Longrightarrow> socket_step e p s t"

text \<open>The steps that are calls on the manager, the beats apart.\<close>

inductive manager_step :: "env \<Rightarrow> sockets \<Rightarrow> sockets \<Rightarrow> bool" for e where
  create: "ss_index s \<noteq> - 1 \<Longrightarrow> Create stopped conn s = (x, t) \<Longrightarrow> manager_step e s t"
| dial: "ss_index s \<noteq> - 1 \<Longrightarrow> Connect stopped address r s = (x, t) \<Longrightarrow> manager_step e s t"
| accepted: "ss_index s \<noteq> - 1 \<Longrightarrow> accept_turn stopped ar s = (y, t) \<Longrightarrow> manager_step e s t"
| listen_on: "Accept ln s = t \<Longrightarrow> manager_step e s t"
| start: "Start s = t \<Longrightarrow> manager_step e s t"
| listener: "On ev f s = t \<Longrightarrow> manager_step e s t"
| emit: "Emit ev q a s = t \<Longrightarrow> manager_step e s t"

inductive_cases socket_stepE: "socket_step e p s t"
inductive_cases manager_stepE: "manager_step e s t"

text \<open>Every step of the machine is one of these, or a beat.\<close>

lemma ss_step_split:
  "ss_step e s t \<longleftrightarrow> (\<exists>p. socket_step e p s t) \<or> manager_step e s t
     \<or> (\<exists>v order x. sockets_Heartbeat e v order s = (x, t))"
proof
  assume "ss_step e s t"
  then show "(\<exists>p. socket_step e p s t) \<or> manager_step e s t
     \<or> (\<exists>v order x. sockets_Heartbeat e v order s = (x, t))"
    by cases (blast intro: socket_step.intros manager_step.intros)+
next
  assume "(\<exists>p. socket_step e p s t) \<or> manager_step e s t
     \<or> (\<exists>v order x. sockets_Heartbeat e v order s = (x, t))"
  then show "ss_step e s t"
    by (elim disjE exE socket_stepE manager_stepE) (blast intro: ss_step.intros)+
qed

section \<open>What a step of a socket touches\<close>

text \<open>
  \<open>frame R p s t\<close>: between the two states no socket but \<open>p\<close> differs, and that one as \<open>R\<close> allows; the
  options are the same, the listeners were called with \<open>p\<close> only, and no connection was closed but
  the one \<open>p\<close> had.
\<close>

definition frame :: "(socket \<Rightarrow> socket \<Rightarrow> bool) \<Rightarrow> nat \<Rightarrow> sockets \<Rightarrow> sockets \<Rightarrow> bool" where
  "frame R p s t \<longleftrightarrow>
     gl_opts t = gl_opts s \<and> ss_opts t = ss_opts s \<and> (\<forall>q. q \<noteq> p \<longrightarrow> ss_heap t q = ss_heap s q)
     \<and> (\<forall>k. ss_heap s p = Some k \<longrightarrow> (\<exists>k'. ss_heap t p = Some k' \<and> R k k'))
     \<and> (\<exists>cs. ss_calls t = ss_calls s @ cs \<and> (\<forall>c \<in> set cs. c_sock c = Some p))
     \<and> (\<exists>ds. ss_closed t = ss_closed s @ ds
          \<and> (\<forall>d \<in> set ds. \<exists>k. ss_heap s p = Some k \<and> sk_conn k = Some d))"

text \<open>The line of a socket: what decides whether it is connected, and how long it may stay so.\<close>

definition same_line :: "socket \<Rightarrow> socket \<Rightarrow> bool" where
  "same_line k k' \<longleftrightarrow>
     sk_id k' = sk_id k \<and> sk_status k' = sk_status k \<and> sk_conn k' = sk_conn k
     \<and> sk_stop k' = sk_stop k \<and> sk_address k' = sk_address k \<and> sk_heartbeat k' = sk_heartbeat k"

definition any_change :: "socket \<Rightarrow> socket \<Rightarrow> bool" where
  "any_change k k' \<longleftrightarrow> True"

lemma same_line_refl [simp, intro]: "same_line k k"
  by (simp add: same_line_def)

lemma any_change_all [simp, intro]: "any_change k k'"
  by (simp add: any_change_def)

lemma frame_same:
  assumes "gl_opts t = gl_opts s" "ss_opts t = ss_opts s" "ss_heap t = ss_heap s" "\<And>k. R k k"
    and "ss_calls t = ss_calls s @ cs" "\<forall>c \<in> set cs. c_sock c = Some p" "ss_closed t = ss_closed s"
  shows "frame R p s t"
  using assms by (auto simp: frame_def)

lemma frame_pool [intro]: "(\<And>k. R k k) \<Longrightarrow> frame R p s (s\<lparr>ss_pool := pool\<rparr>)"
  by (rule frame_same [where cs = "[]"]) simp_all

lemma frame_refl [intro]: "(\<And>k. R k k) \<Longrightarrow> frame R p s s"
  by (rule frame_same [where cs = "[]"]) simp_all

lemma frame_tasks [intro]: "(\<And>k. R k k) \<Longrightarrow> frame R p s (s\<lparr>ss_tasks := ts\<rparr>)"
  by (rule frame_same [where cs = "[]"]) simp_all

lemma frame_table [intro]: "(\<And>k. R k k) \<Longrightarrow> frame R p s (s\<lparr>ss_sockets := tb\<rparr>)"
  "(\<And>k. R k k) \<Longrightarrow> frame R p s (s\<lparr>ss_count := n\<rparr>)" "(\<And>k. R k k) \<Longrightarrow> frame R p s (s\<lparr>ss_kept := d\<rparr>)"
  by (rule frame_same [where cs = "[]"]; simp)+

lemma frame_Emit [intro]:
  "(\<And>k. R k k) \<Longrightarrow> frame R p s (sock_Emit ev a p s)" "(\<And>k. R k k) \<Longrightarrow> frame R p s (Errorf (Some p) er s)"
  by (auto simp: sock_Emit_def Errorf_def Emit_def Let_def
      intro!: frame_same [where cs = "map (\<lambda>f. \<lparr>c_fun = f, c_sock = Some p, c_arg = x\<rparr>) fs" for x fs])

lemma frame_upd: "(\<And>k. ss_heap s p = Some k \<Longrightarrow> R k (f k)) \<Longrightarrow> frame R p s (upd p f s)"
  by (auto simp: frame_def upd_def)

text \<open>Steps in sequence: the first may not change the connection, or the second closes nothing.\<close>

lemma frame_trans:
  assumes "frame R p s t" "frame R' p t u"
    and "\<And>k k'. R k k' \<Longrightarrow> sk_conn k' = sk_conn k"
    and "\<And>k k' k''. R k k' \<Longrightarrow> R' k' k'' \<Longrightarrow> R'' k k''"
    and "ss_heap s p \<noteq> None"
  shows "frame R'' p s u"
proof -
  obtain k k' where k: "ss_heap s p = Some k" "ss_heap t p = Some k'" "R k k'"
    using assms(1,5) unfolding frame_def by blast
  obtain cs cs' ds ds' where
    "ss_calls t = ss_calls s @ cs" "\<forall>c \<in> set cs. c_sock c = Some p" "ss_closed t = ss_closed s @ ds"
    "\<forall>d \<in> set ds. \<exists>k. ss_heap s p = Some k \<and> sk_conn k = Some d"
    "ss_calls u = ss_calls t @ cs'" "\<forall>c \<in> set cs'. c_sock c = Some p" "ss_closed u = ss_closed t @ ds'"
    "\<forall>d \<in> set ds'. \<exists>k. ss_heap t p = Some k \<and> sk_conn k = Some d"
    using assms(1,2) unfolding frame_def by blast
  then have "ss_calls u = ss_calls s @ (cs @ cs') \<and> (\<forall>c \<in> set (cs @ cs'). c_sock c = Some p)"
    "ss_closed u = ss_closed s @ (ds @ ds')
      \<and> (\<forall>d \<in> set (ds @ ds'). \<exists>k. ss_heap s p = Some k \<and> sk_conn k = Some d)"
    using k assms(3) by auto
  then have c: "\<exists>cs. ss_calls u = ss_calls s @ cs \<and> (\<forall>c \<in> set cs. c_sock c = Some p)"
    "\<exists>ds. ss_closed u = ss_closed s @ ds
      \<and> (\<forall>d \<in> set ds. \<exists>k. ss_heap s p = Some k \<and> sk_conn k = Some d)" by blast+
  have "\<forall>k. ss_heap s p = Some k \<longrightarrow> (\<exists>k'. ss_heap u p = Some k' \<and> R'' k k')"
    using assms(2,4) k unfolding frame_def by auto
  then show ?thesis using assms(1,2) c by (simp add: frame_def)
qed


lemma frame_line:
  "frame same_line p s t \<Longrightarrow> frame R p t u \<Longrightarrow> (\<And>k k' k''. same_line k k' \<Longrightarrow> R k' k'' \<Longrightarrow> R k k'')
    \<Longrightarrow> ss_heap s p \<noteq> None \<Longrightarrow> frame R p s u"
  by (rule frame_trans [where R = same_line and R' = R]) (simp_all add: same_line_def)

lemma same_line_trans: "same_line k k' \<Longrightarrow> same_line k' k'' \<Longrightarrow> same_line k k''"
  by (simp add: same_line_def)

lemmas frame_lines = frame_line [OF _ _ same_line_trans]

lemma frame_then:
  assumes "frame R p s t" "gl_opts u = gl_opts t" "ss_opts u = ss_opts t" "ss_heap u = ss_heap t"
    "ss_calls u = ss_calls t" "ss_closed u = ss_closed t"
  shows "frame R p s u"
  using assms by (simp add: frame_def)

lemma frame_any: "frame R p s t \<Longrightarrow> frame any_change p s t"
  by (auto simp: frame_def)

lemma frame_heap: "frame R p s t \<Longrightarrow> ss_heap s p = Some k \<Longrightarrow> \<exists>k'. ss_heap t p = Some k' \<and> R k k'"
  by (simp add: frame_def)

subsection \<open>Sending and dispatching\<close>

lemma sock_Write_frame:
  assumes "ss_heap s p = Some k" "sock_Write pick p m safe s = (x, t)"
  shows "frame same_line p s t"
proof (cases "IsReady k")
  case True
  obtain y ch where sel: "Write_select pick safe m k = (y, ch)" by fastforce
  have "frame same_line p s (upd p (\<lambda>k. k\<lparr>sk_cwrite := ch\<rparr>) s)"
    by (rule frame_upd) (simp add: same_line_def)
  moreover have "frame same_line p s s" by (rule frame_refl) simp
  ultimately show ?thesis using assms True sel by (cases y) (auto simp: sock_Write_def)
qed (use assms in \<open>auto simp: sock_Write_def\<close>)

lemma give_back_frame:
  "give_back e m er s = (x, t) \<Longrightarrow> frame same_line p s t"
  by (auto simp: give_back_def split: prod.splits outcome.splits)

lemma release_to_pool_frame:
  "release_to_pool e m s = (x, t) \<Longrightarrow> frame same_line p s t"
  by (auto simp: release_to_pool_def split: prod.splits)

lemma SendWithMagic_frame:
  assumes k: "ss_heap s p = Some k"
    and r: "SendWithMagic e pk pick p magic flag index path data safe s = (x, t)"
  shows "frame same_line p s t"
proof -
  obtain m pool where rq: "Require e pk (ss_pool s) = (m, pool)" by fastforce
  obtain y m' where mm: "Marshal e magic flag index path data m = (y, m')" by fastforce
  let ?s = "s\<lparr>ss_pool := pool\<rparr>"
  obtain z u where w: "sock_Write pick p m' safe ?s = (z, u)" by fastforce
  have s: "frame same_line p s ?s" by (rule frame_pool) simp
  have "frame same_line p ?s u" using sock_Write_frame [OF _ w] k by simp
  then have u: "frame same_line p s u" using frame_lines [OF s] k by simp
  have given: "frame same_line p s v" if "give_back e m' er w = (x, v)" "frame same_line p s w" for er w v
    using frame_lines [OF that(2) give_back_frame [OF that(1)]] k by simp
  show ?thesis
    using r s u by (cases y; cases z) (auto simp: SendWithMagic_def rq mm w Let_def intro: given)
qed

lemma handler_reply_frame:
  assumes "ss_heap s p = Some k" "handler_reply e pk pick h p m v s = (x, t)"
  shows "frame same_line p s t"
proof -
  obtain c m' where c: "Confirm e m = (c, m')" by fastforce
  obtain d where d: "reply_data e h p m' v = d" by blast
  show ?thesis
    using assms c d
    by (cases c; cases d)
      (auto simp: handler_reply_def split: if_splits option.splits intro: SendWithMagic_frame)
qed

lemma frame_error:
  assumes "frame same_line p s t" "ss_heap s p = Some k"
  shows "frame same_line p s (Errorf (Some p) er t)" "frame same_line p s (sock_Emit ev a p t)"
proof -
  have "frame same_line p t (Errorf (Some p) er t)" "frame same_line p t (sock_Emit ev a p t)"
    by (rule frame_Emit; simp)+
  then show "frame same_line p s (Errorf (Some p) er t)" "frame same_line p s (sock_Emit ev a p t)"
    using frame_lines [OF assms(1)] assms(2) by simp_all
qed

lemma handle_body_frame:
  assumes k: "ss_heap s p = Some k" and b: "handle_body e search pk pick p m s = (x, t)"
  shows "frame same_line p s t"
proof -
  have s: "frame same_line p s s" by (rule frame_refl) simp
  note out = frame_error [OF s k]
  obtain pr m' where pr: "Path e m = (pr, m')" by fastforce
  show ?thesis
  proof (cases pr)
    case (Ok pq)
    obtain path q where pq: "pq = (path, q)" by fastforce
    show ?thesis
    proof (cases "\<exists>nd h rp. search path = Some (nd, OwnHandler h) \<and> handler_handle h nd p m' = Ok rp")
      case True
      then obtain nd h rp where n: "search path = Some (nd, OwnHandler h)" "handler_handle h nd p m' = Ok rp"
        by blast
      obtain y u where y: "handler_reply e pk pick h p m' rp s = (y, u)" by fastforce
      note f = handler_reply_frame [OF k y]
      show ?thesis using b pr Ok pq n y f frame_error [OF f k] by (cases y) (auto simp: handle_body_def)
    next
      case False
      then have "snd (handle_body e search pk pick p m s) \<in> {s, sock_Emit EventTypeMessage [AMessage m'] p s,
          Errorf (Some p) (ErrNew ''no handler'') s}"
        using pr Ok pq
        by (auto simp: handle_body_def and_then_def split: option.splits node_handler.splits outcome.splits)
      then show ?thesis using b s out by auto
    qed
  qed (use b pr s out in \<open>auto simp: handle_body_def\<close>)
qed


lemma sock_handle_frame:
  assumes k: "ss_heap s p = Some k" and h: "sock_handle e search pk pick p m s = (x, t)"
  shows "frame same_line p s t"
proof -
  obtain y u where y: "handle_body e search pk pick p m s = (y, u)" by fastforce
  note f = handle_body_frame [OF k y]
  show ?thesis using h y f frame_error(1) [OF f k] by (cases y) (auto simp: sock_handle_def)
qed

text \<open>What a received message makes of a socket: a connected one starts counting again.\<close>

definition fed :: "socket \<Rightarrow> socket \<Rightarrow> bool" where
  "fed k k' \<longleftrightarrow>
     same_line (if sk_status k = SocketStatusConnected then k\<lparr>sk_heartbeat := 0\<rparr> else k) k'"

lemma fed_line [intro]: "fed k k' \<Longrightarrow> same_line k' k'' \<Longrightarrow> fed k k''"
  by (auto simp: fed_def intro: same_line_trans)

lemma fed_conn: "fed k k' \<Longrightarrow> sk_conn k' = sk_conn k"
  by (simp add: fed_def same_line_def split: if_splits)

lemma line_fed: "same_line k k' \<Longrightarrow> fed k' k'' \<Longrightarrow> fed k k''"
  by (auto simp: fed_def same_line_def split: if_splits)

lemma frame_fed:
  "frame fed p s t \<Longrightarrow> frame same_line p t u \<Longrightarrow> ss_heap s p \<noteq> None \<Longrightarrow> frame fed p s u"
  by (rule frame_trans [where R = fed and R' = same_line]) (auto simp: fed_conn)

lemma KeepAlive_frame:
  assumes "ss_heap s p = Some k"
  shows "frame fed p s (KeepAlive p s)"
proof -
  have "frame fed p s (if sk_status (sock p s) = SocketStatusConnected
      then upd p (\<lambda>k. k\<lparr>sk_heartbeat := 0\<rparr>) s else s)" (is "frame _ _ _ ?u")
    using assms by (auto simp: frame_def upd_def fed_def)
  moreover have "gl_opts (KeepAlive p s) = gl_opts ?u" "ss_opts (KeepAlive p s) = ss_opts ?u"
    "ss_heap (KeepAlive p s) = ss_heap ?u" "ss_calls (KeepAlive p s) = ss_calls ?u"
    "ss_closed (KeepAlive p s) = ss_closed ?u"
    by (simp_all add: KeepAlive_def Let_def split: option.split)
  ultimately show ?thesis by (rule frame_then)
qed

lemma readMsgTrue_frame:
  assumes k: "ss_heap s p = Some k" and r: "readMsgTrue e search pk pick p m s = (x, t)"
  shows "frame fed p s t"
proof -
  note f = KeepAlive_frame [OF k]
  obtain k' where k': "ss_heap (KeepAlive p s) p = Some k'" using frame_heap [OF f k] by blast
  show ?thesis
    using r f frame_fed [OF f sock_handle_frame [OF k']] k
    by (auto simp: readMsgTrue_def Let_def split: option.splits if_splits)
qed

text \<open>A turn of the read loop whose connection delivers, whatever becomes of the message.\<close>

lemma readMsg_turn_fed:
  assumes k: "ss_heap s p = Some k" "sk_conn k \<noteq> None" and rd: "\<And>m. \<exists>m'. rd m = (Ok (), m')"
    and r: "readMsg_turn e False search pk pk' pick rd p s = (x, t)"
  shows "frame fed p s t"
proof -
  obtain m pool where rq: "Require e pk (ss_pool s) = (m, pool)" by fastforce
  obtain m' where m': "rd m = (Ok (), m')" using rd by blast
  let ?s = "s\<lparr>ss_pool := pool\<rparr>"
  have ks: "ss_heap ?s p = Some k" using k by simp
  obtain y u where y: "readMsgTrue e search pk' pick p m' ?s = (y, u)" by fastforce
  have "frame same_line p s ?s" by (rule frame_pool) simp
  from frame_line [OF this readMsgTrue_frame [OF ks y] line_fed] have u: "frame fed p s u" using k by simp
  obtain z v where z: "release_to_pool e m' u = (z, v)" by fastforce
  have v: "frame fed p s v" using frame_fed [OF u release_to_pool_frame [OF z]] k by simp
  have "t = u \<or> t = v"
    using r k by (cases y; cases z) (auto simp: readMsg_turn_def rq m' y z)
  then show ?thesis using u v by blast
qed

subsection \<open>Losing the connection\<close>

lemma cut_frame:
  assumes "ss_heap s p = Some k" "sk_conn k = Some c"
  shows "frame any_change p s (cut p c k st s)"
  using assms by (auto simp: frame_def cut_def sock_Emit_def Emit_def)

lemma disconnect_frame:
  assumes inv: "ss_inv e s" and k: "ss_heap s p = Some k" and d: "disconnect e p s = (x, t)"
  shows "frame any_change p s t"
proof (cases "isValidStatus (sk_status k)")
  case False
  then show ?thesis using d k by (auto simp: disconnect_invalid intro: frame_refl)
next
  case True
  obtain c where c: "sk_status k \<in> {SocketStatusConnected, SocketStatusClosing}"
    "sk_stop k = Some False" "sk_conn k = Some c"
    using isValid_ok [OF ss_inv_facts(3) [OF inv k] True] by blast
  let ?s = "cut p c k SocketStatusDisconnected s"
  have cp: "clean_pool e (ss_pool ?s)" using ss_inv_facts(2) [OF inv] by simp
  obtain pool where r: "release e p ?s = (Ok (), released p
      (k\<lparr>sk_status := SocketStatusDisconnected, sk_stop := Some True, sk_conn := None\<rparr>) pool ?s)"
    using release_ok [OF cut_heap ss_inv_facts(1) [OF inv] cp] by blast
  have "t = go_start [TReconnect p] (cut p c k SocketStatusReconnecting s)
      \<or> t = released p (k\<lparr>sk_status := SocketStatusDisconnected, sk_stop := Some True, sk_conn := None\<rparr>) pool ?s"
    using d disconnect_cut [OF k c, of e] r by (auto simp: recovered_def split: if_splits)
  then show ?thesis
    using k c by (auto simp: frame_def go_start_def released_def cut_def sock_Emit_def Emit_def)
qed

lemma disconnect_ends_frame:
  assumes inv: "ss_inv e s" and k: "ss_heap s p = Some k"
    and d: "and_then (disconnect e p s) (\<lambda>_ s. (y, end_task tk s)) = (x, t)"
  shows "frame any_change p s t"
proof -
  obtain z u where z: "disconnect e p s = (z, u)" by fastforce
  note f = disconnect_frame [OF inv k z]
  have "frame any_change p s (end_task tk u)" by (rule frame_then [OF f]) (simp_all add: end_task_def)
  then show ?thesis using d f z by (cases z) auto
qed

lemma readMsg_turn_frame:
  assumes inv: "ss_inv e s" and k: "ss_heap s p = Some k"
    and r: "readMsg_turn e stopped search pk pk' pick rd p s = (x, t)"
  shows "frame any_change p s t"
proof (cases stopped)
  case True
  show ?thesis by (rule disconnect_ends_frame [OF inv k]) (use r True in \<open>simp add: readMsg_turn_def\<close>)
next
  case False
  obtain m pool where rq: "Require e pk (ss_pool s) = (m, pool)" by fastforce
  let ?s = "s\<lparr>ss_pool := pool\<rparr>"
  have u: "ss_inv e ?s"
    using Require_clean [OF ss_inv_facts(2) [OF inv] rq] inv by (simp add: ss_inv_pool)
  have ku: "ss_heap ?s p = Some k" using k by simp
  have fs: "frame same_line p s ?s" by (rule frame_pool) simp
  have on: "frame any_change p s v" if "frame same_line p s w" "frame any_change p w v" for w v
    by (rule frame_line [OF that]) (simp_all add: k)
  obtain y m' where y: "(if sk_conn k = None then (Panic, m) else rd m) = (y, m')" by fastforce
  show ?thesis
  proof (cases y)
    case (Ok a)
    have turn: "readMsg_turn e False search pk pk' pick (\<lambda>_. (Ok (), m')) p s = (x, t)"
      and open_k: "sk_conn k \<noteq> None"
      using r False y Ok k by (auto simp: readMsg_turn_def rq split: if_splits)
    show ?thesis by (rule frame_any [OF readMsg_turn_fed [OF k open_k _ turn]]) simp
  next
    case (Err er)
    obtain z w where z: "release_to_pool e m' ?s = (z, w)" by fastforce
    have w: "frame same_line p s w" using frame_lines [OF fs release_to_pool_frame [OF z]] k by simp
    have iw: "ss_inv e w" by (rule Release_pool_keeps [OF u z])
    define v where "v = (if er \<noteq> ErrEOF \<and> \<not> errors_is er ErrNetClosed then Errorf (Some p) er w else w)"
    have fv: "frame same_line p s v" using w frame_error [OF w k] by (simp add: v_def)
    have iv: "ss_inv e v" using iw by (auto simp: v_def)
    obtain k' where kv: "ss_heap v p = Some k'" using frame_heap [OF fv k] by blast
    have "t = w \<or> and_then (disconnect e p v) (\<lambda>_ s. (Ok False, end_task (TRead p) s)) = (x, t)"
      using r False y Err k z
      by (cases z) (auto simp: readMsg_turn_def rq readMsg_end_def Let_def v_def)
    then show ?thesis using frame_any [OF w] on [OF fv disconnect_ends_frame [OF iv kv]] by blast
  next
    case Panic
    have "and_then (disconnect e p ?s) (\<lambda>_ s. (Panic, end_task (TRead p) s)) = (x, t)"
      using r False y Panic k by (simp add: readMsg_turn_def rq)
    then show ?thesis by (rule on [OF fs disconnect_ends_frame [OF u ku]])
  next
    case Blocked
    then show ?thesis using r False y k frame_any [OF fs] by (simp add: readMsg_turn_def rq)
  qed
qed


lemma writeMsgTrue_frame:
  assumes k: "ss_heap s p = Some k" and w: "writeMsgTrue e fault p m s = (x, t)"
  shows "frame same_line p s t"
proof -
  define u where "u = (case (sk_conn (sock p s), fault) of
                 (None, _) \<Rightarrow> Errorf (Some p) (ErrNew ''nil pointer dereference'') s
               | (Some _, Some er) \<Rightarrow> Errorf (Some p) er s
               | (Some _, None) \<Rightarrow> s)"
  have s: "frame same_line p s s" by (rule frame_refl) simp
  have u: "frame same_line p s u" using s frame_error [OF s k] by (auto simp: u_def split: option.split)
  have "\<exists>pool. t = u\<lparr>ss_pool := pool\<rparr>"
    using w unfolding writeMsgTrue_def Let_def u_def [symmetric] by (auto split: prod.splits)
  then show ?thesis using frame_then [OF u] by auto
qed

lemma hand_over_frame:
  assumes k: "ss_heap s p = Some k" and h: "hand_over e pick fault p m s = (x, y, t)"
  shows "frame same_line p s t"
proof -
  obtain z u where z: "writeMsgTrue e fault p m s = (z, u)" by fastforce
  have "frame same_line p s s" by (rule frame_refl) simp
  then show ?thesis
    using writeMsgTrue_frame [OF k z] h z by (cases z) (auto simp: hand_over_def split: if_splits)
qed

text \<open>A turn of the write loop that writes, or finds nothing to write.\<close>

lemma writeMsg_turn_line:
  assumes k: "ss_heap s p = Some k" "\<not> ((ctx \<or> sk_stop k = Some True) \<and> (pick \<or> items (sk_cwrite k) = []))"
    and w: "writeMsg_turn e ctx pick fault p s = (x, t)"
  shows "frame same_line p s t"
proof (cases "items (sk_cwrite k)")
  case Nil
  then show ?thesis using w k by (auto simp: writeMsg_turn_def intro!: frame_refl)
next
  case (Cons m ms)
  let ?u = "upd p (\<lambda>k. k\<lparr>sk_cwrite := (sk_cwrite k)\<lparr>items := ms\<rparr>\<rparr>) s"
  have u: "frame same_line p s ?u" by (rule frame_upd) (simp add: same_line_def)
  obtain k' where k': "ss_heap ?u p = Some k'" using frame_heap [OF u k(1)] by blast
  obtain z v where v: "writeMsgTrue e fault p m ?u = (z, v)" by fastforce
  have "frame same_line p s v" using frame_lines [OF u writeMsgTrue_frame [OF k' v]] k by simp
  moreover have "t = v" using w k Cons v by (cases z) (auto simp: writeMsg_turn_def)
  ultimately show ?thesis by simp
qed

lemma writeMsg_turn_frame:
  assumes inv: "ss_inv e s" and k: "ss_heap s p = Some k"
    and w: "writeMsg_turn e ctx pick fault p s = (x, t)"
  shows "frame any_change p s t"
proof (cases "(ctx \<or> sk_stop k = Some True) \<and> (pick \<or> items (sk_cwrite k) = [])")
  case True
  then have "and_then (disconnect e p s) (\<lambda>_ s. (Ok False, end_task (TWrite p) s)) = (x, t)"
    using w k by (cases "items (sk_cwrite k)") (auto simp: writeMsg_turn_def Let_def)
  then show ?thesis by (rule disconnect_ends_frame [OF inv k])
next
  case False
  show ?thesis by (rule frame_any [OF writeMsg_turn_line [OF k False w]])
qed

lemma Close_frame: "frame any_change p s (Close p delay s)"
  by (auto simp: Close_def frame_def upd_def Let_def split: list.split)

lemma Authentication_frame: "frame same_line p s (Authentication p v rc s)"
  by (auto simp: Authentication_def frame_def upd_def sock_Emit_def Emit_def Let_def same_line_def)

lemma Replaced_frame: "frame any_change p s (Replaced p ip s)"
  by (auto simp: Replaced_def Close_def frame_def upd_def sock_Emit_def Emit_def Let_def split: list.split)

lemma sock_Magic_frame: "sock_Magic p ms s = (b, t) \<Longrightarrow> frame same_line p s t"
  by (auto simp: sock_Magic_def frame_def upd_def Let_def same_line_def split: list.splits)

lemma reconnect_done_frame:
  assumes inv: "ss_inv e s" and r: "reconnect_done e p c s = (x, t)" and k: "ss_heap s p = Some k"
  shows "frame any_change p s t"
proof (cases c)
  case (Some cn)
  then show ?thesis
    using r by (auto simp: reconnect_done_def frame_def connect_def upd_def go_start_def sock_Emit_def Emit_def Let_def)
next
  case None
  let ?s = "s\<lparr>ss_tasks := remove1 (TReconnect p) (ss_tasks s)\<rparr>"
  obtain pool where "release e p ?s = (Ok (), released p k pool ?s)"
    using release_ok [of ?s p k e] k ss_inv_facts(1,2) [OF inv] by auto
  then show ?thesis using r None k by (auto simp: reconnect_done_def frame_def released_def)
qed

lemma reconnecting_task:
  assumes "ss_inv e s" "TReconnect p \<in> set (ss_tasks s)"
  obtains k where "ss_heap s p = Some k" "sk_status k = SocketStatusReconnecting"
proof -
  have "count_list (ss_tasks s) (TReconnect p) \<noteq> 0" using assms(2) by (simp add: count_list_0_iff)
  then show ?thesis using that ss_inv_facts(4) [OF assms(1), of p] by (auto simp: reconnecting_def split: if_splits)
qed

lemma socket_step_frame:
  assumes "ss_inv e s" "socket_step e p s t"
  shows "frame any_change p s t"
  using assms(2)
proof cases
  case (close_call k delay)
  then show ?thesis using Close_frame by blast
next
  case (authentication k v rc)
  then show ?thesis using frame_any [OF Authentication_frame] by blast
next
  case (replaced k ip)
  then show ?thesis using Replaced_frame by blast
next
  case (set_magic k ms b)
  show ?thesis by (rule frame_any [OF sock_Magic_frame [OF set_magic(2)]])
next
  case (send k pk pick magic flag index path data safe x)
  show ?thesis by (rule frame_any [OF SendWithMagic_frame [OF send]])
next
  case (put k pick m safe x)
  show ?thesis by (rule frame_any [OF sock_Write_frame [OF put]])
next
  case (reader k stopped search pk pk' pick rd y)
  show ?thesis by (rule readMsg_turn_frame [OF assms(1) reader])
next
  case (writer k ctx pick fault y)
  show ?thesis by (rule writeMsg_turn_frame [OF assms(1) writer])
next
  case (hand k pick fault m x y)
  show ?thesis by (rule frame_any [OF hand_over_frame [OF hand(1,3)]])
next
  case (reconnect c x)
  obtain k where "ss_heap s p = Some k" by (rule reconnecting_task [OF assms(1) reconnect(1)])
  then show ?thesis by (rule reconnect_done_frame [OF assms(1) reconnect(2)])
qed

text \<open>A call on the manager changes no socket there is.\<close>

lemma manager_step_heap:
  assumes inv: "ss_inv e s" and st: "manager_step e s t"
  shows "gl_opts t = gl_opts s \<and> (\<forall>q k. ss_heap s q = Some k \<longrightarrow> ss_heap t q = Some k)"
proof -
  have nxt: "ss_heap s (ss_next s) = None" using inv by (simp add: next_free ss_inv_def)
  have cr: "gl_opts u = gl_opts s \<and> (\<forall>q k. ss_heap s q = Some k \<longrightarrow> ss_heap u q = Some k)
      \<and> (\<forall>p. x = Ok p \<longrightarrow> ss_heap s p = None)" if "Create stopped conn s = (x, u)" for stopped conn x u
    using that
    by (rule Create_cases) (use nxt in \<open>auto simp: created_def go_start_def sock_Emit_def Let_def\<close>)
  show ?thesis
    using st
  proof cases
    case (dial stopped address r x)
    show ?thesis
    proof (cases r)
      case (Inr conn)
      obtain y u where y: "Create stopped conn s = (y, u)" by fastforce
      show ?thesis using dial(2) Inr y cr [OF y] by (cases y) (auto simp: Connect_def upd_def)
    qed (use dial in \<open>simp add: Connect_def\<close>)
  next
    case (accepted stopped ar y)
    show ?thesis
    proof (cases ar)
      case (Inr conn)
      obtain z u where z: "Create stopped conn s = (z, u)" by fastforce
      show ?thesis using accepted(2) Inr z cr [OF z] by (cases z) (auto simp: accept_turn_def)
    qed (use accepted in \<open>simp add: accept_turn_def\<close>)
  qed (use cr in \<open>auto simp: Accept_def Start_def On_def go_start_def\<close>)
qed

text \<open>
  C7. Sockets are isolated: a call on one socket, a turn of one of its loops with any connection and
  any handler, the loss of its connection or its reconnection leaves every other socket exactly as
  it was, and findable as it was; the event listeners are called with that socket only, and the only
  connection that can be closed is its own. A call on the manager leaves all of them.
\<close>

theorem sockets_are_isolated:
  assumes inv: "ss_inv e s"
  shows "(\<forall>t. socket_step e p s t \<longrightarrow>
      (\<forall>q k. q \<noteq> p \<longrightarrow> ss_heap s q = Some k \<longrightarrow> ss_heap t q = Some k
         \<and> (sk_status k \<noteq> SocketStatusReleased \<longrightarrow> sockets_Get (sk_id k) t = Some q))
      \<and> (\<exists>cs. ss_calls t = ss_calls s @ cs \<and> (\<forall>c \<in> set cs. c_sock c = Some p))
      \<and> (\<exists>ds. ss_closed t = ss_closed s @ ds
           \<and> (\<forall>d \<in> set ds. \<exists>k. ss_heap s p = Some k \<and> sk_conn k = Some d)))
    \<and> (\<forall>t. manager_step e s t \<longrightarrow> (\<forall>q k. ss_heap s q = Some k \<longrightarrow> ss_heap t q = Some k
         \<and> (sk_status k \<noteq> SocketStatusReleased \<longrightarrow> sockets_Get (sk_id k) t = Some q)))"
proof -
  have found: "sockets_Get (sk_id k) t = Some q"
    if "ss_step e s t" "ss_heap t q = Some k" "sk_status k \<noteq> SocketStatusReleased" for t q k
    using live_in_table [OF ss_step_keeps [OF that(1) inv] that(2,3)] by (simp add: sockets_Get_def)
  have one: "ss_step e s t" "frame any_change p s t" if "socket_step e p s t" for t
    using that ss_step_split socket_step_frame [OF inv] by blast+
  have all: "ss_step e s t" "ss_heap s q = Some k \<Longrightarrow> ss_heap t q = Some k" if "manager_step e s t" for t q k
    using that ss_step_split manager_step_heap [OF inv] by blast+
  show ?thesis
    using one all found unfolding frame_def by (intro conjI allI impI) auto
qed


theorem sockets_are_isolated_witness:
  "ss_heap (Close 1 [] (created 8 sample_manager)) 0 = ss_heap sample_manager 0
    \<and> sk_status (sock 1 (Close 1 [] (created 8 sample_manager))) = SocketStatusClosing"
proof -
  have m: "ss_heap (created 8 sample_manager) 0 = ss_heap sample_manager 0"
    "\<exists>k. ss_heap (created 8 sample_manager) 1 = Some k \<and> sk_status k = SocketStatusConnected"
    by (simp_all add: sample_manager_eq created_def sockets_New_def go_start_def sock_Emit_def Emit_def Let_def)
  then obtain k where k: "ss_heap (created 8 sample_manager) 1 = Some k" "sk_status k = SocketStatusConnected"
    by blast
  have inv: "ss_inv sample_env (created 8 sample_manager)"
    by (rule created_keeps [OF sample_manager_inv])
      (simp_all add: sample_manager_eq created_def sockets_New_def go_start_def sock_Emit_def Emit_def Let_def
        Config_default_def)
  have "socket_step sample_env 1 (created 8 sample_manager) (Close 1 [] (created 8 sample_manager))"
    by (rule socket_step.close_call [OF k(1) refl])
  with sockets_are_isolated [OF inv, of 1] m(1) sample_manager_heap(1)
  have "ss_heap (Close 1 [] (created 8 sample_manager)) 0 = ss_heap sample_manager 0" by auto
  then show ?thesis using k by (simp add: Close_def upd_def sock_def Let_def)
qed

end
