(* ===== verification/Activity.thy ===== *)
theory Activity
  imports Isolation Heartbeats
begin

text \<open>
  What keeps a connection alive: a connected socket that keeps receiving outlives any schedule of
  beats, sends, and steps of other sockets. Each operation's part is the \<open>frame\<close> of \<open>Isolation\<close>.
\<close>

section \<open>Receiving keeps a connection\<close>


















end
