(* ===== verification/CodeReplies.thy ===== *)
theory CodeReplies
  imports EndToEnd
begin

text \<open>
  Requests in code mode: the number of the request becomes a path by the transform, the path finds
  the handler, and the reply goes out under the number the transform gives for the confirmation's
  path. Where the transform fails, an error event says so and no reply is sent.
\<close>

section \<open>A request and its reply under a code\<close>

text \<open>A message whose code has been read keeps its body, and gives the same path again.\<close>

lemma holds_code_read:
  assumes "holds_code e mg c b m"
  shows "Path e (m\<lparr>code := c\<rparr>) = (case TrPath e c of Inl er \<Rightarrow> Err er | Inr p \<Rightarrow> Ok (p, []), m\<lparr>code := c\<rparr>)"
    "Body e (m\<lparr>code := c\<rparr>) = (Ok b, m\<lparr>code := c\<rparr>)"
proof -
  have "Code e (m\<lparr>code := c\<rparr>) = (Ok c, m\<lparr>code := c\<rparr>)" by (rule Code_idem [OF holds_code_Code [OF assms]])
  then show "Path e (m\<lparr>code := c\<rparr>) = (case TrPath e c of Inl er \<Rightarrow> Err er | Inr p \<Rightarrow> Ok (p, []), m\<lparr>code := c\<rparr>)"
    using assms by (auto simp: Path_def holds_code_def split: sum.split)
  show "Body e (m\<lparr>code := c\<rparr>) = (Ok b, m\<lparr>code := c\<rparr>)"
    using assms holds_code_slen [OF assms] by (simp add: Body_def holds_code_def)
qed

text \<open>The path a reply goes to: the configured one, or the request's.\<close>

definition confirm_path :: "env \<Rightarrow> bytes \<Rightarrow> bytes" where
  "confirm_path e path = (if S2CConfirm (opts e) \<noteq> [] then S2CConfirm (opts e) else path)"

lemma Confirm_code:
  assumes "holds_code e mg c b m" "TrPath e c = Inr path"
  shows "Confirm e (m\<lparr>code := c\<rparr>) = (Ok (confirm_path e path), m\<lparr>code := c\<rparr>)"
  using holds_code_read(1) [OF assms(1)] assms(2) by (simp add: Confirm_def confirm_path_def)

text \<open>Sending bytes under a path in code mode: what is queued, or what is given back.\<close>

lemma Send_code_queues:
  assumes inv: "ss_inv e s" and k: "ss_heap s p = Some k" "IsReady k"
      "length (items (sk_cwrite k)) < ccap (sk_cwrite k)"
    and mg: "Magics e mag = Some mg" "Type mg = MagicTypeCode" and cap: "4 \<le> Capacity (opts e)"
    and tr: "TrCode e a = Inr c"
  obtains m pool where "SendWithMagic e pk pick p mag fl ix (PathString a) (VBytes v) safe s
      = (Ok (), upd p (\<lambda>k. k\<lparr>sk_cwrite := (sk_cwrite k)\<lparr>items := items (sk_cwrite k) @ [m]\<rparr>\<rparr>)
          (s\<lparr>ss_pool := pool\<rparr>))"
    "holds_code e mg c v m" "h_magic m = mag" "h_flag m = fl" "h_index m = ix" "clean_pool e pool"
proof -
  let ?P = "\<lambda>m. holds_code e mg c v m \<and> h_magic m = mag \<and> h_flag m = fl \<and> h_index m = ix"
  have "\<exists>m1. Marshal e mag fl ix (PathString a) (VBytes v) m0 = (Ok (), m1) \<and> ?P m1" if m0: "clean e m0" for m0
    using Marshal_holds_code [OF mg clean_room [OF m0 cap] _ tr, of fl ix v] m0
    by (auto simp: clean_def marshalled_def)
  from Send_queues [OF inv k this, of pk pick safe] show ?thesis using that by blast
qed

lemma Send_code_fails:
  assumes inv: "ss_inv e s" and mg: "Magics e mag = Some mg" "Type mg = MagicTypeCode"
    and cap: "4 \<le> Capacity (opts e)" and tr: "TrCode e a = Inl er"
  obtains pool where "SendWithMagic e pk pick p mag fl ix (PathString a) (VBytes v) safe s
      = (Err (ErrWrap ''socket send marshal error'' er), s\<lparr>ss_pool := pool\<rparr>)"
proof -
  obtain m0 pool where rq: "Require e pk (ss_pool s) = (m0, pool)" by fastforce
  have c0: "clean e m0" using Require_clean [OF ss_inv_facts(2) [OF inv] rq] by auto
  have "layout e mg (PathString a) (VBytes v) = Inl er"
    using mg tr by (simp add: layout_def layout_prefix_def)
  with Marshal_layout [OF mg(1) clean_room [OF c0 cap], where a = "PathString a" and v = "VBytes v"
      and fl = fl and ix = ix] obtain m1
    where m1: "Marshal e mag fl ix (PathString a) (VBytes v) m0 = (Err er, m1)"
    by (cases "Marshal e mag fl ix (PathString a) (VBytes v) m0") auto
  obtain m2 where "message_Release e m1 = (Ok (), m2)"
    using message_Release_ok [OF ss_inv_facts(1) [OF inv]] by blast
  then have "Release e (Some m1) pool = (Ok (), if Pool (opts e) then m2 # pool else pool)"
    by (simp add: Release_def)
  then show ?thesis
    by (intro that [of "if Pool (opts e) then m2 # pool else pool"])
      (simp add: SendWithMagic_def rq m1 give_back_def Let_def)
qed


section \<open>Dispatch in code mode\<close>

lemma code_reply:
  assumes req: "holds_code e mg c body m" "\<not> Has (h_flag m) FlagConfirm" "\<not> Has (h_flag m) FlagNoreply"
    and tr: "TrPath e c = Inr path" and key: "keys_ok (Magics e)"
  shows "handler_reply e pk pick h p (m\<lparr>code := c\<rparr>) (VBytes v) s =
    SendWithMagic e pk pick p (h_magic m) (reply_flag (h_flag m)) (h_index m)
      (PathString (confirm_path e path)) (VBytes v) [] s"
proof -
  have mg: "Magics e (h_magic m) = Some mg" using req(1) by (simp add: holds_code_def)
  then have "Key mg = h_magic m" using key by (simp add: keys_ok_def)
  then show ?thesis
    using req(2,3) mg Confirm_code [OF req(1) tr] by (simp add: handler_reply_def reply_data_def magics_Get_def)
qed

lemma code_dispatch:
  assumes req: "holds_code e mg c body m" and tr: "TrPath e c = Inr path"
    and served: "search path = Some (nd, OwnHandler h)"
      "handler_handle h nd p (m\<lparr>code := c\<rparr>) = Ok (VBytes v)"
  shows "sock_handle e search pk pick p m s =
    (case handler_reply e pk pick h p (m\<lparr>code := c\<rparr>) (VBytes v) s of
       (Err er, s) \<Rightarrow> (Ok (), Errorf (Some p) (ErrText ''write reply message error'' er) s)
     | (Panic, s) \<Rightarrow> (Ok (), Errorf (Some p) (ErrNew ''server handle error'') s)
     | r \<Rightarrow> r)"
  using holds_code_Path [OF req] tr served
  by (auto simp: sock_handle_def handle_body_def split: prod.split outcome.split)

text \<open>
  C16. Requests are answered in code mode too. A request with a number the transform knows is handed
  to the handler of the path, and its reply is queued on the same socket under the number of the
  confirmation's path (\<open>S2CConfirm\<close>, or the request's own path), with the request's index and magic
  number, marked as a confirmation, with the handler's bytes as its body. When the confirmation's
  path has no number nothing is queued, and when the request's number has no path no handler runs;
  both are reported to the listeners of the error event.
\<close>

theorem code_request_is_answered:
  assumes inv: "ss_inv e s" and k: "ss_heap s p = Some k" "IsReady k"
      "length (items (sk_cwrite k)) < ccap (sk_cwrite k)"
    and req: "holds_code e mg c body m" "\<not> Has (h_flag m) FlagConfirm" "\<not> Has (h_flag m) FlagNoreply"
    and opt: "4 \<le> Capacity (opts e)" "keys_ok (Magics e)"
  shows "case TrPath e c of
      Inl er \<Rightarrow> sock_handle e search pk pick p m s = (Ok (), Errorf (Some p) (ErrText ''message path error'' er) s)
    | Inr path \<Rightarrow> (\<forall>nd h v. search path = Some (nd, OwnHandler h)
          \<and> (\<forall>m. fst (Body e m) = Ok body \<longrightarrow> handler_handle h nd p m = Ok (VBytes v)) \<longrightarrow>
        (case TrCode e (confirm_path e path) of
          Inr c' \<Rightarrow> (\<exists>t m1. sock_handle e search pk pick p m s = (Ok (), t)
            \<and> items (sk_cwrite (sock p t)) = items (sk_cwrite k) @ [m1]
            \<and> fst (Code e m1) = Ok c' \<and> fst (Body e m1) = Ok v
            \<and> h_index m1 = h_index m \<and> h_magic m1 = h_magic m \<and> Has (h_flag m1) FlagConfirm)
        | Inl er \<Rightarrow> (\<exists>t. sock_handle e search pk pick p m s = (Ok (), t) \<and> ss_heap t = ss_heap s
            \<and> ss_calls t = ss_calls s @ map (\<lambda>f. \<lparr>c_fun = f, c_sock = Some p,
                c_arg = AErr (ErrText ''write reply message error'' (ErrWrap ''socket send marshal error'' er))\<rparr>)
                (ss_emitter s EventTypeError))))"
proof (cases "TrPath e c")
  case (Inl er)
  then show ?thesis
    using holds_code_Path [OF req(1)] by (simp add: sock_handle_def handle_body_def)
next
  case path: (Inr path)
  have mg: "Magics e (h_magic m) = Some mg" "Type mg = MagicTypeCode" using req(1) by (simp_all add: holds_code_def)
  have "case TrCode e (confirm_path e path) of
          Inr c' \<Rightarrow> (\<exists>t m1. sock_handle e search pk pick p m s = (Ok (), t)
            \<and> items (sk_cwrite (sock p t)) = items (sk_cwrite k) @ [m1]
            \<and> fst (Code e m1) = Ok c' \<and> fst (Body e m1) = Ok v
            \<and> h_index m1 = h_index m \<and> h_magic m1 = h_magic m \<and> Has (h_flag m1) FlagConfirm)
        | Inl er \<Rightarrow> (\<exists>t. sock_handle e search pk pick p m s = (Ok (), t) \<and> ss_heap t = ss_heap s
            \<and> ss_calls t = ss_calls s @ map (\<lambda>f. \<lparr>c_fun = f, c_sock = Some p,
                c_arg = AErr (ErrText ''write reply message error'' (ErrWrap ''socket send marshal error'' er))\<rparr>)
                (ss_emitter s EventTypeError))"
    if served: "search path = Some (nd, OwnHandler h)"
      "\<forall>m. fst (Body e m) = Ok body \<longrightarrow> handler_handle h nd p m = Ok (VBytes v)" for nd h v
  proof -
    have run: "handler_handle h nd p (m\<lparr>code := c\<rparr>) = Ok (VBytes v)"
      using served(2) holds_code_read(2) [OF req(1)] by simp
    note eq = code_dispatch [where search = search, OF req(1) path served(1) run, of pk pick s,
      unfolded code_reply [OF req path opt(2)]]
    show ?thesis
    proof (cases "TrCode e (confirm_path e path)")
      case (Inl er)
      obtain pool where send: "SendWithMagic e pk pick p (h_magic m) (reply_flag (h_flag m)) (h_index m)
          (PathString (confirm_path e path)) (VBytes v) [] s
          = (Err (ErrWrap ''socket send marshal error'' er), s\<lparr>ss_pool := pool\<rparr>)"
        by (rule Send_code_fails [OF inv mg opt(1) Inl])
      show ?thesis using eq Inl by (simp add: send Errorf_def Emit_def)
    next
      case (Inr c')
      obtain m1 pool where send: "SendWithMagic e pk pick p (h_magic m) (reply_flag (h_flag m)) (h_index m)
          (PathString (confirm_path e path)) (VBytes v) [] s
          = (Ok (), upd p (\<lambda>k. k\<lparr>sk_cwrite := (sk_cwrite k)\<lparr>items := items (sk_cwrite k) @ [m1]\<rparr>\<rparr>)
              (s\<lparr>ss_pool := pool\<rparr>))" (is "_ = (_, ?t)")
        and m1: "holds_code e mg c' v m1" "h_magic m1 = h_magic m" "h_flag m1 = reply_flag (h_flag m)"
          "h_index m1 = h_index m"
        by (rule Send_code_queues [OF inv k mg opt(1) Inr])
      have "items (sk_cwrite (sock p ?t)) = items (sk_cwrite k) @ [m1]" using k by (simp add: sock_def upd_def)
      then show ?thesis
        using eq Inr m1 holds_code_Code [OF m1(1)] holds_code_Body [OF m1(1)] reply_flag_facts
        by (simp add: send)
    qed
  qed
  then show ?thesis using path by simp
qed


definition sample_code_request :: message where
  "sample_code_request = new_message\<lparr>h_magic := MagicNumberCodeJson, h_size := 5, h_index := 9,
     mbytes := \<lparr>arr = [0, 0, 0, 7, 5], slen = 5\<rparr>\<rparr>"

lemma sample_code_request_holds:
  "holds_code sample_env \<lparr>Key = MagicNumberCodeJson, Type = MagicTypeCode, Binder = Some sample_codec,
      Binary = BigEndian\<rparr> 7 [5] sample_code_request"
  by (simp add: holds_code_def sample_code_request_def wf_slice_def view_def PutUint32_def be_put_def)

theorem code_request_is_answered_witness:
  "\<exists>t m1. sock_handle sample_env (\<lambda>_. Some (sample_node, OwnHandler new_handler)) None True 0
        sample_code_request sample_manager = (Ok (), t)
    \<and> items (sk_cwrite (sock 0 t)) = [m1] \<and> fst (Code sample_env m1) = Ok 7
    \<and> fst (Body sample_env m1) = Ok [1, 2] \<and> h_index m1 = 9"
  using code_request_is_answered [OF sample_manager_inv sample_manager_heap(1) _ _ sample_code_request_holds,
      where search = "\<lambda>_. Some (sample_node, OwnHandler new_handler)" and pk = None and pick = True]
  by (auto simp: IsReady_def fresh_socket_def make_chan_def sample_code_request_def keys_ok_init sample_handler
      confirm_path_def Has_def FlagConfirm_def FlagNoreply_def)

end
