(* ===== verification/Unbuffered.thy ===== *)
theory Unbuffered
  imports SocketProperties
begin

text \<open>
  A queue of length zero (\<open>WriteChanSize = 0\<close>): Go passes the message from the sender's \<open>select\<close> in
  \<open>Write\<close> straight to the write loop's \<open>select\<close>, when both wait. The two statements are one step here,
  and it is the same as a queue of one place that the sender fills and the write loop empties.
\<close>

section \<open>One place\<close>

text \<open>The socket with a queue of one place.\<close>

definition one_place :: "nat \<Rightarrow> sockets \<Rightarrow> sockets" where
  "one_place p s = upd p (\<lambda>k. k\<lparr>sk_cwrite := (sk_cwrite k)\<lparr>ccap := 1\<rparr>\<rparr>) s"

lemma upd_upd: "upd p f (upd p g s) = upd p (\<lambda>k. f (g k)) s"
  by (simp add: upd_def option.map_comp comp_def)

lemma upd_same: "ss_heap s p = Some k \<Longrightarrow> f k = g k \<Longrightarrow> upd p f s = upd p g s"
  by (simp add: upd_def)

lemma writeMsgTrue_upd:
  assumes "ss_heap s p = Some k" "sk_conn (f k) = sk_conn k"
  shows "writeMsgTrue e fault p m (upd p f s) = (case writeMsgTrue e fault p m s of (x, t) \<Rightarrow> (x, upd p f t))"
proof -
  have "ss_heap (upd p f s) p = Some (f k)" using assms(1) by (simp add: upd_def)
  then show ?thesis
    using assms
    by (cases "Release e (Some m) (ss_pool s)"; cases "sk_conn k"; cases fault)
      (simp_all add: writeMsgTrue_def Errorf_def Emit_def upd_def Let_def)
qed

text \<open>
  C34. With a queue of length zero a message goes from hand to hand: a \<open>Write\<close> that meets the waiting
  write loop ends, for the sender and for the loop, exactly like a \<open>Write\<close> into a queue of one place
  followed by the loop's next turn: with the same result, the same events, the same pool and the
  same sockets, the queue's length apart. Without a waiting loop the sender waits in safe mode, is
  told that the queue is full in the other mode, and nothing changes.
\<close>

theorem unbuffered_is_one_place:
  assumes inv: "ss_inv e s" and k: "ss_heap s p = Some k" "ccap (sk_cwrite k) = 0"
  shows "(\<exists>u. sock_Write pick p m safe (one_place p s) = (fst (hand_over e pick fault p m s), u)
    \<and> (fst (hand_over e pick fault p m s) = Ok () \<longrightarrow>
        writeMsg_turn e False pick' fault p u = (case snd (hand_over e pick fault p m s) of (x, t) \<Rightarrow>
          (x, one_place p t)))
    \<and> (fst (hand_over e pick fault p m s) \<noteq> Ok () \<longrightarrow> u = one_place p s
        \<and> snd (hand_over e pick fault p m s) = (Blocked, s)))
    \<and> sock_Write pick p m safe s =
        (if \<not> IsReady k then (Err (ErrNew ''socket not ready''), s)
         else if safe \<noteq> [] \<and> \<not> hd safe then (Err (ErrNew ''socket write channel full''), s)
         else (Blocked, s))"
proof -
  note ok = ss_inv_facts(3) [OF inv k(1)]
  have q: "items (sk_cwrite k) = []" "\<not> closed (sk_cwrite k)" using ok k(2) by (simp_all add: sock_ok_def)
  let ?k = "k\<lparr>sk_cwrite := (sk_cwrite k)\<lparr>ccap := 1\<rparr>\<rparr>"
  have ks: "ss_heap (one_place p s) p = Some ?k" using k by (simp add: one_place_def upd_def)
  have stay: "upd p (\<lambda>k'. k'\<lparr>sk_cwrite := sk_cwrite k\<rparr>) s = s"
    using k(1) by (simp add: upd_def fun_upd_idem)
  have plain: "sock_Write pick p m safe s =
        (if \<not> IsReady k then (Err (ErrNew ''socket not ready''), s)
         else if safe \<noteq> [] \<and> \<not> hd safe then (Err (ErrNew ''socket write channel full''), s)
         else (Blocked, s))"
    using k q ok stay by (auto simp: sock_Write_def Write_select_def IsReady_def sock_ok_def Let_def)
  show ?thesis
  proof (cases "IsReady k")
    case False
    then show ?thesis
      using k ks plain by (simp add: hand_over_def sock_Write_def IsReady_def)
  next
    case True
    then have stop: "sk_stop k = Some False" using ok by (simp add: IsReady_def sock_ok_def)
    let ?u = "upd p (\<lambda>k'. k'\<lparr>sk_cwrite := (sk_cwrite ?k)\<lparr>items := [m]\<rparr>\<rparr>) (one_place p s)"
    have w: "sock_Write pick p m safe (one_place p s) = (Ok (), ?u)"
      using ks True stop q by (simp add: sock_Write_def Write_select_def IsReady_def)
    have ku: "ss_heap ?u p = Some (?k\<lparr>sk_cwrite := (sk_cwrite ?k)\<lparr>items := [m]\<rparr>\<rparr>)"
      using ks by (simp add: upd_def)
    have short: "(sk_cwrite k)\<lparr>ccap := Suc 0, items := []\<rparr> = (sk_cwrite k)\<lparr>ccap := Suc 0\<rparr>"
      by (rule chan.equality) (simp_all add: q(1))
    have take: "upd p (\<lambda>k. k\<lparr>sk_cwrite := (sk_cwrite k)\<lparr>items := []\<rparr>\<rparr>) ?u = one_place p s"
      using k by (simp add: one_place_def upd_def short)
    have "writeMsg_turn e False pick' fault p ?u
        = and_then (writeMsgTrue e fault p m (one_place p s)) (\<lambda>_ s. (Ok True, s))"
      using ku stop take by (simp add: writeMsg_turn_def)
    also have "\<dots> = (case and_then (writeMsgTrue e fault p m s) (\<lambda>_ s. (Ok True, s)) of (x, t) \<Rightarrow> (x, one_place p t))"
      unfolding one_place_def
      by (subst writeMsgTrue_upd [OF k(1)])
        (simp_all add: and_then_def split: prod.split outcome.split)
    finally show ?thesis
      using True k q stop w plain by (simp add: hand_over_def)
  qed
qed


definition unbuffered_manager :: sockets where
  "unbuffered_manager = created 5 (sockets_New (Config_default\<lparr>WriteChanSize := 0\<rparr>))"

lemma unbuffered_manager_facts:
  "ss_inv sample_env unbuffered_manager"
  "ss_heap unbuffered_manager 0 = Some (fresh_socket 1 0\<lparr>sk_conn := Some 5, sk_stop := Some False,
     sk_status := SocketStatusConnected, sk_heartbeat := 0\<rparr>)"
  unfolding unbuffered_manager_def
  by (rule created_keeps [OF ss_inv_New])
    (simp_all add: sockets_New_def Config_default_def created_def go_start_def sock_Emit_def Let_def)

theorem unbuffered_is_one_place_witness:
  "sock_Write True 0 new_message [] unbuffered_manager = (Blocked, unbuffered_manager)
    \<and> sock_Write True 0 new_message [False] unbuffered_manager
        = (Err (ErrNew ''socket write channel full''), unbuffered_manager)
    \<and> fst (hand_over sample_env True None 0 new_message unbuffered_manager) = Ok ()"
proof -
  note at = unbuffered_is_one_place [OF unbuffered_manager_facts, of True new_message]
  show ?thesis
    using conjunct2 [OF at [of "[]" None True]] conjunct2 [OF at [of "[False]" None True]]
    by (simp add: IsReady_def hand_over_def unbuffered_manager_facts fresh_socket_def make_chan_def)
qed

end
