(* ===== verification/Registration.thy ===== *)
theory Registration
  imports Shutdown
begin

text \<open>
  How a listener gets into the manager's list. \<open>Sockets.Accept\<close> starts a goroutine and returns; the
  goroutine appends the listener to \<open>ss.instance\<close>, without a lock. \<open>Manager\<close> does this in one
  piece; here the append is cut into its accesses: the slice header is read, the element is written
  into its array or into a larger one, and the new header is stored.
\<close>

section \<open>Steps\<close>

text \<open>
  The goroutine of a listener: not started, started by \<open>Accept\<close>, with a header read (an array and a
  length), with the appended header, in its accept loop. \<open>li_arrays\<close> are the arrays there are, with
  their capacity, zero where nothing was written; \<open>round\<close> is the allocator's rounding.
\<close>

datatype apc = NotCalled | Called | Loaded nat nat | Appended nat nat | Serving

record listing =
  li_arrays :: "nat \<Rightarrow> nat list"
  li_next :: nat
  li_header :: "nat \<times> nat"
  li_pc :: "nat \<Rightarrow> apc"

definition at_pc :: "nat \<Rightarrow> apc \<Rightarrow> listing \<Rightarrow> listing" where
  "at_pc ln c x = x\<lparr>li_pc := (li_pc x)(ln := c)\<rparr>"

definition set_array :: "nat \<Rightarrow> nat list \<Rightarrow> listing \<Rightarrow> listing" where
  "set_array a xs x = x\<lparr>li_arrays := (li_arrays x)(a := xs)\<rparr>"

inductive li_step :: "(nat \<Rightarrow> nat) \<Rightarrow> listing \<Rightarrow> listing \<Rightarrow> bool" for round where
  call: "li_pc x ln = NotCalled \<Longrightarrow> li_step round x (at_pc ln Called x)"
| load: "li_pc x ln = Called \<Longrightarrow>
    li_step round x (at_pc ln (Loaded (fst (li_header x)) (snd (li_header x))) x)"
| append_in: "li_pc x ln = Loaded a n \<Longrightarrow> n < length (li_arrays x a) \<Longrightarrow>
    li_step round x (at_pc ln (Appended a (Suc n)) (set_array a ((li_arrays x a)[n := ln]) x))"
| append_new: "li_pc x ln = Loaded a n \<Longrightarrow> length (li_arrays x a) \<le> n \<Longrightarrow>
    li_step round x (at_pc ln (Appended (li_next x) (Suc n))
      (set_array (li_next x) (take n (li_arrays x a) @ ln # replicate (round (Suc n) - Suc n) 0)
        (x\<lparr>li_next := Suc (li_next x)\<rparr>)))"
| store: "li_pc x ln = Appended a n \<Longrightarrow>
    li_step round x (at_pc ln Serving (x\<lparr>li_header := (a, n)\<rparr>))"

text \<open>The list, and the state of a new manager, whose list is nil.\<close>

definition listed :: "listing \<Rightarrow> nat list" where
  "listed x = take (snd (li_header x)) (li_arrays x (fst (li_header x)))"

definition li_start :: listing where
  "li_start = \<lparr>li_arrays = (\<lambda>_. []), li_next = 1, li_header = (0, 0), li_pc = (\<lambda>_. NotCalled)\<rparr>"

lemma at_pc_simps [simp]:
  "li_arrays (at_pc ln c x) = li_arrays x" "li_next (at_pc ln c x) = li_next x"
  "li_header (at_pc ln c x) = li_header x" "li_pc (at_pc ln c x) = (li_pc x)(ln := c)"
  "li_arrays (set_array a xs x) = (li_arrays x)(a := xs)" "li_next (set_array a xs x) = li_next x"
  "li_header (set_array a xs x) = li_header x" "li_pc (set_array a xs x) = li_pc x"
  by (simp_all add: at_pc_def set_array_def)

section \<open>What holds however they interleave\<close>

text \<open>A header is sound: it stays within an array that exists, and its elements were appended.\<close>

definition appended :: "listing \<Rightarrow> nat set" where
  "appended x = {ln. (\<exists>a n. li_pc x ln = Appended a n) \<or> li_pc x ln = Serving}"

definition sound :: "listing \<Rightarrow> nat \<Rightarrow> nat \<Rightarrow> bool" where
  "sound x a n \<longleftrightarrow> a < li_next x \<and> n \<le> length (li_arrays x a) \<and> set (take n (li_arrays x a)) \<subseteq> appended x"

definition li_inv :: "listing \<Rightarrow> bool" where
  "li_inv x \<longleftrightarrow> sound x (fst (li_header x)) (snd (li_header x))
     \<and> (\<forall>ln a n. li_pc x ln = Loaded a n \<or> li_pc x ln = Appended a n \<longrightarrow> sound x a n)"

text \<open>A step that appends more and writes only appended listeners into an array keeps headers sound.\<close>

lemma sound_mono:
  "sound x a n \<Longrightarrow> li_arrays y a = li_arrays x a \<Longrightarrow> li_next x \<le> li_next y \<Longrightarrow> appended x \<subseteq> appended y \<Longrightarrow>
   sound y a n"
  by (auto simp: sound_def)

lemma sound_write:
  assumes "sound x a n" "li_arrays y b = (li_arrays x b)[i := ln]" "\<And>c. c \<noteq> b \<Longrightarrow> li_arrays y c = li_arrays x c"
    and "li_next x \<le> li_next y" "appended x \<subseteq> appended y" "ln \<in> appended y"
  shows "sound y a n"
proof (cases "a = b")
  case True
  have "set (take n ((li_arrays x b)[i := ln])) \<subseteq> insert ln (set (take n (li_arrays x b)))"
    using set_update_subset_insert [of "take n (li_arrays x b)" i ln] by (simp add: take_update_swap)
  then show ?thesis using assms True by (auto simp: sound_def)
qed (use assms sound_mono in auto)


lemma li_step_keeps: "li_step round x y \<Longrightarrow> li_inv x \<Longrightarrow> li_inv y"
proof (induction rule: li_step.induct)
  case (call x ln)
  have "sound (at_pc ln Called x) a n" if "sound x a n" for a n
    by (rule sound_mono [OF that]) (use call in \<open>auto simp: appended_def\<close>)
  then show ?case using call(2) by (auto simp: li_inv_def split: if_splits)
next
  case (load x ln)
  have "sound (at_pc ln c x) a n" if "sound x a n" for a n c
    by (rule sound_mono [OF that]) (use load in \<open>auto simp: appended_def\<close>)
  then show ?case using load(2) by (auto simp: li_inv_def split: if_splits)
next
  case (append_in x ln a n)
  let ?y = "at_pc ln (Appended a (Suc n)) (set_array a ((li_arrays x a)[n := ln]) x)"
  have more: "appended x \<subseteq> appended ?y" "ln \<in> appended ?y" by (auto simp: appended_def)
  have keep: "sound ?y b k" if "sound x b k" for b k
    by (rule sound_write [OF that, of _ a n ln]) (use more in auto)
  have "sound x a n" using append_in(1,3) by (simp add: li_inv_def)
  moreover have "take (Suc n) ((li_arrays x a)[n := ln]) = take n (li_arrays x a) @ [ln]"
    using append_in(2) by (simp add: take_Suc_conv_app_nth)
  ultimately have "sound ?y a (Suc n)" using more append_in(2) by (auto simp: sound_def)
  then show ?case using keep append_in(3) by (auto simp: li_inv_def split: if_splits)
next
  case (append_new x ln a n)
  let ?b = "li_next x"
  let ?y = "at_pc ln (Appended ?b (Suc n)) (set_array ?b (take n (li_arrays x a) @ ln # replicate (round (Suc n) - Suc n) 0)
        (x\<lparr>li_next := Suc ?b\<rparr>))"
  have more: "appended x \<subseteq> appended ?y" "ln \<in> appended ?y" by (auto simp: appended_def)
  have keep: "sound ?y c k" if "sound x c k" for c k
    by (rule sound_mono [OF that]) (use more that in \<open>auto simp: sound_def\<close>)
  have "sound x a n" using append_new(1,3) by (simp add: li_inv_def)
  then have "sound ?y ?b (Suc n)" using more append_new(2) by (auto simp: sound_def)
  then show ?case using keep append_new(3) by (auto simp: li_inv_def split: if_splits)
next
  case (store x ln a n)
  let ?y = "at_pc ln Serving (x\<lparr>li_header := (a, n)\<rparr>)"
  have keep: "sound ?y b k" if "sound x b k" for b k
    by (rule sound_mono [OF that]) (auto simp: appended_def)
  have "sound x a n" using store by (simp add: li_inv_def)
  then show ?case using keep store(2) by (auto simp: li_inv_def split: if_splits)
qed

interpretation li: step_invariant "li_step round" li_inv for round
  by unfold_locales (rule li_step_keeps)

lemma li_inv_start: "li_inv li_start"
  by (simp add: li_inv_def li_start_def sound_def)

section \<open>One after the other\<close>

text \<open>An \<open>Accept\<close> whose goroutine is not interrupted until it has stored the header.\<close>

lemma one_Accept:
  assumes inv: "li_inv x" and pc: "li_pc x ln = NotCalled"
  obtains y where "(li_step round)\<^sup>*\<^sup>* x y" "listed y = listed x @ [ln]" "li_pc y = (li_pc x)(ln := Serving)"
proof -
  note out = that
  let ?a = "fst (li_header x)" and ?n = "snd (li_header x)"
  let ?x1 = "at_pc ln Called x" let ?x2 = "at_pc ln (Loaded ?a ?n) ?x1"
  have "li_step round x ?x1" by (rule li_step.call [OF pc])
  moreover have "li_step round ?x1 ?x2" using li_step.load [of ?x1 ln round] by simp
  ultimately have run2: "(li_step round)\<^sup>*\<^sup>* x ?x2" by (rule converse_rtranclp_into_rtranclp [OF _ r_into_rtranclp])
  have n: "?n \<le> length (li_arrays x ?a)" using inv by (simp add: li_inv_def sound_def)
  have fin: thesis if "li_step round ?x2 x3" "li_pc x3 = (li_pc x)(ln := Appended b (Suc ?n))"
      "take (Suc ?n) (li_arrays x3 b) = listed x @ [ln]" for x3 b
  proof (rule out [where y = "at_pc ln Serving (x3\<lparr>li_header := (b, Suc ?n)\<rparr>)"])
    have "li_step round x3 (at_pc ln Serving (x3\<lparr>li_header := (b, Suc ?n)\<rparr>))"
      by (rule li_step.store) (simp add: that(2))
    with run2 that(1) show "(li_step round)\<^sup>*\<^sup>* x (at_pc ln Serving (x3\<lparr>li_header := (b, Suc ?n)\<rparr>))"
      by (meson rtranclp.rtrancl_into_rtrancl)
  qed (use that in \<open>simp_all add: listed_def\<close>)
  show thesis
  proof (cases "?n < length (li_arrays x ?a)")
    case True
    have "li_step round ?x2 (at_pc ln (Appended ?a (Suc ?n)) (set_array ?a ((li_arrays x ?a)[?n := ln]) ?x2))"
      using li_step.append_in [of ?x2 ln ?a ?n round] True by simp
    then show thesis
      by (rule fin [where b = ?a]) (use True in \<open>simp_all add: listed_def take_Suc_conv_app_nth\<close>)
  next
    case False
    have "li_step round ?x2 (at_pc ln (Appended (li_next x) (Suc ?n)) (set_array (li_next x)
        (take ?n (li_arrays x ?a) @ ln # replicate (round (Suc ?n) - Suc ?n) 0) (?x2\<lparr>li_next := Suc (li_next x)\<rparr>)))"
      using li_step.append_new [of ?x2 ln ?a ?n round] False by simp
    then show thesis by (rule fin [where b = "li_next x"]) (use n in \<open>simp_all add: listed_def\<close>)
  qed
qed


lemma sequential_Accepts:
  "li_inv x \<Longrightarrow> distinct lns \<Longrightarrow> \<forall>ln \<in> set lns. li_pc x ln = NotCalled \<Longrightarrow>
   \<exists>y. (li_step round)\<^sup>*\<^sup>* x y \<and> listed y = listed x @ lns \<and> (\<forall>ln \<in> set lns. li_pc y ln = Serving)
     \<and> (\<forall>ln. ln \<notin> set lns \<longrightarrow> li_pc y ln = li_pc x ln)"
proof (induction lns arbitrary: x)
  case Nil
  then show ?case by (intro exI [of _ x]) simp
next
  case (Cons ln lns)
  obtain y where y: "(li_step round)\<^sup>*\<^sup>* x y" "listed y = listed x @ [ln]" "li_pc y = (li_pc x)(ln := Serving)"
    using one_Accept [OF Cons.prems(1), of ln round] Cons.prems(3) by auto
  have "li_inv y" by (rule li.run_keeps [OF y(1) Cons.prems(1)])
  moreover have "\<forall>l \<in> set lns. li_pc y l = NotCalled" using y(3) Cons.prems(2,3) by auto
  ultimately obtain z where "(li_step round)\<^sup>*\<^sup>* y z" "listed z = listed y @ lns" "\<forall>l \<in> set lns. li_pc z l = Serving"
      "\<forall>l. l \<notin> set lns \<longrightarrow> li_pc z l = li_pc y l"
    using Cons.IH [of y] Cons.prems(2) by auto
  then show ?case using y Cons.prems(2) by (intro exI [of _ z]) auto
qed

section \<open>Two at once\<close>

text \<open>
  C39. A listener can be missing from the manager's list. Listeners that are entered one after the
  other are all there, in order, and whatever the interleaving nothing but listeners whose \<open>Accept\<close>
  was called gets in. But \<open>Accept\<close> returns before its goroutine has entered the listener, and two
  goroutines that read the same list store two lists of the same length: there is a run after which
  both serve and the list holds the second only. \<open>stop\<close> then closes that one, and the accept loop of
  the other, idle, listener waits for ever.
\<close>

theorem listener_can_be_lost:
  "(distinct lns \<longrightarrow> (\<exists>x. (li_step round)\<^sup>*\<^sup>* li_start x \<and> listed x = lns \<and> (\<forall>ln \<in> set lns. li_pc x ln = Serving)))
    \<and> (\<forall>x. (li_step round)\<^sup>*\<^sup>* li_start x \<longrightarrow> set (listed x) \<subseteq> {ln. li_pc x ln \<noteq> NotCalled})
    \<and> (\<exists>x. (li_step round)\<^sup>*\<^sup>* li_start x \<and> li_pc x 1 = Serving \<and> li_pc x 2 = Serving \<and> listed x = [2]
        \<and> (\<forall>w u. \<not> tl_closed (w 1) \<and> tl_events (w 1) = [] \<longrightarrow>
            (\<exists>w'. sockets_stop tcp_Close_at (listed x) w = (Ok (), w') \<and> tl_closed (w' 2)
              \<and> accept_go tcp_Accept tcp_Close (\<lambda>_. False) (\<lambda>_. False) 1 (w' 1) u = Some (Blocked, (w' 1, u)))))"
proof (intro conjI)
  show "distinct lns \<longrightarrow> (\<exists>x. (li_step round)\<^sup>*\<^sup>* li_start x \<and> listed x = lns \<and> (\<forall>ln \<in> set lns. li_pc x ln = Serving))"
    using sequential_Accepts [OF li_inv_start, of lns round] by (auto simp: li_start_def listed_def)
  show "\<forall>x. (li_step round)\<^sup>*\<^sup>* li_start x \<longrightarrow> set (listed x) \<subseteq> {ln. li_pc x ln \<noteq> NotCalled}"
    using li.run_keeps [OF _ li_inv_start] by (fastforce simp: li_inv_def sound_def listed_def appended_def)
  let ?r = "\<lambda>ln. ln # replicate (round (Suc 0) - Suc 0) 0"
  let ?x1 = "at_pc 1 Called li_start" let ?x2 = "at_pc 2 Called ?x1"
  let ?x3 = "at_pc 1 (Loaded 0 0) ?x2" let ?x4 = "at_pc 2 (Loaded 0 0) ?x3"
  let ?x5 = "at_pc 1 (Appended 1 (Suc 0)) (set_array 1 (?r 1) (?x4\<lparr>li_next := 2\<rparr>))"
  let ?x6 = "at_pc 2 (Appended 2 (Suc 0)) (set_array 2 (?r 2) (?x5\<lparr>li_next := 3\<rparr>))"
  let ?x7 = "at_pc 1 Serving (?x6\<lparr>li_header := (1, Suc 0)\<rparr>)"
  let ?x = "at_pc 2 Serving (?x7\<lparr>li_header := (2, Suc 0)\<rparr>)"
  have s: "li_step round li_start ?x1" "li_step round ?x1 ?x2"
    by (rule li_step.call; simp add: li_start_def)+
  have "li_step round ?x2 ?x3" "li_step round ?x3 ?x4"
    using li_step.load [of ?x2 1 round] li_step.load [of ?x3 2 round] by (simp_all add: li_start_def)
  moreover have "li_step round ?x4 ?x5"
    using li_step.append_new [of ?x4 1 0 0 round] by (simp add: li_start_def numeral_2_eq_2)
  moreover have "li_step round ?x5 ?x6"
    using li_step.append_new [of ?x5 2 0 0 round] by (simp add: li_start_def numeral_2_eq_2 numeral_3_eq_3)
  moreover have "li_step round ?x6 ?x7" "li_step round ?x7 ?x"
    by (rule li_step.store; simp)+
  ultimately have run: "(li_step round)\<^sup>*\<^sup>* li_start ?x"
    using s by (meson rtranclp.rtrancl_refl rtranclp.rtrancl_into_rtrancl)
  have list: "listed ?x = [2]" by (simp add: listed_def)
  have lost: "\<exists>w'. sockets_stop tcp_Close_at (listed ?x) w = (Ok (), w') \<and> tl_closed (w' 2)
      \<and> accept_go tcp_Accept tcp_Close (\<lambda>_. False) (\<lambda>_. False) 1 (w' 1) u = Some (Blocked, (w' 1, u))"
    if w: "\<not> tl_closed (w 1) \<and> tl_events (w 1) = []" for w u
  proof -
    obtain y l where c: "tcp_Close (w 2) = (y, l)" "tl_closed l" "y \<noteq> Panic" "y \<noteq> Blocked"
      by (cases "tl_closed (w 2)") (auto simp: tcp_Close_def)
    then have "sockets_stop tcp_Close_at (listed ?x) w = (Ok (), w(2 := l))"
      unfolding list by (cases y) (simp_all add: tcp_Close_at_def)
    moreover have "accept_loop tcp_Accept (\<lambda>_. False) (\<lambda>_. False) 0 (w 1) u = Some (Blocked, (w 1, u))"
      using w by (subst accept_loop.simps) (simp add: tcp_Accept_def)
    then have "accept_go tcp_Accept tcp_Close (\<lambda>_. False) (\<lambda>_. False) 1 (w 1) u = Some (Blocked, (w 1, u))"
      by (simp add: accept_go_def)
    ultimately show ?thesis using c(2) by (intro exI [of _ "w(2 := l)"]) simp
  qed
  show "\<exists>x. (li_step round)\<^sup>*\<^sup>* li_start x \<and> li_pc x 1 = Serving \<and> li_pc x 2 = Serving \<and> listed x = [2]
        \<and> (\<forall>w u. \<not> tl_closed (w 1) \<and> tl_events (w 1) = [] \<longrightarrow>
            (\<exists>w'. sockets_stop tcp_Close_at (listed x) w = (Ok (), w') \<and> tl_closed (w' 2)
              \<and> accept_go tcp_Accept tcp_Close (\<lambda>_. False) (\<lambda>_. False) 1 (w' 1) u = Some (Blocked, (w' 1, u))))"
    using run list lost by (intro exI [of _ ?x]) simp
qed

text \<open>Two listeners in a row, and the lost one.\<close>

theorem listener_can_be_lost_witness:
  "(\<exists>x. (li_step id)\<^sup>*\<^sup>* li_start x \<and> listed x = [4, 7])
    \<and> (\<exists>x. (li_step id)\<^sup>*\<^sup>* li_start x \<and> li_pc x 1 = Serving \<and> listed x = [2])"
  using listener_can_be_lost [of "[4, 7]" id] by (simp, blast)

end
