(* ===== verification/Callbacks.thy ===== *)
theory Callbacks
  imports Isolation Heartbeats
begin

text \<open>
  Event listeners that panic. In the other theories the application's listeners are recorded and
  always return; here each call of a listener may panic (\<open>bad\<close>), the rest of the listeners of that
  event are then not called, and the panic runs up to the \<open>recover\<close> of the operation that emitted
  the event, if it has one. Where no listener panics the operations are the ones of \<open>Socket\<close>,
  \<open>Sockets\<close> and \<open>Handler\<close>.
\<close>

section \<open>Emitting\<close>

fun run_listeners :: "(call \<Rightarrow> bool) \<Rightarrow> call list \<Rightarrow> sockets \<Rightarrow> (unit, sockets) run" where
  "run_listeners bad [] s = (Ok (), s)"
| "run_listeners bad (c # cs) s =
     (let s = s\<lparr>ss_calls := ss_calls s @ [c]\<rparr> in if bad c then (Panic, s) else run_listeners bad cs s)"

definition listener_calls :: "event_type \<Rightarrow> nat option \<Rightarrow> attachment list \<Rightarrow> sockets \<Rightarrow> call list" where
  "listener_calls ev p attach s =
     map (\<lambda>f. \<lparr>c_fun = f, c_sock = p, c_arg = (case attach of [] \<Rightarrow> ANil | a # _ \<Rightarrow> a)\<rparr>) (ss_emitter s ev)"

definition try_Emit ::
  "(call \<Rightarrow> bool) \<Rightarrow> event_type \<Rightarrow> nat option \<Rightarrow> attachment list \<Rightarrow> sockets \<Rightarrow> (unit, sockets) run" where
  "try_Emit bad ev p attach s = run_listeners bad (listener_calls ev p attach s) s"

text \<open>\<open>Errorf\<close> recovers by itself.\<close>

definition try_Errorf :: "(call \<Rightarrow> bool) \<Rightarrow> nat option \<Rightarrow> err \<Rightarrow> sockets \<Rightarrow> (unit, sockets) run" where
  "try_Errorf bad p er s = recovered () (try_Emit bad EventTypeError p [AErr er] s)"

section \<open>Connecting and disconnecting\<close>

definition try_connect :: "(call \<Rightarrow> bool) \<Rightarrow> nat \<Rightarrow> nat \<Rightarrow> sockets \<Rightarrow> (unit, sockets) run" where
  "try_connect bad p conn s =
     and_then (try_Emit bad EventTypeConnected (Some p) []
        (upd p (\<lambda>k. k\<lparr>sk_conn := Some conn, sk_stop := Some False,
                      sk_status := SocketStatusConnected, sk_heartbeat := 0\<rparr>) s))
       (\<lambda>_ s. (Ok (), go_start [TRead p, TWrite p] s))"

definition try_disconnect_body :: "(call \<Rightarrow> bool) \<Rightarrow> env \<Rightarrow> nat \<Rightarrow> sockets \<Rightarrow> (bool, sockets) run" where
  "try_disconnect_body bad e p s =
     (if sk_stop (sock p s) \<noteq> Some False then (Panic, s)
      else
        and_then (try_Emit bad EventTypeDisconnect (Some p) []
            (close_conn p (upd p (\<lambda>k. k\<lparr>sk_stop := Some True\<rparr>) s)))
          (\<lambda>_ s.
            if sock_Type (sock p s) = SocketTypeClient then
              (case tryReconnect p (upd p (\<lambda>k. k\<lparr>sk_status := SocketStatusReconnecting\<rparr>) s) of
                 (b, s) \<Rightarrow> (Ok b, s))
            else
              (case release e p (upd p (\<lambda>k. k\<lparr>sk_status := SocketStatusDisconnected\<rparr>) s) of
                 (x, s) \<Rightarrow> (map_outcome (\<lambda>_. True) x, s))))"

definition try_disconnect :: "(call \<Rightarrow> bool) \<Rightarrow> env \<Rightarrow> nat \<Rightarrow> sockets \<Rightarrow> (bool, sockets) run" where
  "try_disconnect bad e p s =
     (if \<not> isValidStatus (sk_status (sock p s)) then (Ok False, s)
      else recovered False
        (try_disconnect_body bad e p (upd p (\<lambda>k. k\<lparr>sk_status := SocketStatusDisconnect\<rparr>) s)))"

text \<open>The reconnection runs in a goroutine of its own, without a \<open>recover\<close> in this repository.\<close>

definition try_reconnect_done ::
  "(call \<Rightarrow> bool) \<Rightarrow> env \<Rightarrow> nat \<Rightarrow> nat option \<Rightarrow> sockets \<Rightarrow> (unit, sockets) run" where
  "try_reconnect_done bad e p r s =
     (let s = s\<lparr>ss_tasks := remove1 (TReconnect p) (ss_tasks s)\<rparr> in
      case r of Some conn \<Rightarrow> try_connect bad p conn s | None \<Rightarrow> release e p s)"

text \<open>\<open>Create\<close> has counted the socket and put it into the table when it connects it.\<close>

definition try_Create :: "(call \<Rightarrow> bool) \<Rightarrow> bool \<Rightarrow> nat \<Rightarrow> sockets \<Rightarrow> (nat, sockets) run" where
  "try_Create bad stopped conn s =
     (if stopped then (Err (ErrNew ''server closed''), s)
      else if sint (ConnectMaxSize (ss_opts s)) > 0
              \<and> sint (ss_count s) \<ge> sint (ConnectMaxSize (ss_opts s))
      then (Err (ErrNew ''max connections reached''), s\<lparr>ss_closed := ss_closed s @ [conn]\<rparr>)
      else
        let s = s\<lparr>ss_index := ss_index s + 1\<rparr>; n = sint (WriteChanSize (ss_opts s)) in
        if n < 0 then (Panic, s)
        else
          let p = ss_next s; i = ss_index s;
              s = s\<lparr>ss_heap := (ss_heap s)(p \<mapsto> fresh_socket i (nat n)), ss_next := Suc p\<rparr>;
              s = s\<lparr>ss_sockets := (ss_sockets s)(i \<mapsto> p)\<rparr>;
              s = s\<lparr>ss_count := ss_count s + 1\<rparr>
          in and_then (try_connect bad p conn s) (\<lambda>_ s. (Ok p, s)))"

text \<open>A turn of the accept loop; a panic ends the loop, whose goroutine then closes the listener.\<close>

definition try_accept_turn :: "(call \<Rightarrow> bool) \<Rightarrow> bool \<Rightarrow> err + nat \<Rightarrow> sockets \<Rightarrow> (bool, sockets) run" where
  "try_accept_turn bad stopped r s =
     (case r of
        Inl er \<Rightarrow> (Ok (\<not> errors_is er ErrNetClosed), s)
      | Inr conn \<Rightarrow>
          (case try_Create bad stopped conn s of
             (Ok _, s) \<Rightarrow> (Ok True, s)
           | (Err er, s) \<Rightarrow> (Ok (\<not> errors_is er ErrNetClosed), s)
           | (x, s) \<Rightarrow> (map_outcome (\<lambda>_. True) x, s)))"

section \<open>The other operations that emit\<close>

definition try_Authentication ::
  "(call \<Rightarrow> bool) \<Rightarrow> nat \<Rightarrow> nat option \<Rightarrow> bool list \<Rightarrow> sockets \<Rightarrow> (unit, sockets) run" where
  "try_Authentication bad p v reconnect s =
     (let s = upd p (\<lambda>k. k\<lparr>sk_data := v\<rparr>) s;
          r = (case reconnect of [] \<Rightarrow> False | b # _ \<Rightarrow> b) in
      and_then (try_Emit bad EventTypeAuthentication (Some p) [ABool r] s) (\<lambda>_ s.
        if r then try_Emit bad EventTypeReconnected (Some p) [] s else (Ok (), s)))"

definition try_Replaced :: "(call \<Rightarrow> bool) \<Rightarrow> nat \<Rightarrow> bytes \<Rightarrow> sockets \<Rightarrow> (unit, sockets) run" where
  "try_Replaced bad p ip s =
     and_then (try_Emit bad EventTypeReplaced (Some p) [ABytes ip] s) (\<lambda>_ s.
       let s = upd p (\<lambda>k. k\<lparr>sk_data := None\<rparr>) s in
       (Ok (), Close p [SocketReplacedTime (gl_opts s)] s))"

definition try_Heartbeat :: "(call \<Rightarrow> bool) \<Rightarrow> env \<Rightarrow> i32 \<Rightarrow> nat \<Rightarrow> sockets \<Rightarrow> (i32, sockets) run" where
  "try_Heartbeat bad e v p s =
     (if \<not> isValidStatus (sk_status (sock p s)) then (Ok (sk_heartbeat (sock p s)), s)
      else
        let s = upd p (\<lambda>k. k\<lparr>sk_heartbeat := sk_heartbeat k + v\<rparr>) s;
            limit = sint (SocketConnectTime (gl_opts s)) in
        and_then
          (if limit > 0 \<and> sint (sk_heartbeat (sock p s)) > limit
           then and_then (try_disconnect bad e p s) (\<lambda>_ s. (Ok (), s))
           else try_Emit bad EventTypeHeartbeat (Some p) [AInt v] s)
          (\<lambda>_ s. (Ok (sk_heartbeat (sock p s)), s)))"

definition try_sockets_Heartbeat ::
  "(call \<Rightarrow> bool) \<Rightarrow> env \<Rightarrow> i32 \<Rightarrow> u64 list \<Rightarrow> sockets \<Rightarrow> (unit, sockets) run" where
  "try_sockets_Heartbeat bad e v order s =
     Range (\<lambda>p s. and_then (try_Heartbeat bad e v p s) (\<lambda>_ s. (Ok True, s))) order s"

text \<open>Dispatch: an event for a path nobody registered, and the errors, inside the \<open>recover\<close> of \<open>handle\<close>.\<close>

definition try_handle ::
  "(call \<Rightarrow> bool) \<Rightarrow> env \<Rightarrow> registry \<Rightarrow> nat option \<Rightarrow> bool \<Rightarrow> nat \<Rightarrow> message \<Rightarrow> sockets \<Rightarrow> (unit, sockets) run" where
  "try_handle bad e search pk pick p m s =
     (case (case Path e m of
        (Err er, m) \<Rightarrow> try_Errorf bad (Some p) (ErrText ''message path error'' er) s
      | (Ok (path, _), m) \<Rightarrow>
          (case search path of
             None \<Rightarrow> try_Emit bad EventTypeMessage (Some p) [AMessage m] s
           | Some (nd, OtherHandler) \<Rightarrow> (Panic, s)
           | Some (nd, NilHandler) \<Rightarrow> try_Errorf bad (Some p) (ErrNew ''no handler'') s
           | Some (nd, OwnHandler h) \<Rightarrow>
               and_then (handler_handle h nd p m, s) (\<lambda>reply s.
                 case handler_reply e pk pick h p m reply s of
                   (Err er, s) \<Rightarrow> try_Errorf bad (Some p) (ErrText ''write reply message error'' er) s
                 | r \<Rightarrow> r))
      | (x, _) \<Rightarrow> (done_with x, s)) of
        (Panic, s) \<Rightarrow> try_Errorf bad (Some p) (ErrNew ''server handle error'') s
      | r \<Rightarrow> r)"

section \<open>Listeners that return\<close>

lemma calm_listeners:
  "\<forall>c \<in> set cs. \<not> bad c \<Longrightarrow> run_listeners bad cs s = (Ok (), s\<lparr>ss_calls := ss_calls s @ cs\<rparr>)"
  by (induction cs arbitrary: s) simp_all

lemma calm_Emit:
  assumes "\<And>c. \<not> bad c"
  shows "try_Emit bad ev p a s = (Ok (), Emit ev p a s)"
  using assms by (simp add: try_Emit_def calm_listeners Emit_def listener_calls_def Let_def)

lemma calm_Errorf:
  assumes "\<And>c. \<not> bad c"
  shows "try_Errorf bad p er s = (Ok (), Errorf p er s)"
  by (simp add: try_Errorf_def calm_Emit [OF assms] Errorf_def recovered_def)

lemma calm_connect:
  assumes "\<And>c. \<not> bad c"
  shows "try_connect bad p conn s = (Ok (), connect p conn s)"
  by (simp add: try_connect_def calm_Emit [OF assms] connect_def sock_Emit_def)

lemma calm_disconnect:
  assumes "\<And>c. \<not> bad c"
  shows "try_disconnect bad e p s = disconnect e p s"
  by (simp add: try_disconnect_def try_disconnect_body_def disconnect_def disconnect_body_def
      calm_Emit [OF assms] sock_Emit_def Let_def)

lemma calm_Create:
  assumes "\<And>c. \<not> bad c"
  shows "try_Create bad stopped conn s = Create stopped conn s"
  by (simp add: try_Create_def Create_def calm_connect [OF assms] Let_def)

lemma calm_Heartbeat:
  assumes "\<And>c. \<not> bad c"
  shows "try_Heartbeat bad e v p s = sock_Heartbeat e v p s"
  by (simp add: try_Heartbeat_def sock_Heartbeat_def calm_disconnect [OF assms] calm_Emit [OF assms] sock_Emit_def
      and_then_assoc Let_def)


lemma calm_accept_turn:
  assumes "\<And>c. \<not> bad c"
  shows "try_accept_turn bad stopped r s = accept_turn stopped r s"
  unfolding try_accept_turn_def accept_turn_def calm_Create [OF assms] ..

lemma calm_handle:
  assumes "\<And>c. \<not> bad c"
  shows "try_handle bad e search pk pick p m s = sock_handle e search pk pick p m s"
  unfolding try_handle_def sock_handle_def handle_body_def calm_Emit [OF assms] calm_Errorf [OF assms] sock_Emit_def ..

text \<open>
  Recording listeners is faithful as long as they return: when no listener panics, every operation
  with panicking listeners is the operation of the manager's model, with the same result and the
  same state, for every socket, message, handler and connection.
\<close>

theorem calm_listeners_change_nothing:
  assumes calm: "\<And>c. \<not> bad c"
  shows "try_disconnect bad e p s = disconnect e p s \<and> try_Create bad stopped conn s = Create stopped conn s
    \<and> try_accept_turn bad stopped ar s = accept_turn stopped ar s
    \<and> try_reconnect_done bad e p r s = reconnect_done e p r s
    \<and> try_Authentication bad p d rc s = (Ok (), Authentication p d rc s)
    \<and> try_Replaced bad p ip s = (Ok (), Replaced p ip s)
    \<and> try_sockets_Heartbeat bad e v order s = sockets_Heartbeat e v order s
    \<and> try_handle bad e search pk pick p m s = sock_handle e search pk pick p m s"
proof -
  have "try_reconnect_done bad e p r s = reconnect_done e p r s"
    by (cases r) (simp_all add: try_reconnect_done_def reconnect_done_def calm_connect [OF calm])
  moreover have "try_Authentication bad p d rc s = (Ok (), Authentication p d rc s)"
    by (simp add: try_Authentication_def Authentication_def calm_Emit [OF calm] sock_Emit_def Let_def)
  moreover have "try_Replaced bad p ip s = (Ok (), Replaced p ip s)"
    by (simp add: try_Replaced_def Replaced_def calm_Emit [OF calm] sock_Emit_def Let_def)
  moreover have "try_sockets_Heartbeat bad e v order s = sockets_Heartbeat e v order s"
    by (simp add: try_sockets_Heartbeat_def sockets_Heartbeat_def calm_Heartbeat [OF calm])
  ultimately show ?thesis
    using calm_disconnect [where bad = bad, OF calm] calm_Create [where bad = bad, OF calm]
      calm_accept_turn [where bad = bad, OF calm] calm_handle [where bad = bad, OF calm] by simp
qed

theorem calm_listeners_change_nothing_witness:
  "try_disconnect (\<lambda>_. False) sample_env 0 sample_manager = disconnect sample_env 0 sample_manager"
  using calm_listeners_change_nothing [of "\<lambda>_. False"] by blast

section \<open>A listener that panics\<close>

lemma panicking_listener:
  assumes "\<exists>c \<in> set cs. bad c"
  shows "\<exists>ds. run_listeners bad cs s = (Panic, s\<lparr>ss_calls := ss_calls s @ ds\<rparr>) \<and> ds \<noteq> []
    \<and> (\<exists>es. cs = ds @ es) \<and> bad (last ds) \<and> (\<forall>c \<in> set (butlast ds). \<not> bad c)"
  using assms
proof (induction cs arbitrary: s)
  case (Cons c cs)
  show ?case
  proof (cases "bad c")
    case True
    then show ?thesis by (intro exI [of _ "[c]"]) simp
  next
    case False
    then have "\<exists>c \<in> set cs. bad c" using Cons.prems by simp
    let ?t = "s\<lparr>ss_calls := ss_calls s @ [c]\<rparr>"
    from Cons.IH [OF \<open>\<exists>c \<in> set cs. bad c\<close>, of ?t] obtain ds where ds:
      "run_listeners bad cs ?t = (Panic, ?t\<lparr>ss_calls := ss_calls ?t @ ds\<rparr>)" "ds \<noteq> []" "\<exists>es. cs = ds @ es" "bad (last ds)"
      "\<forall>c \<in> set (butlast ds). \<not> bad c" by blast
    then show ?thesis using False by (intro exI [of _ "c # ds"]) auto
  qed
qed simp

text \<open>A socket in the internal state of \<open>disconnect\<close> takes part in nothing any more.\<close>

definition stranded :: "socket \<Rightarrow> bool" where
  "stranded k \<longleftrightarrow> sk_status k = SocketStatusDisconnect"

lemma stranded_stays:
  assumes "ss_heap s p = Some k" "stranded k"
  shows "try_disconnect bad e p s = (Ok False, s)" "disconnect e p s = (Ok False, s)"
    "try_Heartbeat bad e v p s = (Ok (sk_heartbeat k), s)" "Close p delay s = s"
    "sock_Write pick p m safe s = (Err (ErrNew ''socket not ready''), s)"
  using assms
  by (simp_all add: stranded_def try_disconnect_def disconnect_def try_Heartbeat_def isValidStatus_def Close_def
      sock_Write_def IsReady_def)

text \<open>
  C36. A panicking listener strands the socket: when a listener of the disconnect event panics while a
  connection is being lost, the connection is closed, but the \<open>recover\<close> of \<open>disconnect\<close> leaves the
  socket in its internal state. It is not released and, as a client, not reconnected: it keeps its
  place in the table and in the counter, and no later disconnect, heartbeat or \<open>Close\<close> changes that.
\<close>

theorem panicking_listener_strands_socket:
  assumes inv: "ss_inv e s" and k: "ss_heap s p = Some k" "isValidStatus (sk_status k)"
    and bad: "f \<in> set (ss_emitter s EventTypeDisconnect)" "bad \<lparr>c_fun = f, c_sock = Some p, c_arg = ANil\<rparr>"
  shows "\<exists>t c k'. try_disconnect bad e p s = (Ok False, t) \<and> sk_conn k = Some c \<and> ss_closed t = ss_closed s @ [c]
    \<and> ss_heap t p = Some k' \<and> sk_conn k' = None \<and> items (sk_cwrite k') = items (sk_cwrite k)
    \<and> sockets_Get (sk_id k) t = Some p \<and> ss_count t = ss_count s \<and> ss_tasks t = ss_tasks s
    \<and> (\<forall>bad' v delay pick m safe. try_disconnect bad' e p t = (Ok False, t)
        \<and> try_Heartbeat bad' e v p t = (Ok (sk_heartbeat k), t) \<and> Close p delay t = t
        \<and> sock_Write pick p m safe t = (Err (ErrNew ''socket not ready''), t))"
proof -
  obtain c where c: "sk_status k \<in> {SocketStatusConnected, SocketStatusClosing}"
    "sk_stop k = Some False" "sk_conn k = Some c"
    using isValid_ok [OF ss_inv_facts(3) [OF inv k(1)] k(2)] by blast
  let ?k = "k\<lparr>sk_status := SocketStatusDisconnect, sk_stop := Some True, sk_conn := None\<rparr>"
  let ?u = "close_conn p (upd p (\<lambda>k. k\<lparr>sk_stop := Some True\<rparr>) (upd p (\<lambda>k. k\<lparr>sk_status := SocketStatusDisconnect\<rparr>) s))"
  have u: "ss_heap ?u p = Some ?k" "ss_closed ?u = ss_closed s @ [c]" "ss_sockets ?u = ss_sockets s"
    "ss_count ?u = ss_count s" "ss_tasks ?u = ss_tasks s" "ss_emitter ?u = ss_emitter s"
    using k c by (simp_all add: close_conn_def upd_def)
  have "\<exists>c \<in> set (listener_calls EventTypeDisconnect (Some p) [] ?u). bad c"
    using bad u(6) by (auto simp: listener_calls_def)
  from panicking_listener [where bad = bad, OF this, of ?u] obtain ds where
    "try_Emit bad EventTypeDisconnect (Some p) [] ?u = (Panic, ?u\<lparr>ss_calls := ss_calls ?u @ ds\<rparr>)"
    unfolding try_Emit_def by blast
  then have d: "try_disconnect bad e p s = (Ok False, ?u\<lparr>ss_calls := ss_calls ?u @ ds\<rparr>)" (is "_ = (_, ?t)")
    using k c by (simp add: try_disconnect_def try_disconnect_body_def recovered_def) (simp add: upd_def)
  have kt: "ss_heap ?t p = Some ?k" using u(1) by simp
  have "sk_status k \<noteq> SocketStatusReleased" using c(1) by auto
  then have "sockets_Get (sk_id k) ?t = Some p"
    using live_in_table [OF inv k(1)] u(3) by (simp add: sockets_Get_def)
  moreover have "stranded ?k" by (simp add: stranded_def)
  ultimately show ?thesis
    using d c u kt stranded_stays [OF kt] by (intro exI [of _ ?t] exI [of _ c] exI [of _ ?k]) simp
qed


text \<open>The sample manager with a listener of the disconnect event that panics.\<close>

theorem panicking_listener_strands_socket_witness:
  "\<exists>t. try_disconnect (\<lambda>c. c_fun c = 4) sample_env 0 (On EventTypeDisconnect 4 sample_manager) = (Ok False, t)
    \<and> sockets_Get 1 t = Some 0 \<and> ss_count t = 1 \<and> Close 0 [] t = t"
proof -
  have inv: "ss_inv sample_env (On EventTypeDisconnect 4 sample_manager)"
    using sample_manager_inv by (simp add: On_def)
  have k: "ss_heap (On EventTypeDisconnect 4 sample_manager) 0 = Some (sock 0 sample_manager)"
    by (simp add: On_def sample_manager_heap(1))
  show ?thesis
    using panicking_listener_strands_socket [OF inv k, of 4 "\<lambda>c. c_fun c = 4"]
    by (auto simp: On_def sample_manager_heap isValidStatus_def fresh_socket_def)
qed

text \<open>
  A listener of the connected event that panics: \<open>Create\<close> has put the socket into the table and
  counted it, and neither of its loops is started; the panic ends the accept loop, and with it the
  listener, or reaches the caller of \<open>Connect\<close>.
\<close>

theorem panicking_listener_ends_accepting:
  assumes w: "0 \<le> sint (WriteChanSize (ss_opts s))"
    and room: "0 < sint (ConnectMaxSize (ss_opts s)) \<longrightarrow> sint (ss_count s) < sint (ConnectMaxSize (ss_opts s))"
    and bad: "f \<in> set (ss_emitter s EventTypeConnected)" "bad \<lparr>c_fun = f, c_sock = Some (ss_next s), c_arg = ANil\<rparr>"
  shows "\<exists>t k. try_accept_turn bad False (Inr conn) s = (Panic, t) \<and> ss_heap t (ss_next s) = Some k
    \<and> sk_status k = SocketStatusConnected \<and> sk_conn k = Some conn \<and> ss_tasks t = ss_tasks s
    \<and> sockets_Get (ss_index s + 1) t = Some (ss_next s) \<and> ss_count t = ss_count s + 1"
proof -
  let ?p = "ss_next s" and ?i = "ss_index s + 1"
  let ?s = "s\<lparr>ss_index := ?i, ss_heap := (ss_heap s)(?p \<mapsto> fresh_socket ?i (nat (sint (WriteChanSize (ss_opts s))))),
    ss_next := Suc ?p, ss_sockets := (ss_sockets s)(?i \<mapsto> ?p), ss_count := ss_count s + 1\<rparr>"
  let ?u = "upd ?p (\<lambda>k. k\<lparr>sk_conn := Some conn, sk_stop := Some False, sk_status := SocketStatusConnected,
    sk_heartbeat := 0\<rparr>) ?s"
  have "\<exists>c \<in> set (listener_calls EventTypeConnected (Some ?p) [] ?u). bad c"
    using bad by (auto simp: listener_calls_def upd_def)
  from panicking_listener [where bad = bad, OF this, of ?u] obtain ds where
    em: "try_Emit bad EventTypeConnected (Some ?p) [] ?u = (Panic, ?u\<lparr>ss_calls := ss_calls ?u @ ds\<rparr>)"
    unfolding try_Emit_def by blast
  have "try_Create bad False conn s = and_then (try_connect bad ?p conn ?s) (\<lambda>_ s. (Ok ?p, s))"
    using w room by (auto simp: try_Create_def Let_def)
  also have "\<dots> = (Panic, ?u\<lparr>ss_calls := ss_calls ?u @ ds\<rparr>)" by (simp add: try_connect_def em)
  finally have "try_accept_turn bad False (Inr conn) s = (Panic, ?u\<lparr>ss_calls := ss_calls ?u @ ds\<rparr>)"
    by (simp add: try_accept_turn_def)
  then show ?thesis by (auto simp: upd_def sockets_Get_def)
qed

text \<open>
  A listener of the heartbeat event that panics ends the beat, and with it the daemon: the sockets
  that the enumeration had not reached do not age, neither now nor later.
\<close>

theorem panicking_listener_ends_beat:
  assumes p: "ss_sockets s i = Some p" "ss_heap s p = Some k" "isValidStatus (sk_status k)"
    and young: "\<not> expired (gl_opts s) (k\<lparr>sk_heartbeat := sk_heartbeat k + v\<rparr>)"
    and bad: "f \<in> set (ss_emitter s EventTypeHeartbeat)" "bad \<lparr>c_fun = f, c_sock = Some p, c_arg = AInt v\<rparr>"
  shows "\<exists>t. try_sockets_Heartbeat bad e v (i # order) s = (Panic, t)
    \<and> ss_heap t = (ss_heap s)(p \<mapsto> k\<lparr>sk_heartbeat := sk_heartbeat k + v\<rparr>)"
proof -
  let ?u = "upd p (\<lambda>k. k\<lparr>sk_heartbeat := sk_heartbeat k + v\<rparr>) s"
  have "\<exists>c \<in> set (listener_calls EventTypeHeartbeat (Some p) [AInt v] ?u). bad c"
    using bad by (auto simp: listener_calls_def upd_def)
  from panicking_listener [where bad = bad, OF this, of ?u] obtain ds where
    em: "try_Emit bad EventTypeHeartbeat (Some p) [AInt v] ?u = (Panic, ?u\<lparr>ss_calls := ss_calls ?u @ ds\<rparr>)"
    unfolding try_Emit_def by blast
  have ku: "sock p ?u = k\<lparr>sk_heartbeat := sk_heartbeat k + v\<rparr>" "gl_opts ?u = gl_opts s"
    using p(2) by (simp_all add: upd_def sock_def)
  have "try_Heartbeat bad e v p s = (Panic, ?u\<lparr>ss_calls := ss_calls ?u @ ds\<rparr>)"
    using p(2,3) young ku by (auto simp: try_Heartbeat_def expired_def em Let_def)
  then show ?thesis using p(1,2) by (simp add: try_sockets_Heartbeat_def) (simp add: upd_def)
qed

end
