(* ===== verification/Spec2Isabelle.thy ===== *)
theory Spec2Isabelle
  imports Tcp Udp Wss Manager MessageProperties TransportProperties SocketProperties Lifecycle
    Heartbeats Admission Addresses Listeners SocketApi DefaultManager MessageTypes EndToEnd
    ServerEnds SioEnds Dialled ConnApi Shutdown Delivery ByValue Isolation Activity CodeReplies Unbuffered
    Registration Callbacks
begin

text \<open>
  A verification library for cosnet, a Go library for message-based network servers and clients.

  The program. A manager (\<open>Sockets\<close>, in \<open>sockets.go\<close>) accepts connections from listeners and
  dials servers. Each connection becomes a \<open>Socket\<close> (\<open>socket.go\<close>) with a read loop and a write
  loop. The read loop takes a message object from a pool (\<open>message/pool.go\<close>), lets the
  connection fill it, looks the message's path up in a registry and passes it to a handler
  (\<open>handler.go\<close>), whose reply is marshalled into another object and queued; the write loop sends
  what is queued. A heartbeat disconnects idle sockets; a client socket reconnects. Connections
  exist over tcp, udp and websocket (\<open>tcp/\<close>, \<open>udp/\<close>, \<open>wss/\<close>), the last with an optional Socket.IO
  converter. A message (\<open>message/\<close>) has a ten-byte head and a body that starts with a path or a
  numeric code, depending on its magic number; large bodies are compressed.

  How the model is laid out, from the bottom up.
  \<^item> \<open>Prelude\<close>: integer widths, the ways a Go call ends (a value, an error, a panic, waiting),
    sequencing, errors, and the locale \<open>step_invariant\<close> of a machine with an invariant.
  \<^item> \<open>Slices\<close>, \<open>ByteOrder\<close>, \<open>Decimal\<close>, \<open>Chan\<close>: what the code uses of the language and its standard
    library: slices with their backing array, \<open>bytes.Buffer\<close>, \<open>encoding/binary\<close>, \<open>strconv\<close>,
    buffered channels. \<open>uint32_order\<close> and \<open>bounded_fifo\<close> are the interfaces, interpreted there.
  \<^item> \<open>Flags\<close>, \<open>Magic\<close>, \<open>Head\<close>, \<open>Message\<close>, \<open>Pool\<close>: the package \<open>message\<close>, function by function.
    \<open>MessageLaws\<close> holds its theory: the byte layout that \<open>Marshal\<close> implements, reading path and
    body back, and the wire form that \<open>Bytes\<close> writes and \<open>Reset\<close> reads.
  \<^item> \<open>Transport\<close> states the contract of a connection as a locale (a message that was put is got,
    and the rest of the traffic stays); \<open>Tcp\<close>, \<open>Udp\<close> and \<open>Wss\<close> model the packages and interpret it
    on their \<open>ReadMessage\<close> and \<open>WriteMessage\<close>. \<open>Udp\<close> also has the listener's table of peers, its
    lock and its invariant. \<open>SocketIO\<close> is the converter with its packet builders.
  \<^item> \<open>Socket\<close>, \<open>Sockets\<close>, \<open>Handler\<close>: \<open>socket.go\<close>, \<open>events.go\<close>, \<open>options.go\<close>, \<open>sockets.go\<close>, \<open>handler.go\<close> and
    \<open>context.go\<close>. A socket pointer is a number into \<open>ss_heap\<close>; the loops are given turn by turn.
  \<^item> \<open>SocketsInv\<close> and \<open>Manager\<close>: the invariant of the manager, that every call and every turn keeps
    it, and the machine \<open>ss_step\<close> of all of them, an interpretation of \<open>step_invariant\<close>.
  \<^item> \<open>Lifecycle\<close>: \<open>disconnect\<close>, \<open>connect\<close>, the reconnection and \<open>Close\<close> cut into memory accesses, for
    any number of goroutines, with the proof that the calls of \<open>Socket\<close> are runs of it.
  \<^item> \<open>Admission\<close>: \<open>Create\<close> and the counting of \<open>release\<close> cut into accesses in the same way, for a given
    number of callers.
  \<^item> \<open>Listeners\<close>: \<open>tcp/listener.go\<close>, the start and the end of \<open>wss/listener.go\<close>, and \<open>Accept\<close>, \<open>Listen\<close> and
    \<open>stop\<close> of \<open>sockets.go\<close>. The accept loop is one definition over any listener; the locales
    \<open>accepting\<close> and \<open>closing\<close> state what it needs, and the listeners of the three packages
    interpret the part they satisfy. \<open>Addresses\<close> is \<open>Sockets.Address\<close>.
  \<^item> \<open>Heartbeats\<close>: \<open>Sockets.Heartbeat\<close> and the daemon that calls it.
  \<^item> \<open>SocketApi\<close>: the getters of \<open>socket.go\<close>, \<open>Async\<close>, and what happens between the parts of \<open>Write\<close> and
    of \<open>Connect\<close>. \<open>DefaultManager\<close>: \<open>default.go\<close> and the registration of services.
  \<^item> \<open>Connections\<close>: the turns of a socket's loops with the \<open>ReadMessage\<close> and \<open>WriteMessage\<close> of any
    connection under them. The locale \<open>message_conn\<close> states what they need of the connection, and gives
    \<open>transport\<close> by a sublocale. \<open>EndToEnd\<close> interprets it on tcp, with two managers at its ends; \<open>ServerEnds\<close> on
    the peers of the udp listener and on websocket frames; \<open>SioEnds\<close> has the loops over the Socket.IO
    converter.
  \<^item> \<open>Dialled\<close>: reading over whatever \<open>net.Dial\<close> returns. \<open>ConnApi\<close>: addresses, deadlines and options of
    \<open>udp/\<close> and \<open>wss/\<close>. \<open>Shutdown\<close>: the end of the process, for servers and for dialled sockets.
  \<^item> \<open>Ownership\<close>: message objects as pointers into a store, with \<open>Require\<close>, \<open>Release\<close>, the sends, the
    loops and the emptying of queues cut into accesses, for any number of goroutines, one relation for
    each function, and \<open>share_step\<close>, what an application may do with a message that it has given away.
    \<open>Delivery\<close>: the history of such a run. \<open>ByValue\<close>: objects whose contents are those of the manager's
    pool and queues, and the calls of \<open>Socket\<close> on them.
  \<^item> \<open>MessageTypes\<close>: the operations of a message object as one machine.
  \<^item> \<open>Isolation\<close>: the steps of one socket apart from the others, with \<open>frame\<close>, what they leave alone;
    \<open>Activity\<close>: schedules of beats, messages and other steps around a connected socket.
  \<^item> \<open>CodeReplies\<close>: dispatch and reply in code mode. \<open>Unbuffered\<close>: \<open>Write\<close> meeting the write loop on a
    queue of length zero. \<open>Registration\<close>: the append to the list of listeners, cut into accesses.
    \<open>Callbacks\<close>: the operations that emit events, with listeners that may panic.
  \<^item> \<open>Sample\<close>: a concrete environment, for the examples that go with the properties.

  The properties. \<open>MessageProperties\<close>: the layout and the round trips of messages, heads, flags
  and values, what a receiver may rely on, and the pool. \<open>TransportProperties\<close>: lossless ordered
  delivery over each transport, the routing of udp packets, the websocket queue, Socket.IO
  events. \<open>SocketProperties\<close>: the table, the counter and the limit in every run, the states of
  sockets, losing and regaining connections, sending, closing, timeouts, dialling, dispatch and
  reply. \<open>Isolation\<close>: no step of one socket touches another. \<open>Lifecycle\<close> and \<open>Admission\<close>: safety of concurrent disconnects, and how far concurrent
  creation keeps the limit, each with the refinement by the uninterrupted calls.
  \<open>Heartbeats\<close>: a beat is the same function on every socket of the table, and the daemon
  releases idle sockets; \<open>Activity\<close>: a socket that receives in time is never disconnected. \<open>Listeners\<close>: the accept loop serves and ends. \<open>SocketApi\<close>: waiting sends end.
  \<open>EndToEnd\<close>, \<open>ServerEnds\<close>, \<open>SioEnds\<close>: what senders hand to a socket arrives at the peer, and requests
  that come over tcp, udp, websocket frames and Socket.IO events are answered, from the first packet
  of a stranger on. \<open>MessageTypes\<close>: type soundness of message objects. \<open>Ownership\<close>: no object is shared,
  lost or changed while it waits, as long as the application does not share its messages.
  \<open>Delivery\<close>: what is written is what was filled, in order, which is what makes it right to pass
  messages by value elsewhere. \<open>ByValue\<close>: sends, write turns and releases do the same to values and to
  objects.
  \<open>Shutdown\<close>: the write loops end and no server socket is left. \<open>CodeReplies\<close>: requests in code mode
  are answered under the number of the confirmation's path. \<open>Unbuffered\<close>: a queue of length zero is a
  queue of one place that is emptied at once. \<open>Callbacks\<close>: with listeners that return, the operations
  are the ones of the model; and what a listener that panics does to a socket, an accept loop, a beat.

  Where the code does not do what it means to, the properties say so, with the run that shows
  it: compressed tcp frames cannot be received; a negative size in a head panics the reader; an
  empty frame in code mode is dispatched by the previous message's bytes; the udp listener
  hangs in \<open>Close\<close> and panics on a late packet; Socket.IO acknowledgements are not understood by
  their own reader; a closed client reconnects; closing has no effect without a timeout; a
  stale read loop cuts a new connection; an early heartbeat revives a released socket; concurrent
  calls overrun the connection limit; the accept loops of udp and websocket listeners outlive
  \<open>Close\<close>; a message written during a disconnect is lost; a dialled socket whose connection breaks
  at once does not reconnect; options assigned after start-up are ignored by half of the library; a
  client dialled over udp loses the bodies of replies; a deadline set on one udp connection ends the
  listener; a client comes back while the process stops; a handler that writes its own message puts
  one object into the queue and into the pool, and so does a sender that releases what it has queued,
  as the README's example does; pointers to byte slices are not passed through; a list of websocket origins refuses everybody; two
  accept goroutines lose a listener; a panicking event listener strands its socket, ends an accept
  loop or the daemon; a closing socket drops what is left in its queue.

  Other modules are arguments: serialisations (\<open>codec\<close>), the code-path transform, gzip and the
  allocator's rounding are fields of \<open>env\<close>; the path registry is the argument \<open>search\<close>; handlers are
  functions that return a value or panic; what a dialled or accepted connection is, which pooled
  object is handed out, and which ready case a \<open>select\<close> takes are arguments of the operations.
  Event listeners are recorded as calls and do not call back; calls they make are calls of their
  own, and listeners that panic are in \<open>Callbacks\<close>. Logging and the text of formatted errors are left out.

  Bounds. Integers have their Go widths: sizes, codes and heartbeats wrap as 32-bit words and
  the statements name the ranges they need. There is no fuel: loops over data are structural; the
  dialling loop and the accept loop are \<open>partial_function\<close>s whose result \<open>None\<close> means that they never
  return. The first is proved to return within \<open>ClientReconnectMax\<close> attempts, or, without that
  limit, exactly when an attempt succeeds; the second is proved to return for tcp once the
  listener is closed, and not to return for udp.

  Not modelled: the HTTP server, the websocket library and the system's sockets behind the
  connections, and the clock, whose ticks are events. A queue of length zero (\<open>WriteChanSize = 0\<close>)
  holds nothing: a \<open>Write\<close> waits there, and meeting the write loop is the step \<open>hand\<close> of the machine of
  \<open>Manager\<close>, with \<open>hand_over\<close> of \<open>Socket\<close>. The
  interleavings treated are those of \<open>disconnect\<close>, \<open>connect\<close>, \<open>Create\<close>, \<open>Write\<close>, \<open>Connect\<close>, the senders and
  the write loop, the uses of message objects, the list of listeners, and the udp listener's lock;
  other calls run in one piece.
\<close>

end
